(* ===== verification/Kernel_Base.thy ===== *)
theory Kernel_Base
  imports Main "HOL-Library.Word"
begin

text \<open>
  Shared vocabulary of the development.

  \<^item> Machine integers: \<open>u8\<close> to \<open>u64\<close> are words of that width. A value that the code
    uses in arithmetic is read with \<open>unat\<close> and computed on as a natural number, and the
    operators below (\<open>add64\<close>, \<open>sub64\<close>, \<open>mul64\<close>, \<open>add32\<close> and so on) write the
    overflow check of the build out: \<^verbatim>\<open>scripts/build.bat\<close> runs \<^verbatim>\<open>cargo build\<close>, whose
    profile has overflow checks on and \<^verbatim>\<open>panic = "abort"\<close>, so an overflow, an index out
    of range, a failed \<^verbatim>\<open>assert!\<close> or \<^verbatim>\<open>expect\<close> stops the kernel.
  \<^item> \<open>panic + 'a\<close>: a computation that stops the kernel (\<open>Inl\<close>) or returns. Accesses of
    unsafe code outside the object it may touch are the outcome \<open>UndefinedBehaviour\<close>,
    and a loop that never ends is the outcome \<open>Diverges\<close>.
  \<^item> \<open>kop\<close>: an operation over a state \<open>'s\<close> that returns a Rust \<^verbatim>\<open>Result<'a, 'e>\<close>; the
    state is kept when the operation returns an error. \<open>bindK\<close> is sequencing with the
    \<^verbatim>\<open>?\<close> operator.
  \<^item> Little-endian byte codecs and slices.
\<close>

unbundle bit_operations_syntax

named_theorems run_simps \<open>inversion of sequenced computations\<close>
named_theorems arith64 \<open>unfolding of the checked operators\<close>

section \<open>Machine integers and panics\<close>

type_synonym u8 = "8 word"
type_synonym u16 = "16 word"
type_synonym u32 = "32 word"
type_synonym u64 = "64 word"

datatype panic =
    ArithmeticOverflow
  | DivisionByZero
  | IndexOutOfBounds
  | AssertionFailed
  | ExpectFailed
  | ExplicitPanic
  | UndefinedBehaviour
  | Diverges

type_synonym 'a run = "panic + 'a"

definition bindR :: "'e + 'a \<Rightarrow> ('a \<Rightarrow> 'e + 'b) \<Rightarrow> 'e + 'b" where
  "bindR m f = (case m of Inl e \<Rightarrow> Inl e | Inr a \<Rightarrow> f a)"

definition assertR :: "bool \<Rightarrow> panic \<Rightarrow> unit run" where
  "assertR b p = (if b then Inr () else Inl p)"

fun foldR :: "('a \<Rightarrow> 's \<Rightarrow> 'e + 's) \<Rightarrow> 'a list \<Rightarrow> 's \<Rightarrow> 'e + 's" where
  "foldR f [] s = Inr s"
| "foldR f (x # xs) s = bindR (f x s) (\<lambda>s'. foldR f xs s')"

definition expectR :: "'a option \<Rightarrow> 'a run" where
  "expectR x = (case x of None \<Rightarrow> Inl ExpectFailed | Some a \<Rightarrow> Inr a)"

lemma bindR_simps [simp]:
  "bindR (Inl e) f = Inl e"
  "bindR (Inr a) f = f a"
  by (simp_all add: bindR_def)

lemma bindR_Inr_iff [run_simps]:
  "bindR m f = Inr b \<longleftrightarrow> (\<exists>a. m = Inr a \<and> f a = Inr b)"
  by (cases m) auto

lemma bindR_Inl_iff:
  "bindR m f = Inl e \<longleftrightarrow> m = Inl e \<or> (\<exists>a. m = Inr a \<and> f a = Inl e)"
  by (cases m) auto

lemma bindR_assoc: "bindR (bindR m f) g = bindR m (\<lambda>a. bindR (f a) g)"
  by (cases m) auto

lemma bindR_cong [fundef_cong]:
  "m = m' \<Longrightarrow> (\<And>a. m' = Inr a \<Longrightarrow> f a = f' a) \<Longrightarrow> bindR m f = bindR m' f'"
  by (cases m') auto

lemma assertR_simps [simp]:
  "assertR True p = Inr ()"
  "assertR False p = Inl p"
  by (simp_all add: assertR_def)

lemma assertR_Inr_iff [run_simps]: "assertR b p = Inr u \<longleftrightarrow> b"
  by (simp add: assertR_def)

lemma expectR_simps [simp]:
  "expectR None = Inl ExpectFailed"
  "expectR (Some a) = Inr a"
  by (simp_all add: expectR_def)

lemma expectR_Inr_iff [run_simps]: "expectR x = Inr a \<longleftrightarrow> x = Some a"
  by (simp add: expectR_def split: option.splits)

lemma foldR_append: "foldR f (xs @ ys) s = bindR (foldR f xs s) (\<lambda>s'. foldR f ys s')"
  by (induction xs arbitrary: s) (auto simp: bindR_assoc cong: bindR_cong)

text \<open>A loop whose body never panics under an invariant, and keeps it.\<close>

lemma foldR_inv:
  assumes "\<And>x s. x \<in> set xs \<Longrightarrow> I s \<Longrightarrow> \<exists>s'. f x s = Inr s' \<and> I s'" and "I s"
  shows "\<exists>s'. foldR f xs s = Inr s' \<and> I s'"
  using assms
proof (induction xs arbitrary: s)
  case Nil
  then show ?case by simp
next
  case (Cons x xs)
  from Cons.prems obtain s1 where "f x s = Inr s1" "I s1"
    by (meson list.set_intros(1))
  moreover from this Cons obtain s2 where "foldR f xs s1 = Inr s2" "I s2"
    by (meson list.set_intros(2))
  ultimately show ?case by simp
qed

section \<open>Checked arithmetic\<close>

definition add_w :: "nat \<Rightarrow> nat \<Rightarrow> nat \<Rightarrow> nat run" where
  "add_w w a b = (if a + b < 2 ^ w then Inr (a + b) else Inl ArithmeticOverflow)"

definition mul_w :: "nat \<Rightarrow> nat \<Rightarrow> nat \<Rightarrow> nat run" where
  "mul_w w a b = (if a * b < 2 ^ w then Inr (a * b) else Inl ArithmeticOverflow)"

definition sub_w :: "nat \<Rightarrow> nat \<Rightarrow> nat run" where
  "sub_w a b = (if b \<le> a then Inr (a - b) else Inl ArithmeticOverflow)"

definition div_w :: "nat \<Rightarrow> nat \<Rightarrow> nat run" where
  "div_w a b = (if b = 0 then Inl DivisionByZero else Inr (a div b))"

definition mod_w :: "nat \<Rightarrow> nat \<Rightarrow> nat run" where
  "mod_w a b = (if b = 0 then Inl DivisionByZero else Inr (a mod b))"

text \<open>\<^verbatim>\<open>a << n\<close>: the amount is checked against the width, the bits shifted out are lost.\<close>

definition shl_w :: "nat \<Rightarrow> nat \<Rightarrow> nat \<Rightarrow> nat run" where
  "shl_w w a n = (if n < w then Inr (a * 2 ^ n mod 2 ^ w) else Inl ArithmeticOverflow)"

abbreviation add64 :: "nat \<Rightarrow> nat \<Rightarrow> nat run" where "add64 \<equiv> add_w 64"
abbreviation mul64 :: "nat \<Rightarrow> nat \<Rightarrow> nat run" where "mul64 \<equiv> mul_w 64"
abbreviation sub64 :: "nat \<Rightarrow> nat \<Rightarrow> nat run" where "sub64 \<equiv> sub_w"
abbreviation add32 :: "nat \<Rightarrow> nat \<Rightarrow> nat run" where "add32 \<equiv> add_w 32"
abbreviation add16 :: "nat \<Rightarrow> nat \<Rightarrow> nat run" where "add16 \<equiv> add_w 16"
abbreviation mul16 :: "nat \<Rightarrow> nat \<Rightarrow> nat run" where "mul16 \<equiv> mul_w 16"

lemmas checked_defs [arith64] = add_w_def mul_w_def sub_w_def div_w_def mod_w_def shl_w_def

lemma add_w_Inr_iff [run_simps]: "add_w w a b = Inr c \<longleftrightarrow> a + b < 2 ^ w \<and> c = a + b"
  by (auto simp: add_w_def)

lemma mul_w_Inr_iff [run_simps]: "mul_w w a b = Inr c \<longleftrightarrow> a * b < 2 ^ w \<and> c = a * b"
  by (auto simp: mul_w_def)

lemma sub_w_Inr_iff [run_simps]: "sub_w a b = Inr c \<longleftrightarrow> b \<le> a \<and> c = a - b"
  by (auto simp: sub_w_def)

lemma div_w_Inr_iff [run_simps]: "div_w a b = Inr c \<longleftrightarrow> b \<noteq> 0 \<and> c = a div b"
  by (auto simp: div_w_def)

lemma mod_w_Inr_iff [run_simps]: "mod_w a b = Inr c \<longleftrightarrow> b \<noteq> 0 \<and> c = a mod b"
  by (auto simp: mod_w_def)

lemma shl_w_Inr_iff [run_simps]: "shl_w w a n = Inr c \<longleftrightarrow> n < w \<and> c = a * 2 ^ n mod 2 ^ w"
  by (auto simp: shl_w_def)

definition saturating_add64 :: "nat \<Rightarrow> nat \<Rightarrow> nat" where
  "saturating_add64 a b = min (a + b) (2 ^ 64 - 1)"

text \<open>\<^verbatim>\<open>x & !(a - 1)\<close> for a power of two \<open>a\<close>; the lemmas below tie it to the mask on words.\<close>

definition align_down :: "nat \<Rightarrow> nat \<Rightarrow> nat" where
  "align_down a x = x - x mod a"

lemma align_down_le: "align_down a x \<le> x"
  by (simp add: align_down_def)

lemma align_down_dvd: "a dvd align_down a x"
  by (simp add: align_down_def dvd_minus_mod)

lemma align_down_eq: "align_down a x = x div a * a"
  by (simp add: align_down_def minus_mod_eq_div_mult)

lemma less_align_down_add: "0 < a \<Longrightarrow> x < align_down a x + a"
  using mod_less_divisor [of a x] mod_less_eq_dividend [of x a]
  unfolding align_down_def by linarith

lemma align_down_aligned: "a dvd p \<Longrightarrow> align_down a p = p"
  by (simp add: align_down_def dvd_eq_mod_eq_0)

lemma align_down_mono: "x \<le> y \<Longrightarrow> align_down a x \<le> align_down a (y :: nat)"
  by (simp add: align_down_eq div_le_mono)

lemma align_down_step: "x < y \<Longrightarrow> align_down 4096 x < align_down 4096 (y + 0xFFF)"
  using align_down_le [of 4096 x] less_align_down_add [of 4096 "y + 0xFFF"] align_down_dvd [of 4096 x] align_down_dvd [of 4096 "y + 0xFFF"]
  by (auto elim!: dvdE)

lemma align_down_unique:
  assumes "p \<le> (va :: nat)" and "a dvd p" and "va < p + a"
  shows "align_down a va = p"
proof -
  obtain k where k: "p = a * k" using assms(2) by blast
  then have "va div a = k" using assms by (intro div_nat_eqI) (simp_all add: algebra_simps)
  then show ?thesis by (simp add: align_down_def minus_mod_eq_mult_div k)
qed

lemma unat_word_and_not_mask:
  fixes x :: u64
  assumes "n < 64"
  shows "unat (x AND NOT (mask n)) = align_down (2 ^ n) (unat x)"
proof -
  have "x AND NOT (mask n) = push_bit n (drop_bit n x)"
    by (rule bit_eqI) (auto simp: bit_simps)
  then have "x AND NOT (mask n) = x - take_bit n x"
    using bits_ident [of n x] by (simp add: eq_diff_eq)
  moreover have "unat (take_bit n x) = unat x mod 2 ^ n"
    by (simp only: unsigned_take_bit_eq) (simp add: take_bit_eq_mod)
  moreover from this have "take_bit n x \<le> x"
    by (simp add: word_le_nat_alt)
  ultimately show ?thesis
    by (simp add: unat_sub align_down_def)
qed

lemma unat_less_pow: "unat (x :: 'a::len word) < 2 ^ LENGTH('a)"
  by (rule unsigned_less)

lemma mul_fits: "(a :: nat) < 2 ^ i \<Longrightarrow> b < 2 ^ j \<Longrightarrow> i + j \<le> 64 \<Longrightarrow> a * b < 2 ^ 64"
proof -
  assume "a < 2 ^ i" "b < 2 ^ j" "i + j \<le> 64"
  then have "a * b < 2 ^ i * 2 ^ j" by (intro mult_strict_mono) auto
  also have "\<dots> = 2 ^ (i + j)" by (simp add: power_add)
  also have "\<dots> \<le> 2 ^ 64" using \<open>i + j \<le> 64\<close> by (intro power_increasing) auto
  finally show ?thesis .
qed

section \<open>Indexing and slices\<close>

definition idx :: "'a list \<Rightarrow> nat \<Rightarrow> 'a run" where
  "idx xs i = (if i < length xs then Inr (xs ! i) else Inl IndexOutOfBounds)"

definition upd :: "'a list \<Rightarrow> nat \<Rightarrow> 'a \<Rightarrow> 'a list run" where
  "upd xs i v = (if i < length xs then Inr (xs[i := v]) else Inl IndexOutOfBounds)"

definition bslice :: "'a list \<Rightarrow> nat \<Rightarrow> nat \<Rightarrow> 'a list" where
  "bslice xs i n = take n (drop i xs)"

definition bsplice :: "'a list \<Rightarrow> nat \<Rightarrow> 'a list \<Rightarrow> 'a list" where
  "bsplice xs i ys = take i xs @ ys @ drop (i + length ys) xs"

lemma idx_Inr_iff [run_simps]: "idx xs i = Inr v \<longleftrightarrow> i < length xs \<and> v = xs ! i"
  by (auto simp: idx_def)

lemma upd_Inr_iff [run_simps]: "upd xs i v = Inr ys \<longleftrightarrow> i < length xs \<and> ys = xs[i := v]"
  by (auto simp: upd_def)

lemma idx_in [simp]: "i < length xs \<Longrightarrow> idx xs i = Inr (xs ! i)"
  by (simp add: idx_def)

lemma upd_in [simp]: "i < length xs \<Longrightarrow> upd xs i v = Inr (xs[i := v])"
  by (simp add: upd_def)

lemma length_bslice [simp]: "i + n \<le> length xs \<Longrightarrow> length (bslice xs i n) = n"
  by (simp add: bslice_def)

lemma length_bsplice [simp]: "i + length ys \<le> length xs \<Longrightarrow> length (bsplice xs i ys) = length xs"
  by (simp add: bsplice_def)

lemma nth_bslice: "k < n \<Longrightarrow> i + n \<le> length xs \<Longrightarrow> bslice xs i n ! k = xs ! (i + k)"
  by (simp add: bslice_def)

lemma nth_bsplice:
  "i + length ys \<le> length xs \<Longrightarrow> k < length xs \<Longrightarrow>
     bsplice xs i ys ! k = (if i \<le> k \<and> k < i + length ys then ys ! (k - i) else xs ! k)"
  by (auto simp: bsplice_def nth_append min_def)

lemma bslice_bsplice_same:
  "i + length ys \<le> length xs \<Longrightarrow> n = length ys \<Longrightarrow> bslice (bsplice xs i ys) i n = ys"
  by (simp add: bslice_def bsplice_def)

lemma bslice_bsplice_other:
  assumes "i + length ys \<le> length xs" "j + n \<le> length xs" "j + n \<le> i \<or> i + length ys \<le> j"
  shows "bslice (bsplice xs i ys) j n = bslice xs j n"
proof (rule nth_equalityI)
  show "length (bslice (bsplice xs i ys) j n) = length (bslice xs j n)"
    using assms by simp
next
  fix k assume "k < length (bslice (bsplice xs i ys) j n)"
  then have "k < n" using assms by simp
  then show "bslice (bsplice xs i ys) j n ! k = bslice xs j n ! k"
    using assms by (auto simp: nth_bslice nth_bsplice)
qed

section \<open>Lists of equal pieces\<close>

lemma nth_concat_uniform:
  assumes "\<forall>xs \<in> set xss. length xs = n" and "p < n * length xss"
  shows "concat xss ! p = xss ! (p div n) ! (p mod n)"
  using assms
proof (induction xss arbitrary: p)
  case Nil
  then show ?case by simp
next
  case (Cons xs xss)
  have l: "length xs = n" and n: "0 < n" using Cons.prems by (auto intro: Nat.gr0I)
  show ?case
  proof (cases "p < n")
    case True
    then show ?thesis using l by (simp add: nth_append)
  next
    case False
    then have p: "n \<le> p" by simp
    then have "p div n = Suc ((p - n) div n)" "p mod n = (p - n) mod n"
      using n by (simp_all add: le_div_geq le_mod_geq)
    moreover have "concat xss ! (p - n) = xss ! ((p - n) div n) ! ((p - n) mod n)"
      using Cons.prems p by (intro Cons.IH) auto
    ultimately show ?thesis using l p by (simp add: nth_append)
  qed
qed

lemma length_concat_uniform: "\<forall>xs \<in> set xss. length xs = n \<Longrightarrow> length (concat xss) = n * length xss"
  by (induction xss) auto

lemma bsplice_bsplice:
  "k + length xs + length ys \<le> length b \<Longrightarrow>
   bsplice (bsplice b k xs) (k + length xs) ys = bsplice b k (xs @ ys)"
  by (simp add: bsplice_def ac_simps)

lemma bslice_add: "bslice xs p (a + b) = bslice xs p a @ bslice xs (p + a) b"
  by (simp add: bslice_def take_add add.commute)

section \<open>Operations with an error result\<close>

text \<open>
  \<open>('s, 'e, 'a) kop\<close> is a routine that reads and writes the state \<open>'s\<close> and returns
  \<^verbatim>\<open>Result<'a, 'e>\<close>, or stops the kernel. An early return with an error leaves the
  effects of what ran before in the state.
\<close>

type_synonym ('s, 'e, 'a) kop = "'s \<Rightarrow> (('e + 'a) \<times> 's) run"

definition retK :: "'a \<Rightarrow> ('s, 'e, 'a) kop" where
  "retK a = (\<lambda>s. Inr (Inr a, s))"

definition failK :: "'e \<Rightarrow> ('s, 'e, 'a) kop" where
  "failK e = (\<lambda>s. Inr (Inl e, s))"

definition bindK :: "('s, 'e, 'a) kop \<Rightarrow> ('a \<Rightarrow> ('s, 'e, 'b) kop) \<Rightarrow> ('s, 'e, 'b) kop" where
  "bindK m f = (\<lambda>s. case m s of
     Inl p \<Rightarrow> Inl p
   | Inr (Inl e, s') \<Rightarrow> Inr (Inl e, s')
   | Inr (Inr a, s') \<Rightarrow> f a s')"

text \<open>A pure computation that may panic, as a step of an operation.\<close>

definition liftR :: "'a run \<Rightarrow> ('s, 'e, 'a) kop" where
  "liftR m = (\<lambda>s. case m of Inl p \<Rightarrow> Inl p | Inr a \<Rightarrow> Inr (Inr a, s))"

text \<open>\<^verbatim>\<open>.map_err(f)\<close>, and \<^verbatim>\<open>match\<close> on a result without propagating its error.\<close>

definition map_errK :: "('e \<Rightarrow> 'f) \<Rightarrow> ('s, 'e, 'a) kop \<Rightarrow> ('s, 'f, 'a) kop" where
  "map_errK f m = (\<lambda>s. case m s of
     Inl p \<Rightarrow> Inl p
   | Inr (Inl e, s') \<Rightarrow> Inr (Inl (f e), s')
   | Inr (Inr a, s') \<Rightarrow> Inr (Inr a, s'))"

definition matchK :: "('s, 'e, 'a) kop \<Rightarrow> ('s, 'f, 'e + 'a) kop" where
  "matchK m = (\<lambda>s. case m s of Inl p \<Rightarrow> Inl p | Inr (r, s') \<Rightarrow> Inr (Inr r, s'))"

fun foldK :: "('a \<Rightarrow> 'b \<Rightarrow> ('s, 'e, 'b) kop) \<Rightarrow> 'a list \<Rightarrow> 'b \<Rightarrow> ('s, 'e, 'b) kop" where
  "foldK f [] b = retK b"
| "foldK f (x # xs) b = bindK (f x b) (\<lambda>b'. foldK f xs b')"

lemma kop_simps [simp]:
  "retK a s = Inr (Inr a, s)"
  "failK e s = Inr (Inl e, s)"
  "liftR (Inl p) s = Inl p"
  "liftR (Inr a) s = Inr (Inr a, s)"
  by (simp_all add: retK_def failK_def liftR_def)

lemma bindK_Inl: "m s = Inl p \<Longrightarrow> bindK m f s = Inl p"
  by (simp add: bindK_def)

lemma bindK_err: "m s = Inr (Inl e, s') \<Longrightarrow> bindK m f s = Inr (Inl e, s')"
  by (simp add: bindK_def)

lemma bindK_ok: "m s = Inr (Inr a, s') \<Longrightarrow> bindK m f s = f a s'"
  by (simp add: bindK_def)

lemma bindK_simps [simp]:
  "bindK (retK a) f = f a"
  "bindK (failK e) f = failK e"
  "bindK (liftR (Inr a)) f = f a"
  "bindK (liftR (Inl p)) f s = Inl p"
  by (auto simp: bindK_def retK_def failK_def liftR_def)

lemma bindK_Inr_iff [run_simps]:
  "bindK m f s = Inr (Inr b, s'') \<longleftrightarrow> (\<exists>a s'. m s = Inr (Inr a, s') \<and> f a s' = Inr (Inr b, s''))"
  by (auto simp: bindK_def split: sum.splits prod.splits)

lemma liftR_Inr_iff [run_simps]: "liftR m s = Inr (r, s') \<longleftrightarrow> (\<exists>a. m = Inr a \<and> r = Inr a \<and> s' = s)"
  by (auto simp: liftR_def split: sum.splits)

lemma bindK_run_iff:
  "bindK m f s = Inr (r, s'') \<longleftrightarrow>
     (\<exists>e. m s = Inr (Inl e, s'') \<and> r = Inl e) \<or>
     (\<exists>a s'. m s = Inr (Inr a, s') \<and> f a s' = Inr (r, s''))"
  by (auto simp: bindK_def split: sum.splits prod.splits)

lemma map_errK_run_iff [run_simps]:
  "map_errK f m s = Inr (r, s') \<longleftrightarrow>
     (\<exists>e. m s = Inr (Inl e, s') \<and> r = Inl (f e)) \<or> (\<exists>a. m s = Inr (Inr a, s') \<and> r = Inr a)"
  by (auto simp: map_errK_def split: sum.splits prod.splits)

lemma map_errK_ok: "m s = Inr (Inr a, s') \<Longrightarrow> map_errK f m s = Inr (Inr a, s')"
  by (simp add: map_errK_def)

lemma map_errK_err: "m s = Inr (Inl e, s') \<Longrightarrow> map_errK f m s = Inr (Inl (f e), s')"
  by (simp add: map_errK_def)

lemma matchK_run_iff [run_simps]:
  "matchK m s = Inr (r, s') \<longleftrightarrow> (\<exists>q. m s = Inr (q, s') \<and> r = Inr q)"
  by (auto simp: matchK_def split: sum.splits prod.splits)

lemma bindK_assoc: "bindK (bindK m f) g = bindK m (\<lambda>a. bindK (f a) g)"
  by (rule ext) (simp add: bindK_def split: sum.splits prod.splits)

lemma bindK_cong [fundef_cong]:
  "m s = m' s' \<Longrightarrow> (\<And>a t. m' s' = Inr (Inr a, t) \<Longrightarrow> f a t = f' a t) \<Longrightarrow>
     bindK m f s = bindK m' f' s'"
  by (auto simp: bindK_def split: sum.splits prod.splits)

section \<open>Little-endian bytes\<close>

fun le_nat :: "u8 list \<Rightarrow> nat" where
  "le_nat [] = 0"
| "le_nat (b # bs) = unat b + 256 * le_nat bs"

fun to_le :: "nat \<Rightarrow> nat \<Rightarrow> u8 list" where
  "to_le 0 x = []"
| "to_le (Suc n) x = word_of_nat x # to_le n (x div 256)"

text \<open>\<^verbatim>\<open>uN::from_le_bytes\<close> on the first bytes of a buffer from an offset, and its inverse.\<close>

definition get_u8 :: "u8 list \<Rightarrow> nat \<Rightarrow> u8" where
  "get_u8 bs i = (if i < length bs then bs ! i else 0)"

definition get_u16 :: "u8 list \<Rightarrow> nat \<Rightarrow> u16" where
  "get_u16 bs i = word_of_nat (le_nat (bslice bs i 2))"

definition get_u32 :: "u8 list \<Rightarrow> nat \<Rightarrow> u32" where
  "get_u32 bs i = word_of_nat (le_nat (bslice bs i 4))"

definition get_u64 :: "u8 list \<Rightarrow> nat \<Rightarrow> u64" where
  "get_u64 bs i = word_of_nat (le_nat (bslice bs i 8))"

definition u16_bytes :: "u16 \<Rightarrow> u8 list" where
  "u16_bytes w = to_le 2 (unat w)"

definition u32_bytes :: "u32 \<Rightarrow> u8 list" where
  "u32_bytes w = to_le 4 (unat w)"

definition u64_bytes :: "u64 \<Rightarrow> u8 list" where
  "u64_bytes w = to_le 8 (unat w)"

lemma length_to_le [simp]: "length (to_le n x) = n"
  by (induction n arbitrary: x) auto

lemma length_uN_bytes [simp]:
  "length (u16_bytes a) = 2" "length (u32_bytes b) = 4" "length (u64_bytes c) = 8"
  by (simp_all add: u16_bytes_def u32_bytes_def u64_bytes_def)

lemma le_nat_to_le: "le_nat (to_le n x) = x mod 256 ^ n"
proof (induction n arbitrary: x)
  case 0
  then show ?case by simp
next
  case (Suc n)
  have "le_nat (to_le (Suc n) x) = x mod 256 + 256 * (x div 256 mod 256 ^ n)"
    by (simp add: Suc unat_of_nat)
  also have "\<dots> = x mod (256 * 256 ^ n)"
    by (simp add: mod_mult2_eq)
  finally show ?case by simp
qed

lemma le_nat_less: "le_nat bs < 256 ^ length bs"
proof (induction bs)
  case Nil
  then show ?case by simp
next
  case (Cons b bs)
  have "unat b < 256" using unsigned_less [of b, where ?'a = nat] by simp
  with Cons show ?case by simp
qed

lemma to_le_le_nat: "to_le (length bs) (le_nat bs) = bs"
proof (induction bs)
  case Nil
  then show ?case by simp
next
  case (Cons b bs)
  have b: "unat b < 256" using unsigned_less [of b, where ?'a = nat] by simp
  then have "(unat b + 256 * le_nat bs) div 256 = le_nat bs" by simp
  moreover have "(word_of_nat (unat b + 256 * le_nat bs) :: u8) = b"
  proof -
    have "(256 :: u8) = 0" by simp
    then show ?thesis by (simp only: of_nat_add of_nat_mult of_nat_numeral) simp
  qed
  ultimately show ?case using Cons by simp
qed

lemma get_u16_bytes [simp]: "get_u16 (u16_bytes w) 0 = w"
  using unsigned_less [of w, where ?'a = nat]
  by (simp add: get_u16_def u16_bytes_def bslice_def le_nat_to_le)

lemma get_u32_bytes [simp]: "get_u32 (u32_bytes w) 0 = w"
  using unsigned_less [of w, where ?'a = nat]
  by (simp add: get_u32_def u32_bytes_def bslice_def le_nat_to_le)

lemma get_u64_bytes [simp]: "get_u64 (u64_bytes w) 0 = w"
  using unsigned_less [of w, where ?'a = nat]
  by (simp add: get_u64_def u64_bytes_def bslice_def le_nat_to_le)

lemma le_nat_zeros: "le_nat (replicate n 0) = 0"
  by (induction n) simp_all

section \<open>Byte-addressed memory\<close>

type_synonym memory = "nat \<Rightarrow> u8"

definition fill_ram :: "nat \<Rightarrow> nat \<Rightarrow> u8 \<Rightarrow> memory \<Rightarrow> memory" where
  "fill_ram p n v m = (\<lambda>x. if p \<le> x \<and> x < p + n then v else m x)"

definition read_ram :: "nat \<Rightarrow> nat \<Rightarrow> memory \<Rightarrow> u8 list" where
  "read_ram p n m = map m [p ..< p + n]"

definition write_ram :: "nat \<Rightarrow> u8 list \<Rightarrow> memory \<Rightarrow> memory" where
  "write_ram p bs m = (\<lambda>x. if p \<le> x \<and> x < p + length bs then bs ! (x - p) else m x)"

definition peek64 :: "nat \<Rightarrow> memory \<Rightarrow> u64" where
  "peek64 p m = word_of_nat (le_nat (read_ram p 8 m))"

definition poke64 :: "nat \<Rightarrow> u64 \<Rightarrow> memory \<Rightarrow> memory" where
  "poke64 p v m = write_ram p (u64_bytes v) m"

lemma length_read_ram [simp]: "length (read_ram p n m) = n"
  by (simp add: read_ram_def)

lemma read_write_ram [simp]: "read_ram p (length bs) (write_ram p bs m) = bs"
  by (rule nth_equalityI) (auto simp: read_ram_def write_ram_def)

lemma read_write_ram_other:
  "p + n \<le> q \<or> q + length bs \<le> p \<Longrightarrow> read_ram p n (write_ram q bs m) = read_ram p n m"
  by (auto simp: read_ram_def write_ram_def)

lemma read_fill_ram: "q \<le> p \<Longrightarrow> p + n \<le> q + k \<Longrightarrow> read_ram p n (fill_ram q k v m) = replicate n v"
  by (auto simp: read_ram_def fill_ram_def intro: nth_equalityI)

lemma read_ram_cong:
  "(\<And>x. p \<le> x \<Longrightarrow> x < p + n \<Longrightarrow> m x = m' x) \<Longrightarrow> read_ram p n m = read_ram p n m'"
  by (simp add: read_ram_def)

lemma peek_poke_same [simp]: "peek64 p (poke64 p v m) = v"
proof -
  have "read_ram p 8 (poke64 p v m) = u64_bytes v"
    using read_write_ram [of p "u64_bytes v" m] by (simp add: poke64_def)
  then show ?thesis
    using unsigned_less [of v, where ?'a = nat]
    by (simp add: peek64_def u64_bytes_def le_nat_to_le)
qed

lemma peek_poke_other: "p + 8 \<le> q \<or> q + 8 \<le> p \<Longrightarrow> peek64 p (poke64 q v m) = peek64 p m"
  by (simp add: peek64_def poke64_def read_write_ram_other)

lemma peek64_cong: "(\<And>x. p \<le> x \<Longrightarrow> x < p + 8 \<Longrightarrow> m x = m' x) \<Longrightarrow> peek64 p m = peek64 p m'"
  unfolding peek64_def by (metis read_ram_cong)

lemma poke64_other: "x < p \<or> p + 8 \<le> x \<Longrightarrow> poke64 p v m x = m x"
  by (auto simp: poke64_def write_ram_def)

lemma peek64_zero: "peek64 p (\<lambda>_. 0) = 0"
proof -
  have "le_nat (replicate n 0) = 0" for n by (induction n) auto
  then show ?thesis by (simp add: peek64_def read_ram_def map_replicate_const)
qed

section \<open>Virtual addresses\<close>

text \<open>\<^verbatim>\<open>VirtAddr::new\<close> panics on an address whose upper 17 bits differ.\<close>

definition canonical :: "nat \<Rightarrow> bool" where
  "canonical a \<longleftrightarrow> a < 2 ^ 47 \<or> 2 ^ 64 - 2 ^ 47 \<le> a \<and> a < 2 ^ 64"

definition virt_addr :: "nat \<Rightarrow> nat run" where
  "virt_addr a = bindR (assertR (canonical a) ExplicitPanic) (\<lambda>_. Inr a)"

text \<open>Adding to a \<^verbatim>\<open>VirtAddr\<close> overflows like \<^verbatim>\<open>u64\<close> and then checks the sum.\<close>

definition virt_add :: "nat \<Rightarrow> nat \<Rightarrow> nat run" where
  "virt_add a n = bindR (add64 a n) virt_addr"

lemma virt_add_ok: "a + n < 2 ^ 64 \<Longrightarrow> canonical (a + n) \<Longrightarrow> virt_add a n = Inr (a + n)"
  by (simp add: virt_add_def virt_addr_def add_w_def)

end
