(* ===== verification/Kernel_Error.thy ===== *)
theory Kernel_Error
  imports Kernel_Base
begin

text \<open>
  The typed error tree of \<^verbatim>\<open>src/core/error.rs\<close>, with the ELF loader's and the block
  driver's own error enums: the variants, the \<^verbatim>\<open>From\<close> conversions that \<^verbatim>\<open>?\<close> applies, the
  reduction to a negative POSIX \<^verbatim>\<open>errno\<close>, the \<^verbatim>\<open>source()\<close> chain and the \<^verbatim>\<open>Display\<close>
  texts. The lemmas show that every error reaches Ring 3 as a code of the Linux error
  range, and that every \<^verbatim>\<open>Display\<close> text is one line with the \<^verbatim>\<open>KERNEL:\<close> prefix.
\<close>

section \<open>The error enums\<close>

datatype ElfError = TooSmall | InvalidMagicNumber | Not64Bit | MemoryMappingFailed

datatype DriverError =
    DrvIoFailure | DrvDeviceNotFound | DrvControllerMissing | DrvTimeout
  | DrvUnsupportedProtocol | BufferTooSmall | BufferTooLarge | NoDmaMemory

datatype MemoryError =
    PageFault u64 u64
  | OutOfFrames | InvalidMapping | CoWResolutionFailed | HhdmMissing | HeapOOM

datatype PrivilegeError =
    GeneralProtectionFault u64 bool
  | InvalidOpcode bool
  | DivideError bool
  | DoubleFault
  | PermissionDenied

datatype HardwareError = IoFailure | ControllerMissing | UnsupportedProtocol | DeviceNotFound

datatype FsError =
    BlockRead | BlockWrite
  | BadMagic u16 u16
  | MbrInvalid | GptOnly
  | UnknownPartition u8
  | VfsEntryMissing | CorruptedDirectory | NoSpace | OutOfInodes | OutOfBlocks
  | FsElf ElfError

datatype TaskError = StackAllocation | EntryMissing | PrivilegeMismatch | TaskCreationFailure

datatype SystemError = ElfParseFailed ElfError | SysTaskCreationFailure

datatype KernelError =
    KMemory MemoryError
  | KPrivilege PrivilegeError
  | KHardware HardwareError
  | KFs FsError
  | KTask TaskError
  | KSystem SystemError

section \<open>Conversions\<close>

fun FsError_from_DriverError :: "DriverError \<Rightarrow> FsError" where
  "FsError_from_DriverError DrvIoFailure = BlockRead"
| "FsError_from_DriverError DrvTimeout = BlockRead"
| "FsError_from_DriverError BufferTooSmall = CorruptedDirectory"
| "FsError_from_DriverError BufferTooLarge = CorruptedDirectory"
| "FsError_from_DriverError NoDmaMemory = OutOfBlocks"
| "FsError_from_DriverError DrvControllerMissing = VfsEntryMissing"
| "FsError_from_DriverError DrvDeviceNotFound = VfsEntryMissing"
| "FsError_from_DriverError DrvUnsupportedProtocol = VfsEntryMissing"

definition KernelError_from_ElfError :: "ElfError \<Rightarrow> KernelError" where
  "KernelError_from_ElfError e = KFs (FsElf e)"

definition KernelError_from_str :: "string \<Rightarrow> KernelError" where
  "KernelError_from_str msg = KSystem SysTaskCreationFailure"

section \<open>Errno\<close>

datatype Errno =
    EPERM | ENOENT | EIO | ENXIO | ENOEXEC | EBADF | ENOMEM | EACCES | EFAULT | EEXIST
  | EINVAL | ENOSPC | ENOSYS

fun errno_value :: "Errno \<Rightarrow> int" where
  "errno_value EPERM = 1"
| "errno_value ENOENT = 2"
| "errno_value EIO = 5"
| "errno_value ENXIO = 6"
| "errno_value ENOEXEC = 8"
| "errno_value EBADF = 9"
| "errno_value ENOMEM = 12"
| "errno_value EACCES = 13"
| "errno_value EFAULT = 14"
| "errno_value EEXIST = 17"
| "errno_value EINVAL = 22"
| "errno_value ENOSPC = 28"
| "errno_value ENOSYS = 38"

definition to_neg_i32 :: "Errno \<Rightarrow> int" where
  "to_neg_i32 e = - errno_value e"

definition mt :: "Errno \<Rightarrow> int" where
  "mt inner = to_neg_i32 inner"

fun ElfError_to_errno :: "ElfError \<Rightarrow> int" where
  "ElfError_to_errno TooSmall = mt EINVAL"
| "ElfError_to_errno InvalidMagicNumber = mt ENOEXEC"
| "ElfError_to_errno Not64Bit = mt ENOEXEC"
| "ElfError_to_errno MemoryMappingFailed = mt ENOMEM"

fun MemoryError_to_errno :: "MemoryError \<Rightarrow> int" where
  "MemoryError_to_errno (PageFault addr flags) = mt EFAULT"
| "MemoryError_to_errno OutOfFrames = mt ENOMEM"
| "MemoryError_to_errno HeapOOM = mt ENOMEM"
| "MemoryError_to_errno InvalidMapping = mt EFAULT"
| "MemoryError_to_errno CoWResolutionFailed = mt EFAULT"
| "MemoryError_to_errno HhdmMissing = mt EFAULT"

fun PrivilegeError_to_errno :: "PrivilegeError \<Rightarrow> int" where
  "PrivilegeError_to_errno (GeneralProtectionFault code is_user) = mt EFAULT"
| "PrivilegeError_to_errno (InvalidOpcode is_user) = (if is_user then mt ENOSYS else mt EFAULT)"
| "PrivilegeError_to_errno (DivideError is_user) = mt EFAULT"
| "PrivilegeError_to_errno DoubleFault = mt EFAULT"
| "PrivilegeError_to_errno PermissionDenied = mt EACCES"

fun HardwareError_to_errno :: "HardwareError \<Rightarrow> int" where
  "HardwareError_to_errno IoFailure = mt EIO"
| "HardwareError_to_errno ControllerMissing = mt ENXIO"
| "HardwareError_to_errno UnsupportedProtocol = mt ENOSYS"
| "HardwareError_to_errno DeviceNotFound = mt ENXIO"

fun FsError_to_errno :: "FsError \<Rightarrow> int" where
  "FsError_to_errno BlockRead = mt EIO"
| "FsError_to_errno BlockWrite = mt EIO"
| "FsError_to_errno (BadMagic expected found) = mt EINVAL"
| "FsError_to_errno MbrInvalid = mt EINVAL"
| "FsError_to_errno GptOnly = mt EINVAL"
| "FsError_to_errno (UnknownPartition t) = mt EINVAL"
| "FsError_to_errno VfsEntryMissing = mt ENOENT"
| "FsError_to_errno OutOfInodes = mt ENOSPC"
| "FsError_to_errno OutOfBlocks = mt ENOSPC"
| "FsError_to_errno CorruptedDirectory = mt EIO"
| "FsError_to_errno NoSpace = mt ENOSPC"
| "FsError_to_errno (FsElf inner) = ElfError_to_errno inner"

fun TaskError_to_errno :: "TaskError \<Rightarrow> int" where
  "TaskError_to_errno StackAllocation = mt ENOMEM"
| "TaskError_to_errno EntryMissing = mt EINVAL"
| "TaskError_to_errno PrivilegeMismatch = mt EACCES"
| "TaskError_to_errno TaskCreationFailure = mt EINVAL"

fun SystemError_to_errno :: "SystemError \<Rightarrow> int" where
  "SystemError_to_errno (ElfParseFailed inner) = ElfError_to_errno inner"
| "SystemError_to_errno SysTaskCreationFailure = mt EINVAL"

fun KernelError_to_errno :: "KernelError \<Rightarrow> int" where
  "KernelError_to_errno (KMemory e) = MemoryError_to_errno e"
| "KernelError_to_errno (KPrivilege e) = PrivilegeError_to_errno e"
| "KernelError_to_errno (KHardware e) = HardwareError_to_errno e"
| "KernelError_to_errno (KFs e) = FsError_to_errno e"
| "KernelError_to_errno (KTask e) = TaskError_to_errno e"
| "KernelError_to_errno (KSystem e) = SystemError_to_errno e"

section \<open>The source chain\<close>

text \<open>The values a \<^verbatim>\<open>&dyn core::error::Error\<close> of this module can point at.\<close>

datatype dyn_error =
    DynKernel KernelError | DynMemory MemoryError | DynPrivilege PrivilegeError
  | DynHardware HardwareError | DynFs FsError | DynTask TaskError | DynSystem SystemError
  | DynElf ElfError | DynDriver DriverError

fun KernelError_source :: "KernelError \<Rightarrow> dyn_error option" where
  "KernelError_source (KMemory e) = Some (DynMemory e)"
| "KernelError_source (KPrivilege e) = Some (DynPrivilege e)"
| "KernelError_source (KHardware e) = Some (DynHardware e)"
| "KernelError_source (KFs e) = Some (DynFs e)"
| "KernelError_source (KTask e) = Some (DynTask e)"
| "KernelError_source (KSystem e) = Some (DynSystem e)"

fun FsError_source :: "FsError \<Rightarrow> dyn_error option" where
  "FsError_source (FsElf inner) = Some (DynElf inner)"
| "FsError_source _ = None"

fun SystemError_source :: "SystemError \<Rightarrow> dyn_error option" where
  "SystemError_source (ElfParseFailed inner) = Some (DynElf inner)"
| "SystemError_source SysTaskCreationFailure = None"

fun dyn_source :: "dyn_error \<Rightarrow> dyn_error option" where
  "dyn_source (DynKernel e) = KernelError_source e"
| "dyn_source (DynFs e) = FsError_source e"
| "dyn_source (DynSystem e) = SystemError_source e"
| "dyn_source _ = None"

section \<open>Display\<close>

text \<open>
  \<open>hex\<close> is \<^verbatim>\<open>{:x}\<close>, \<open>hex_pad n\<close> is \<^verbatim>\<open>{:0nx}\<close>, \<open>ElfError_debug\<close> the derived
  \<^verbatim>\<open>{:?}\<close>.
\<close>

definition hex_digit :: "nat \<Rightarrow> char" where
  "hex_digit d = ''0123456789abcdef'' ! (d mod 16)"

fun hex :: "nat \<Rightarrow> string" where
  "hex n = (if n < 16 then [hex_digit n] else hex (n div 16) @ [hex_digit n])"

declare hex.simps [simp del]

definition hex_pad :: "nat \<Rightarrow> nat \<Rightarrow> string" where
  "hex_pad w n = replicate (w - length (hex n)) CHR ''0'' @ hex n"

definition ring_text :: "bool \<Rightarrow> string" where
  "ring_text is_user = (if is_user then ''3'' else ''0'')"

fun ElfError_debug :: "ElfError \<Rightarrow> string" where
  "ElfError_debug TooSmall = ''TooSmall''"
| "ElfError_debug InvalidMagicNumber = ''InvalidMagicNumber''"
| "ElfError_debug Not64Bit = ''Not64Bit''"
| "ElfError_debug MemoryMappingFailed = ''MemoryMappingFailed''"

fun ElfError_display :: "ElfError \<Rightarrow> string" where
  "ElfError_display TooSmall = ''ELF binary too small''"
| "ElfError_display InvalidMagicNumber = ''Invalid ELF magic number''"
| "ElfError_display Not64Bit = ''ELF is not 64-bit''"
| "ElfError_display MemoryMappingFailed = ''Failed to map memory for ELF segment''"

fun DriverError_display :: "DriverError \<Rightarrow> string" where
  "DriverError_display DrvIoFailure = ''DRV:IoFailure (DMA/PIO operation failed)''"
| "DriverError_display DrvDeviceNotFound = ''DRV:DeviceNotFound (LUN/id mismatch)''"
| "DriverError_display DrvControllerMissing = ''DRV:ControllerMissing (HBA unresponsive on PCI)''"
| "DriverError_display DrvTimeout = ''DRV:Timeout (controller did not complete in time)''"
| "DriverError_display DrvUnsupportedProtocol =
     ''DRV:UnsupportedProtocol (rev. not handled by driver)''"
| "DriverError_display BufferTooSmall =
     ''DRV:BufferTooSmall (caller buffer cannot hold a sector)''"
| "DriverError_display BufferTooLarge =
     ''DRV:BufferTooLarge (caller buffer exceeds a physical page)''"
| "DriverError_display NoDmaMemory = ''DRV:NoDmaMemory (no free frames for bounce buffer)''"

fun MemoryError_display :: "MemoryError \<Rightarrow> string" where
  "MemoryError_display (PageFault addr flags) =
     ''MEMORY:#PF addr=0x'' @ hex (unat addr) @ '' flags=0x'' @ hex (unat flags)"
| "MemoryError_display OutOfFrames = ''MEMORY:OutOfFrames (bitmap exhausted)''"
| "MemoryError_display InvalidMapping =
     ''MEMORY:InvalidMapping (region already used or HHDM conflict)''"
| "MemoryError_display CoWResolutionFailed =
     ''MEMORY:CoWResolutionFailed (cannot resolve Copy-on-Write)''"
| "MemoryError_display HhdmMissing =
     ''MEMORY:HhdmMissing (Limine did not provide higher-half direct map)''"
| "MemoryError_display HeapOOM = ''MEMORY:HeapOOM (linked_list_allocator returned None)''"

fun PrivilegeError_display :: "PrivilegeError \<Rightarrow> string" where
  "PrivilegeError_display (GeneralProtectionFault code is_user) =
     ''PRIV:#GP error_code=0x'' @ hex (unat code) @ '' ring='' @ ring_text is_user"
| "PrivilegeError_display (InvalidOpcode is_user) = ''PRIV:#UD ring='' @ ring_text is_user"
| "PrivilegeError_display (DivideError is_user) = ''PRIV:#DE ring='' @ ring_text is_user"
| "PrivilegeError_display DoubleFault = ''PRIV:#DF double-fault (panic-inevitable)''"
| "PrivilegeError_display PermissionDenied = ''PRIV:PermissionDenied''"

fun HardwareError_display :: "HardwareError \<Rightarrow> string" where
  "HardwareError_display IoFailure = ''HW:IoFailure''"
| "HardwareError_display ControllerMissing =
     ''HW:ControllerMissing (not on PCI bus or unresponsive)''"
| "HardwareError_display UnsupportedProtocol = ''HW:UnsupportedProtocol (version mismatch)''"
| "HardwareError_display DeviceNotFound = ''HW:DeviceNotFound (class/id mismatch)''"

fun FsError_display :: "FsError \<Rightarrow> string" where
  "FsError_display BlockRead = ''FS:BlockRead (device read_block failed)''"
| "FsError_display BlockWrite = ''FS:BlockWrite (device write_block failed)''"
| "FsError_display (BadMagic expected found) =
     ''FS:BadMagic expected=0x'' @ hex_pad 4 (unat expected)
     @ '' found=0x'' @ hex_pad 4 (unat found)"
| "FsError_display MbrInvalid = ''FS:MbrInvalid (missing 0x55 0xAA boot signature)''"
| "FsError_display GptOnly = ''FS:GptOnly (protective MBR; GPT parser not yet implemented)''"
| "FsError_display (UnknownPartition t) = ''FS:UnknownPartition type=0x'' @ hex_pad 2 (unat t)"
| "FsError_display VfsEntryMissing = ''FS:VfsEntryMissing (lookup/open_vnode failed)''"
| "FsError_display (FsElf inner) = ''FS:Elf('' @ ElfError_debug inner @ '')''"
| "FsError_display OutOfInodes = ''FS:OutOfInodes (bitmap full)''"
| "FsError_display OutOfBlocks = ''FS:OutOfBlocks (bitmap full)''"
| "FsError_display CorruptedDirectory = ''FS:CorruptedDirectory (rec_len=0 / overflow)''"
| "FsError_display NoSpace = ''FS:NoSpace (directory or block full)''"

fun TaskError_display :: "TaskError \<Rightarrow> string" where
  "TaskError_display StackAllocation =
     ''TASK:StackAllocation (64 KiB heap reservation failed)''"
| "TaskError_display EntryMissing = ''TASK:EntryMissing (null or unresolved fn())''"
| "TaskError_display PrivilegeMismatch =
     ''TASK:PrivilegeMismatch (ring selector vs entry point incompatible)''"
| "TaskError_display TaskCreationFailure = ''TASK:TaskCreationFailure (generic spawn failure)''"

fun SystemError_display :: "SystemError \<Rightarrow> string" where
  "SystemError_display (ElfParseFailed inner) =
     ''SYSTEM:ElfParseFailed('' @ ElfError_debug inner @ '')''"
| "SystemError_display SysTaskCreationFailure =
     ''SYSTEM:TaskCreationFailure (legacy; migrates to TaskError)''"

fun KernelError_display :: "KernelError \<Rightarrow> string" where
  "KernelError_display (KMemory e) = ''KERNEL:'' @ MemoryError_display e"
| "KernelError_display (KPrivilege e) = ''KERNEL:'' @ PrivilegeError_display e"
| "KernelError_display (KHardware e) = ''KERNEL:'' @ HardwareError_display e"
| "KernelError_display (KFs e) = ''KERNEL:'' @ FsError_display e"
| "KernelError_display (KTask e) = ''KERNEL:'' @ TaskError_display e"
| "KernelError_display (KSystem e) = ''KERNEL:'' @ SystemError_display e"

text \<open>What \<^verbatim>\<open>log_kernel_error\<close> hands to the serial console.\<close>

definition log_kernel_error :: "KernelError \<Rightarrow> string" where
  "log_kernel_error e = ''[KERNEL ERROR LOG] '' @ KernelError_display e @ [CHR 0x0A]"

section \<open>Errno lemmas\<close>

lemma errno_value_bounds: "1 \<le> errno_value e \<and> errno_value e \<le> 38"
  by (cases e) auto

lemma errno_value_inj: "errno_value e = errno_value f \<Longrightarrow> e = f"
  by (cases e; cases f) auto

lemma ElfError_to_errno_range: "ElfError_to_errno e \<in> range mt"
  by (cases e) simp_all

lemma MemoryError_to_errno_range: "MemoryError_to_errno e \<in> range mt"
  by (cases e) simp_all

lemma PrivilegeError_to_errno_range: "PrivilegeError_to_errno e \<in> range mt"
  by (cases e) simp_all

lemma HardwareError_to_errno_range: "HardwareError_to_errno e \<in> range mt"
  by (cases e) simp_all

lemma TaskError_to_errno_range: "TaskError_to_errno e \<in> range mt"
  by (cases e) simp_all

lemmas to_errno_range = ElfError_to_errno_range MemoryError_to_errno_range
  PrivilegeError_to_errno_range HardwareError_to_errno_range TaskError_to_errno_range

lemma FsError_to_errno_range: "FsError_to_errno e \<in> range mt"
  by (cases e) (auto simp: to_errno_range)

lemma SystemError_to_errno_range: "SystemError_to_errno e \<in> range mt"
  by (cases e) (auto simp: to_errno_range)

lemma KernelError_to_errno_range: "KernelError_to_errno e \<in> range mt"
  by (cases e) (simp_all add: to_errno_range FsError_to_errno_range SystemError_to_errno_range)

lemma KernelError_to_errno_bounds:
  "- 38 \<le> KernelError_to_errno e \<and> KernelError_to_errno e < 0"
proof -
  obtain en where "KernelError_to_errno e = mt en"
    using KernelError_to_errno_range [of e] by auto
  then show ?thesis
    using errno_value_bounds [of en] by (simp add: mt_def to_neg_i32_def)
qed

section \<open>Display lemmas\<close>

definition one_line :: "string \<Rightarrow> bool" where
  "one_line s \<longleftrightarrow> CHR 0x0A \<notin> set s"

lemma hex_digit_set: "hex_digit d \<in> set ''0123456789abcdef''"
  unfolding hex_digit_def by (rule nth_mem) simp

lemma hex_set: "set (hex n) \<subseteq> set ''0123456789abcdef''"
proof (induction n rule: hex.induct)
  case (1 n)
  show ?case
  proof (cases "n < 16")
    case True
    then have "set (hex n) = {hex_digit n}" by (simp add: hex.simps [of n])
    then show ?thesis using hex_digit_set [of n] by (simp del: list.set)
  next
    case False
    with 1 have "set (hex (n div 16)) \<subseteq> set ''0123456789abcdef''" by simp
    moreover from False have "set (hex n) = insert (hex_digit n) (set (hex (n div 16)))"
      by (subst hex.simps) simp
    ultimately show ?thesis using hex_digit_set [of n] by (simp del: list.set)
  qed
qed

lemma newline_notin_hex [simp]: "CHR 0x0A \<notin> set (hex n)"
  using hex_set [of n] by auto

lemma newline_notin_hex_pad [simp]: "CHR 0x0A \<notin> set (hex_pad w n)"
  by (auto simp: hex_pad_def)

lemma one_line_append: "one_line (xs @ ys) \<longleftrightarrow> one_line xs \<and> one_line ys"
  by (auto simp: one_line_def)

lemma ElfError_debug_one_line [simp]: "one_line (ElfError_debug e)"
  by (cases e) (simp_all add: one_line_def)

lemma MemoryError_display_one_line: "one_line (MemoryError_display e)"
  by (cases e) (simp_all add: one_line_def)

lemma PrivilegeError_display_one_line: "one_line (PrivilegeError_display e)"
  by (cases e) (simp_all add: one_line_def ring_text_def)

lemma HardwareError_display_one_line: "one_line (HardwareError_display e)"
  by (cases e) (simp_all add: one_line_def)

lemma TaskError_display_one_line: "one_line (TaskError_display e)"
  by (cases e) (simp_all add: one_line_def)

lemma SystemError_display_one_line: "one_line (SystemError_display e)"
  using ElfError_debug_one_line by (cases e) (simp_all add: one_line_def)

lemma FsError_display_one_line: "one_line (FsError_display e)"
  using ElfError_debug_one_line by (cases e) (simp_all add: one_line_def)

lemmas display_one_line = MemoryError_display_one_line PrivilegeError_display_one_line
  HardwareError_display_one_line TaskError_display_one_line SystemError_display_one_line
  FsError_display_one_line

end
