(* ===== verification/Frame_Allocator.thy ===== *)
theory Frame_Allocator
  imports Kernel_Base
begin

text \<open>
  The physical frame allocator of \<^verbatim>\<open>src/mm/memory.rs\<close>: the bitmap, the \<^verbatim>\<open>u16\<close> reference
  counts and the search hint, every method of \<^verbatim>\<open>BitmapFrameAllocator\<close> with its panics, and
  the zeroing facade \<^verbatim>\<open>SystemFrameAllocator\<close>. The invariant ties the two arrays and the hint
  together; the lemmas give each operation's effect on the map of reference counts, and
  the locale \<open>frame_pool\<close> is the contract the clients (page tables, DMA buffers) rely on.
\<close>

section \<open>State\<close>

definition FRAME_SIZE :: nat where
  "FRAME_SIZE = 4096"

record frame_allocator =
  bitmap :: "u8 list"
  ref_counts :: "u16 list"
  total_frames :: nat
  last_free_frame_hint :: nat

definition empty_allocator :: frame_allocator where
  "empty_allocator = \<lparr>bitmap = [], ref_counts = [], total_frames = 0, last_free_frame_hint = 0\<rparr>"

section \<open>Bit manipulation helpers\<close>

definition force_set_bit :: "nat \<Rightarrow> frame_allocator \<Rightarrow> frame_allocator run" where
  "force_set_bit frame a =
     (if total_frames a \<le> frame then Inr a
      else bindR (idx (bitmap a) (frame div 8)) (\<lambda>v.
           bindR (upd (bitmap a) (frame div 8) (v OR push_bit (frame mod 8) 1)) (\<lambda>bm.
           bindR (upd (ref_counts a) frame 1) (\<lambda>rc.
           Inr (a\<lparr>bitmap := bm, ref_counts := rc\<rparr>)))))"

definition force_free_bit :: "nat \<Rightarrow> frame_allocator \<Rightarrow> frame_allocator run" where
  "force_free_bit frame a =
     (if total_frames a \<le> frame then Inr a
      else bindR (idx (bitmap a) (frame div 8)) (\<lambda>v.
           bindR (upd (bitmap a) (frame div 8) (v AND NOT (push_bit (frame mod 8) 1))) (\<lambda>bm.
           bindR (upd (ref_counts a) frame 0) (\<lambda>rc.
           Inr (a\<lparr>bitmap := bm, ref_counts := rc\<rparr>)))))"

definition test_bit :: "nat \<Rightarrow> frame_allocator \<Rightarrow> bool run" where
  "test_bit frame a =
     (if total_frames a \<le> frame then Inr True
      else bindR (idx (bitmap a) (frame div 8)) (\<lambda>v.
           Inr (v AND push_bit (frame mod 8) 1 \<noteq> 0)))"

section \<open>Initialisation from the memory map\<close>

datatype memmap_type =
    MEMMAP_USABLE | MEMMAP_BOOTLOADER_RECLAIMABLE | MEMMAP_EXECUTABLE_AND_MODULES
  | MEMMAP_FRAMEBUFFER | MEMMAP_OTHER u64

record memmap_entry =
  mbase :: nat
  mlength :: nat
  mtype :: memmap_type

definition addressable :: "memmap_entry \<Rightarrow> bool" where
  "addressable e \<longleftrightarrow> mtype e \<in> {MEMMAP_USABLE, MEMMAP_BOOTLOADER_RECLAIMABLE,
                               MEMMAP_EXECUTABLE_AND_MODULES, MEMMAP_FRAMEBUFFER}"

definition max_addr_step :: "memmap_entry \<Rightarrow> nat \<Rightarrow> nat run" where
  "max_addr_step e m =
     (if addressable e
      then bindR (add64 (mbase e) (mlength e)) (\<lambda>top. Inr (if m < top then top else m))
      else Inr m)"

definition free_entry :: "memmap_entry \<Rightarrow> frame_allocator \<Rightarrow> frame_allocator run" where
  "free_entry e a =
     (if mtype e = MEMMAP_USABLE
      then bindR (add64 (mbase e) FRAME_SIZE) (\<lambda>s.
           bindR (sub64 s 1) (\<lambda>s.
           bindR (add64 (mbase e) (mlength e)) (\<lambda>t.
           foldR force_free_bit [s div FRAME_SIZE ..< t div FRAME_SIZE] a)))
      else Inr a)"

definition count_frames :: "nat \<Rightarrow> nat run" where
  "count_frames bytes =
     bindR (add64 bytes FRAME_SIZE) (\<lambda>n. bindR (sub64 n 1) (\<lambda>n. Inr (n div FRAME_SIZE)))"

text \<open>
  \<^verbatim>\<open>init\<close>. The two Limine responses are arguments. The metadata slices are built with
  \<^verbatim>\<open>from_raw_parts_mut\<close>, whose contract (a non-null pointer, aligned for the element type)
  is checked before they are used.
\<close>

definition init_allocator ::
    "memmap_entry list option \<Rightarrow> nat option \<Rightarrow> frame_allocator \<Rightarrow> frame_allocator run" where
  "init_allocator mmap_response hhdm_response a =
     bindR (expectR mmap_response) (\<lambda>entries.
     bindR (foldR max_addr_step entries 0) (\<lambda>max_addr.
     bindR (count_frames max_addr) (\<lambda>total.
     bindR (add64 total 7) (\<lambda>t7. let raw_bitmap_size = t7 div 8 in
     bindR (add64 raw_bitmap_size 7) (\<lambda>r7. let bitmap_size_aligned = align_down 8 r7 in
     bindR (mul64 total 2) (\<lambda>refcounts_size_in_bytes.
     bindR (add64 bitmap_size_aligned refcounts_size_in_bytes) (\<lambda>metadata_total_size.
     bindR (expectR (find (\<lambda>e. mtype e = MEMMAP_USABLE \<and> metadata_total_size \<le> mlength e) entries))
       (\<lambda>region. let metadata_phys_addr = mbase region in
     bindR (expectR hhdm_response) (\<lambda>hhdm_offset.
     bindR (add64 hhdm_offset metadata_phys_addr) (\<lambda>virt.
     bindR (assertR (virt \<noteq> 0 \<and> even (virt + bitmap_size_aligned)) UndefinedBehaviour) (\<lambda>_.
     let a1 = a\<lparr>bitmap := replicate raw_bitmap_size 0xFF, ref_counts := replicate total 1,
                total_frames := total\<rparr> in
     bindR (foldR free_entry entries a1) (\<lambda>a2.
     bindR (count_frames metadata_total_size) (\<lambda>n.
     bindR (add64 (metadata_phys_addr div FRAME_SIZE) n) (\<lambda>metadata_end_frame.
     bindR (foldR force_set_bit [metadata_phys_addr div FRAME_SIZE ..< metadata_end_frame] a2) (\<lambda>a3.
     force_set_bit 0 a3)))))))))))))))"

section \<open>Public operations\<close>

fun allocate_scan :: "nat list \<Rightarrow> frame_allocator \<Rightarrow> (nat option \<times> frame_allocator) run" where
  "allocate_scan [] a = Inr (None, a)"
| "allocate_scan (i # is) a =
     bindR (test_bit i a) (\<lambda>busy.
       if \<not> busy
       then bindR (force_set_bit i a) (\<lambda>a'.
            bindR (add64 i 1) (\<lambda>hint.
            bindR (mul64 i FRAME_SIZE) (\<lambda>addr.
            Inr (Some addr, a'\<lparr>last_free_frame_hint := hint\<rparr>))))
       else allocate_scan is a)"

definition allocate_frame :: "frame_allocator \<Rightarrow> (nat option \<times> frame_allocator) run" where
  "allocate_frame a =
     bindR (allocate_scan [last_free_frame_hint a ..< total_frames a] a) (\<lambda>(r, a1).
       case r of
         Some addr \<Rightarrow> Inr (Some addr, a1)
       | None \<Rightarrow> allocate_scan [0 ..< last_free_frame_hint a1] a1)"

definition deallocate_frame :: "nat \<Rightarrow> frame_allocator \<Rightarrow> frame_allocator run" where
  "deallocate_frame phys_addr a =
     (let frame = phys_addr div FRAME_SIZE in
      bindR (assertR (frame < total_frames a) AssertionFailed) (\<lambda>_.
      bindR (idx (ref_counts a) frame) (\<lambda>rc.
      if 0 < rc
      then bindR (upd (ref_counts a) frame (rc - 1)) (\<lambda>rcs.
           if rc - 1 = 0
           then bindR (idx (bitmap a) (frame div 8)) (\<lambda>v.
                bindR (upd (bitmap a) (frame div 8) (v AND NOT (push_bit (frame mod 8) 1))) (\<lambda>bm.
                Inr (a\<lparr>ref_counts := rcs, bitmap := bm,
                       last_free_frame_hint :=
                         (if frame < last_free_frame_hint a then frame
                          else last_free_frame_hint a)\<rparr>)))
           else Inr (a\<lparr>ref_counts := rcs\<rparr>))
      else Inl ExplicitPanic)))"

definition reference_frame :: "nat \<Rightarrow> frame_allocator \<Rightarrow> frame_allocator run" where
  "reference_frame phys_addr a =
     (let frame = phys_addr div FRAME_SIZE in
      bindR (assertR (frame < total_frames a) AssertionFailed) (\<lambda>_.
      bindR (idx (ref_counts a) frame) (\<lambda>rc.
      bindR (assertR (0 < rc) AssertionFailed) (\<lambda>_.
      bindR (add16 (unat rc) 1) (\<lambda>n.
      bindR (upd (ref_counts a) frame (of_nat n)) (\<lambda>rcs.
      Inr (a\<lparr>ref_counts := rcs\<rparr>)))))))"

definition get_ref_count :: "nat \<Rightarrow> frame_allocator \<Rightarrow> u16 run" where
  "get_ref_count phys_addr a =
     (let frame = phys_addr div FRAME_SIZE in
      if total_frames a \<le> frame then Inr 1 else idx (ref_counts a) frame)"

fun free_run :: "frame_allocator \<Rightarrow> nat \<Rightarrow> nat list \<Rightarrow> nat \<Rightarrow> nat run" where
  "free_run a i [] n = Inr n"
| "free_run a i (j # js) n =
     bindR (add64 i j) (\<lambda>k. bindR (test_bit k a) (\<lambda>busy.
       if busy then Inr n else free_run a i js (n + 1)))"

function contiguous_scan ::
    "nat \<Rightarrow> nat \<Rightarrow> frame_allocator \<Rightarrow> (nat option \<times> frame_allocator) run" where
  "contiguous_scan count i a =
     (if i \<le> total_frames a - count
      then bindR (free_run a i [0 ..< count] 0) (\<lambda>n.
        if n = count
        then bindR (add64 i count) (\<lambda>e.
             bindR (foldR force_set_bit [i ..< e] a) (\<lambda>a'.
             bindR (mul64 i FRAME_SIZE) (\<lambda>addr. Inr (Some addr, a'))))
        else bindR (add64 i (n + 1)) (\<lambda>i'. contiguous_scan count i' a))
      else Inr (None, a))"
  by pat_completeness auto
termination
  by (relation "measure (\<lambda>(count, i, a). Suc (total_frames a) - i)") (auto simp: run_simps)

declare contiguous_scan.simps [simp del]

definition allocate_contiguous_frames ::
    "nat \<Rightarrow> frame_allocator \<Rightarrow> (nat option \<times> frame_allocator) run" where
  "allocate_contiguous_frames count a =
     (if count = 0 then Inr (None, a) else contiguous_scan count 0 a)"


section \<open>Invariant and abstraction\<close>

definition busy_bit :: "frame_allocator \<Rightarrow> nat \<Rightarrow> bool" where
  "busy_bit a f \<longleftrightarrow> bit (bitmap a ! (f div 8)) (f mod 8)"

definition shape_ok :: "frame_allocator \<Rightarrow> bool" where
  "shape_ok a \<longleftrightarrow> length (bitmap a) = (total_frames a + 7) div 8
     \<and> length (ref_counts a) = total_frames a
     \<and> (\<forall>f < total_frames a. busy_bit a f \<longleftrightarrow> ref_counts a ! f \<noteq> 0)"

text \<open>
  The allocator invariant: the arrays cover the frames, a frame's bit is set exactly when
  its reference count is positive, no free frame lies below the hint, and frame addresses
  fit 64 bits.
\<close>

definition allocator_inv :: "frame_allocator \<Rightarrow> bool" where
  "allocator_inv a \<longleftrightarrow> shape_ok a \<and> total_frames a \<le> 2 ^ 52
     \<and> last_free_frame_hint a \<le> total_frames a
     \<and> (\<forall>f < last_free_frame_hint a. ref_counts a ! f \<noteq> 0)"

text \<open>The abstract state: the reference count of every managed frame.\<close>

definition refs :: "frame_allocator \<Rightarrow> nat \<Rightarrow> nat option" where
  "refs a f = (if f < total_frames a then Some (unat (ref_counts a ! f)) else None)"

lemma refs_hint [simp]: "refs (a\<lparr>last_free_frame_hint := h\<rparr>) = refs a"
  by (simp add: refs_def fun_eq_iff)

lemma bit_set_u8:
  "m < 8 \<Longrightarrow> bit ((v :: u8) OR 2 ^ n) m \<longleftrightarrow> bit v m \<or> m = n"
  by (auto simp: bit_simps)

lemma bit_clear_u8:
  "m < 8 \<Longrightarrow> bit ((v :: u8) AND NOT (2 ^ n)) m \<longleftrightarrow> bit v m \<and> m \<noteq> n"
  by (auto simp: bit_simps)

lemma bit_test_u8:
  "n < 8 \<Longrightarrow> (v :: u8) AND 2 ^ n \<noteq> 0 \<longleftrightarrow> bit v n"
  by (simp add: and_exp_eq_0_iff_not_bit)

lemma shape_ok_bounds:
  assumes "shape_ok a" and "f < total_frames a"
  shows "f div 8 < length (bitmap a)" and "f < length (ref_counts a)"
  using assms by (auto simp: shape_ok_def)

lemma div_mod8_eq: "f div 8 = g div 8 \<Longrightarrow> f mod 8 = g mod 8 \<Longrightarrow> f = (g :: nat)"
  by (metis div_mult_mod_eq)

lemma busy_bit_set:
  assumes "f div 8 < length (bitmap a)"
  shows "busy_bit (a\<lparr>bitmap := (bitmap a)[f div 8 := bitmap a ! (f div 8) OR 2 ^ (f mod 8)]\<rparr>) g \<longleftrightarrow> g = f \<or> busy_bit a g"
  using assms div_mod8_eq [of g f]
  by (cases "g div 8 = f div 8") (auto simp: busy_bit_def nth_list_update bit_set_u8)

lemma busy_bit_clear:
  assumes "f div 8 < length (bitmap a)"
  shows "busy_bit (a\<lparr>bitmap := (bitmap a)[f div 8 := bitmap a ! (f div 8) AND NOT (2 ^ (f mod 8))]\<rparr>) g \<longleftrightarrow> g \<noteq> f \<and> busy_bit a g"
  using assms div_mod8_eq [of g f]
  by (cases "g div 8 = f div 8") (auto simp: busy_bit_def nth_list_update bit_clear_u8)

lemma busy_bit_more [simp]:
  "busy_bit (a\<lparr>last_free_frame_hint := h\<rparr>) g = busy_bit a g"
  "busy_bit (a\<lparr>ref_counts := rcs\<rparr>) g = busy_bit a g"
  "busy_bit (a\<lparr>ref_counts := rcs, bitmap := bm\<rparr>) g = busy_bit (a\<lparr>bitmap := bm\<rparr>) g"
  by (simp_all add: busy_bit_def)

lemma test_bit_eq:
  assumes "shape_ok a"
  shows "test_bit f a = Inr (f < total_frames a \<longrightarrow> ref_counts a ! f \<noteq> 0)"
  using assms shape_ok_bounds [OF assms]
  by (auto simp: test_bit_def bit_test_u8 shape_ok_def busy_bit_def)

text \<open>The two forced updates, on the frames the allocator manages.\<close>

definition put_ref :: "nat \<Rightarrow> u16 \<Rightarrow> frame_allocator \<Rightarrow> frame_allocator \<Rightarrow> bool" where
  "put_ref f c a a' \<longleftrightarrow> shape_ok a' \<and> total_frames a' = total_frames a
     \<and> last_free_frame_hint a' = last_free_frame_hint a
     \<and> ref_counts a' = (ref_counts a)[f := c]"

lemma force_set_bit_ok:
  assumes "shape_ok a" and "f < total_frames a"
  shows "\<exists>a'. force_set_bit f a = Inr a' \<and> put_ref f 1 a a'"
proof -
  note b = shape_ok_bounds [OF assms]
  show ?thesis
    using assms b
    by (auto simp: force_set_bit_def put_ref_def shape_ok_def busy_bit_set nth_list_update)
qed

lemma force_free_bit_ok:
  assumes "shape_ok a" and "f < total_frames a"
  shows "\<exists>a'. force_free_bit f a = Inr a' \<and> put_ref f 0 a a'"
proof -
  note b = shape_ok_bounds [OF assms]
  show ?thesis
    using assms b
    by (auto simp: force_free_bit_def put_ref_def shape_ok_def busy_bit_clear nth_list_update)
qed

lemma force_bit_out_of_range:
  "total_frames a \<le> f \<Longrightarrow> force_set_bit f a = Inr a"
  "total_frames a \<le> f \<Longrightarrow> force_free_bit f a = Inr a"
  by (simp_all add: force_set_bit_def force_free_bit_def)

lemma put_ref_refs:
  assumes "shape_ok a" and "put_ref f c a a'" and "f < total_frames a"
  shows "refs a' = (refs a)(f \<mapsto> unat c)"
  using assms by (auto simp: put_ref_def refs_def fun_eq_iff nth_list_update shape_ok_def)


section \<open>Single-frame operations\<close>

lemma find_append:
  "find P (xs @ ys) = (case find P xs of None \<Rightarrow> find P ys | Some x \<Rightarrow> Some x)"
  by (induction xs) auto

lemma frame_addr_fits: "f < 2 ^ 52 \<Longrightarrow> mul64 f FRAME_SIZE = Inr (f * FRAME_SIZE)"
  by (simp add: mul_w_def FRAME_SIZE_def)

lemma allocate_scan_None:
  assumes "shape_ok a" and "\<forall>i \<in> set is. i < total_frames a"
    and "find (\<lambda>i. ref_counts a ! i = 0) is = None"
  shows "allocate_scan is a = Inr (None, a)"
  using assms by (induction "is") (auto simp: test_bit_eq split: if_splits)

lemma allocate_scan_Some:
  assumes "shape_ok a" and "\<forall>i \<in> set is. i < total_frames a" and "total_frames a \<le> 2 ^ 52"
    and "find (\<lambda>i. ref_counts a ! i = 0) is = Some f"
  shows "\<exists>a'. allocate_scan is a = Inr (Some (f * FRAME_SIZE), a'\<lparr>last_free_frame_hint := f + 1\<rparr>)
              \<and> put_ref f 1 a a'"
  using assms
proof (induction "is")
  case Nil
  then show ?case by simp
next
  case (Cons i "is")
  show ?case
  proof (cases "ref_counts a ! i = 0")
    case True
    with Cons.prems have f: "f = i" "i < total_frames a" by auto
    with Cons.prems obtain a' where "force_set_bit i a = Inr a'" "put_ref i 1 a a'"
      using force_set_bit_ok by blast
    moreover have "mul64 i FRAME_SIZE = Inr (i * FRAME_SIZE)" "add64 i 1 = Inr (i + 1)"
      using f Cons.prems(3) by (auto intro!: frame_addr_fits simp: add_w_def)
    ultimately show ?thesis using True f Cons.prems(1) by (auto simp: test_bit_eq)
  next
    case False
    with Cons show ?thesis by (auto simp: test_bit_eq)
  qed
qed

definition lowest_free :: "frame_allocator \<Rightarrow> nat option" where
  "lowest_free a = find (\<lambda>f. refs a f = Some 0) [0 ..< total_frames a]"

lemma find_refs_range:
  "b \<le> total_frames a \<Longrightarrow>
   find (\<lambda>f. refs a f = Some 0) [k ..< b] = find (\<lambda>f. ref_counts a ! f = 0) [k ..< b]"
  by (intro find_cong) (auto simp: refs_def unat_eq_0)

lemma lowest_free_from_hint:
  assumes "allocator_inv a"
  shows "lowest_free a = find (\<lambda>f. ref_counts a ! f = 0) [last_free_frame_hint a ..< total_frames a]"
proof -
  from assms have h: "last_free_frame_hint a \<le> total_frames a"
    and b: "\<forall>f < last_free_frame_hint a. ref_counts a ! f \<noteq> 0"
    by (auto simp: allocator_inv_def)
  have "[0 ..< total_frames a]
        = [0 ..< last_free_frame_hint a] @ [last_free_frame_hint a ..< total_frames a]"
    using h upt_add_eq_append [of 0 "last_free_frame_hint a"
        "total_frames a - last_free_frame_hint a"] by simp
  moreover have "find (\<lambda>f. ref_counts a ! f = 0) [0 ..< last_free_frame_hint a] = None"
    using b by (auto simp: find_None_iff)
  ultimately show ?thesis
    using h by (simp add: lowest_free_def find_refs_range find_append)
qed

lemma find_upt_SomeD:
  "find P [k ..< n] = Some i \<Longrightarrow> k \<le> i \<and> i < n \<and> P i \<and> (\<forall>j. k \<le> j \<and> j < i \<longrightarrow> \<not> P j)"
proof (induction n)
  case (Suc n)
  show ?case
  proof (cases "find P [k ..< n]")
    case None
    then have "\<forall>j. k \<le> j \<and> j < n \<longrightarrow> \<not> P j" by (auto simp: find_None_iff)
    with None Suc.prems show ?thesis by (auto simp: find_append split: if_splits)
  next
    case (Some j)
    with Suc.prems have "j = i" by (auto simp: find_append split: if_splits)
    with Suc.IH Some show ?thesis by auto
  qed
qed simp

lemma allocate_frame_None:
  assumes "allocator_inv a" and "lowest_free a = None"
  shows "allocate_frame a = Inr (None, a)"
proof -
  from assms have s: "shape_ok a" and h: "last_free_frame_hint a \<le> total_frames a"
    by (auto simp: allocator_inv_def)
  have "allocate_scan [last_free_frame_hint a ..< total_frames a] a = Inr (None, a)"
    using assms s by (intro allocate_scan_None) (auto simp: lowest_free_from_hint)
  moreover have "allocate_scan [0 ..< last_free_frame_hint a] a = Inr (None, a)"
    using assms s h by (intro allocate_scan_None) (auto simp: find_None_iff allocator_inv_def)
  ultimately show ?thesis by (simp add: allocate_frame_def)
qed

lemma allocate_frame_Some:
  assumes inv: "allocator_inv a" and f: "lowest_free a = Some f"
  shows "\<exists>a'. allocate_frame a = Inr (Some (f * FRAME_SIZE), a') \<and> allocator_inv a'
              \<and> refs a' = (refs a)(f \<mapsto> 1)"
proof -
  from inv have s: "shape_ok a" and t: "total_frames a \<le> 2 ^ 52"
    by (auto simp: allocator_inv_def)
  note fh = f [unfolded lowest_free_from_hint [OF inv]]
  have fi: "last_free_frame_hint a \<le> f" "f < total_frames a"
    and low: "\<forall>j. last_free_frame_hint a \<le> j \<and> j < f \<longrightarrow> ref_counts a ! j \<noteq> 0"
    using find_upt_SomeD [OF fh] by auto
  obtain a1 where a1: "allocate_scan [last_free_frame_hint a ..< total_frames a] a
      = Inr (Some (f * FRAME_SIZE), a1\<lparr>last_free_frame_hint := f + 1\<rparr>)" "put_ref f 1 a a1"
    using allocate_scan_Some [OF s _ t fh] by auto
  let ?a' = "a1\<lparr>last_free_frame_hint := f + 1\<rparr>"
  have "allocator_inv ?a'"
    using inv a1(2) fi low s
    by (auto simp: allocator_inv_def put_ref_def shape_ok_def nth_list_update less_Suc_eq)
      (meson linorder_not_le)
  moreover have "refs ?a' = (refs a)(f \<mapsto> 1)"
    using put_ref_refs [OF s a1(2) fi(2)] by simp
  ultimately show ?thesis using a1(1) by (simp add: allocate_frame_def)
qed

lemma deallocate_frame_ok:
  assumes inv: "allocator_inv a" and r: "refs a (p div FRAME_SIZE) = Some (Suc n)"
  shows "\<exists>a'. deallocate_frame p a = Inr a' \<and> allocator_inv a'
              \<and> refs a' = (refs a)(p div FRAME_SIZE \<mapsto> n)"
proof -
  let ?f = "p div FRAME_SIZE"
  let ?rc = "ref_counts a ! ?f"
  from r have f: "?f < total_frames a" and c: "unat ?rc = Suc n"
    by (auto simp: refs_def split: if_splits)
  from inv have s: "shape_ok a" by (simp add: allocator_inv_def)
  note b = shape_ok_bounds [OF s f]
  have pos: "0 < ?rc" using c by (simp add: word_gt_0 unat_eq_0 [symmetric])
  have dec: "unat (?rc - 1) = n" using c pos
    by (simp add: unat_minus_one word_gt_0)
  show ?thesis
  proof (cases n)
    case 0
    then have z: "?rc - 1 = 0" using dec by (simp add: unat_eq_0)
    show ?thesis using s inv f b pos z 0
      by (auto simp: deallocate_frame_def Let_def allocator_inv_def shape_ok_def refs_def
          fun_eq_iff nth_list_update busy_bit_clear)
  next
    case (Suc m)
    then have z: "?rc - 1 \<noteq> 0" using dec by (metis nat.distinct(1) unat_0)
    show ?thesis using s inv f b pos z dec
      by (auto simp: deallocate_frame_def Let_def allocator_inv_def shape_ok_def refs_def
          fun_eq_iff nth_list_update)
  qed
qed

lemma deallocate_frame_panics:
  assumes "allocator_inv a"
  shows "refs a (p div FRAME_SIZE) = None \<Longrightarrow> deallocate_frame p a = Inl AssertionFailed"
    and "refs a (p div FRAME_SIZE) = Some 0 \<Longrightarrow> deallocate_frame p a = Inl ExplicitPanic"
  using assms
  by (auto simp: deallocate_frame_def Let_def refs_def allocator_inv_def shape_ok_def unat_eq_0
      split: if_splits)

lemma reference_frame_ok:
  assumes inv: "allocator_inv a" and r: "refs a (p div FRAME_SIZE) = Some (Suc n)"
    and m: "Suc n < 2 ^ 16 - 1"
  shows "\<exists>a'. reference_frame p a = Inr a' \<and> allocator_inv a'
              \<and> refs a' = (refs a)(p div FRAME_SIZE \<mapsto> Suc (Suc n))"
proof -
  let ?f = "p div FRAME_SIZE"
  let ?rc = "ref_counts a ! ?f"
  from r have f: "?f < total_frames a" and c: "unat ?rc = Suc n"
    by (auto simp: refs_def split: if_splits)
  from inv have s: "shape_ok a" by (simp add: allocator_inv_def)
  note b = shape_ok_bounds [OF s f]
  have pos: "0 < ?rc" using c by (simp add: word_gt_0 unat_eq_0 [symmetric])
  have u: "unat (of_nat (Suc (Suc n)) :: u16) = Suc (Suc n)"
    using m by (simp only: unsigned_of_nat) (simp add: take_bit_nat_eq_self_iff)
  then have nz: "(of_nat (Suc (Suc n)) :: u16) \<noteq> 0" by (metis nat.distinct(1) unat_0)
  have "add16 (unat ?rc) 1 = Inr (Suc (Suc n))" using c m by (simp add: add_w_def)
  then show ?thesis using s inv f b pos u nz
    by (auto simp: reference_frame_def Let_def allocator_inv_def shape_ok_def refs_def
        fun_eq_iff nth_list_update simp del: of_nat_Suc)
qed

lemma reference_frame_panics:
  assumes "allocator_inv a"
  shows "refs a (p div FRAME_SIZE) \<in> {None, Some 0} \<Longrightarrow> reference_frame p a = Inl AssertionFailed"
    and "refs a (p div FRAME_SIZE) = Some (2 ^ 16 - 1) \<Longrightarrow>
         reference_frame p a = Inl ArithmeticOverflow"
proof -
  assume "refs a (p div FRAME_SIZE) \<in> {None, Some 0}"
  then show "reference_frame p a = Inl AssertionFailed"
    using assms by (auto simp: reference_frame_def Let_def refs_def allocator_inv_def shape_ok_def
        unat_eq_0 split: if_splits)
next
  assume r: "refs a (p div FRAME_SIZE) = Some (2 ^ 16 - 1)"
  then have u: "unat (ref_counts a ! (p div FRAME_SIZE)) = 2 ^ 16 - 1"
    and f: "p div FRAME_SIZE < total_frames a"
    by (auto simp: refs_def split: if_splits)
  from u have "ref_counts a ! (p div FRAME_SIZE) \<noteq> 0" by auto
  then have "0 < ref_counts a ! (p div FRAME_SIZE)" by (simp add: word_neq_0_conv)
  with u f show "reference_frame p a = Inl ArithmeticOverflow"
    using assms by (auto simp: reference_frame_def Let_def allocator_inv_def shape_ok_def add_w_def)
qed

lemma get_ref_count_eq:
  assumes "allocator_inv a"
  shows "get_ref_count p a
         = Inr (case refs a (p div FRAME_SIZE) of None \<Rightarrow> 1 | Some n \<Rightarrow> of_nat n)"
  using assms by (auto simp: get_ref_count_def Let_def refs_def allocator_inv_def shape_ok_def)


section \<open>Runs of frames\<close>

text \<open>All frames of a set get the same reference count; nothing else changes.\<close>

definition refs_put :: "nat set \<Rightarrow> nat \<Rightarrow> frame_allocator \<Rightarrow> frame_allocator \<Rightarrow> bool" where
  "refs_put F c a a' \<longleftrightarrow> shape_ok a' \<and> total_frames a' = total_frames a
     \<and> last_free_frame_hint a' = last_free_frame_hint a
     \<and> refs a' = (\<lambda>f. if f \<in> F \<and> f < total_frames a then Some c else refs a f)"

lemma allocator_inv_refs:
  "allocator_inv a \<longleftrightarrow> shape_ok a \<and> total_frames a \<le> 2 ^ 52
     \<and> last_free_frame_hint a \<le> total_frames a
     \<and> (\<forall>f < last_free_frame_hint a. refs a f \<noteq> Some 0)"
  by (auto simp: allocator_inv_def refs_def unat_eq_0)

lemma put_ref_refs_put:
  "shape_ok a \<Longrightarrow> f < total_frames a \<Longrightarrow> put_ref f c a a' \<Longrightarrow> refs_put {f} (unat c) a a'"
  using put_ref_refs [of a f c a'] by (auto simp: refs_put_def put_ref_def fun_eq_iff)

lemma refs_put_trans:
  "refs_put F c a b \<Longrightarrow> refs_put G c b d \<Longrightarrow> refs_put (F \<union> G) c a d"
  by (auto simp: refs_put_def fun_eq_iff)

lemma refs_put_empty: "shape_ok a \<Longrightarrow> refs_put {} c a a"
  by (simp add: refs_put_def)

lemma refs_put_shape: "refs_put F c a b \<Longrightarrow> shape_ok b"
  by (simp add: refs_put_def)

lemma force_set_bit_put: "shape_ok a \<Longrightarrow> \<exists>a'. force_set_bit f a = Inr a' \<and> refs_put {f} 1 a a'"
proof (cases "f < total_frames a")
  case True
  assume "shape_ok a"
  with True show ?thesis
    using force_set_bit_ok [of a f] put_ref_refs_put [of a f 1] by fastforce
next
  case False
  assume "shape_ok a"
  with False show ?thesis by (auto simp: force_bit_out_of_range refs_put_def)
qed

lemma force_free_bit_put: "shape_ok a \<Longrightarrow> \<exists>a'. force_free_bit f a = Inr a' \<and> refs_put {f} 0 a a'"
proof (cases "f < total_frames a")
  case True
  assume "shape_ok a"
  with True show ?thesis
    using force_free_bit_ok [of a f] put_ref_refs_put [of a f 0] by fastforce
next
  case False
  assume "shape_ok a"
  with False show ?thesis by (auto simp: force_bit_out_of_range refs_put_def)
qed

lemma foldR_refs_put:
  assumes "\<And>x b. x \<in> set xs \<Longrightarrow> shape_ok b \<Longrightarrow> \<exists>b'. g x b = Inr b' \<and> refs_put (F x) c b b'"
    and "shape_ok a"
  shows "\<exists>a'. foldR g xs a = Inr a' \<and> refs_put (\<Union>x \<in> set xs. F x) c a a'"
  using assms
proof (induction xs arbitrary: a)
  case Nil
  then show ?case by (simp add: refs_put_empty)
next
  case (Cons x xs)
  obtain b where b: "g x a = Inr b" "refs_put (F x) c a b"
    using Cons.prems by (meson list.set_intros(1))
  moreover obtain d where "foldR g xs b = Inr d" "refs_put (\<Union>x \<in> set xs. F x) c b d"
    using Cons.IH [OF Cons.prems(1) refs_put_shape [OF b(2)]] by auto
  ultimately show ?case using refs_put_trans by fastforce
qed

lemma foldR_force_set:
  "shape_ok a \<Longrightarrow> \<exists>a'. foldR force_set_bit xs a = Inr a' \<and> refs_put (set xs) 1 a a'"
  using foldR_refs_put [where g = force_set_bit and F = "\<lambda>f. {f}" and c = 1] force_set_bit_put
  by simp

lemma foldR_force_free:
  "shape_ok a \<Longrightarrow> \<exists>a'. foldR force_free_bit xs a = Inr a' \<and> refs_put (set xs) 0 a a'"
  using foldR_refs_put [where g = force_free_bit and F = "\<lambda>f. {f}" and c = 0] force_free_bit_put
  by simp

text \<open>The reference definition of the contiguous allocation: the first run of free frames.\<close>

definition run_free :: "frame_allocator \<Rightarrow> nat \<Rightarrow> nat \<Rightarrow> bool" where
  "run_free a count i \<longleftrightarrow> list_all (\<lambda>f. refs a f = Some 0) [i ..< i + count]"

definition first_fit :: "frame_allocator \<Rightarrow> nat \<Rightarrow> nat option" where
  "first_fit a count = find (run_free a count) [0 ..< total_frames a]"

lemma run_free_iff: "run_free a count i \<longleftrightarrow> (\<forall>f. i \<le> f \<and> f < i + count \<longrightarrow> refs a f = Some 0)"
  by (auto simp: run_free_def list_all_iff)

lemma run_free_0: "run_free a 0 i"
  by (simp add: run_free_def)

lemma run_free_bound: "run_free a count i \<Longrightarrow> 0 < count \<Longrightarrow> i + count \<le> total_frames a"
proof -
  assume "run_free a count i" "0 < count"
  then have "refs a (i + count - 1) = Some 0" by (auto simp: run_free_iff)
  then show ?thesis by (auto simp: refs_def split: if_splits)
qed

lemma test_bit_refs:
  "shape_ok a \<Longrightarrow> test_bit f a = Inr (refs a f \<noteq> Some 0)"
  by (auto simp: test_bit_eq refs_def unat_eq_0)

lemma free_run_spec:
  assumes "shape_ok a" and "total_frames a \<le> 2 ^ 52" and "i \<le> total_frames a"
    and "j \<le> count" and "run_free a j i"
  shows "\<exists>n. free_run a i [j ..< count] j = Inr n \<and> n \<le> count \<and> run_free a n i
             \<and> (n < count \<longrightarrow> refs a (i + n) \<noteq> Some 0)"
  using assms
proof (induction "count - j" arbitrary: j)
  case 0
  then show ?case by auto
next
  case (Suc d)
  then have l: "[j ..< count] = j # [Suc j ..< count]" by (simp add: upt_conv_Cons)
  have "i + j \<le> total_frames a"
    using Suc.prems(3,5) run_free_bound [of a j i] by (cases "j = 0") auto
  then have add: "add64 i j = Inr (i + j)" using Suc.prems(2) by (simp add: add_w_def)
  show ?case
  proof (cases "refs a (i + j) = Some 0")
    case True
    then have "run_free a (Suc j) i"
      using Suc.prems(5) by (auto simp: run_free_iff less_Suc_eq)
    with Suc.hyps(1) [of "Suc j"] Suc.hyps(2) Suc.prems True show ?thesis
      by (simp add: l add test_bit_refs)
  next
    case False
    with Suc.prems show ?thesis by (simp add: l add test_bit_refs)
  qed
qed

lemma contiguous_scan_spec:
  assumes "shape_ok a" and "total_frames a \<le> 2 ^ 52" and "0 < count"
    and "\<forall>k < i. \<not> run_free a count k"
  shows "(\<forall>k. \<not> run_free a count k) \<and> contiguous_scan count i a = Inr (None, a)
    \<or> (\<exists>k a'. run_free a count k \<and> (\<forall>k' < k. \<not> run_free a count k')
         \<and> contiguous_scan count i a = Inr (Some (k * FRAME_SIZE), a')
         \<and> refs_put {k ..< k + count} 1 a a')"
  using assms
proof (induction count i a rule: contiguous_scan.induct)
  case (1 count i a)
  have bound: "run_free a count k \<Longrightarrow> k + count \<le> total_frames a" for k
    using run_free_bound [OF _ 1(4)] .
  show ?case
  proof (cases "i \<le> total_frames a - count")
    case False
    have "\<not> run_free a count k" for k using bound [of k] 1(5) False by (cases "k < i") auto
    with False show ?thesis by (simp add: contiguous_scan.simps [of count i a])
  next
    case True
    then have it: "i \<le> total_frames a" by simp
    obtain n where n: "free_run a i [0 ..< count] 0 = Inr n" "n \<le> count" "run_free a n i"
        "n < count \<longrightarrow> refs a (i + n) \<noteq> Some 0"
      using free_run_spec [OF 1(2,3) it, of 0 count] run_free_0 by auto
    show ?thesis
    proof (cases "n = count")
      case full: True
      then have fit: "i + count \<le> total_frames a" using n(3) bound [of i] by simp
      then have "i < 2 ^ 52" using 1(3,4) by simp
      then have e: "add64 i count = Inr (i + count)" "mul64 i FRAME_SIZE = Inr (i * FRAME_SIZE)"
        using fit 1(3) by (auto simp: add_w_def frame_addr_fits)
      obtain a' where "foldR force_set_bit [i ..< i + count] a = Inr a'"
          "refs_put {i ..< i + count} 1 a a'"
        using foldR_force_set [OF 1(2), of "[i ..< i + count]"] by auto
      with True full n e 1(5) show ?thesis
        by (auto simp: contiguous_scan.simps [of count i a])
    next
      case False
      then have lt: "n < count" and nf: "refs a (i + n) \<noteq> Some 0" using n by auto
      have "i + n \<le> total_frames a"
        using n(3) it run_free_bound [of a n i] by (cases "n = 0") auto
      then have e: "add64 i (n + 1) = Inr (i + (n + 1))" using 1(3) by (simp add: add_w_def)
      have "\<not> run_free a count k" if "k < i + (n + 1)" for k
      proof (cases "k < i")
        case True
        then show ?thesis using 1(5) by simp
      next
        case False
        then show ?thesis
          using nf that lt by (auto simp: run_free_iff intro!: exI [of _ "i + n"])
      qed
      then show ?thesis
        using 1(1) [OF True n(1) False e 1(2,3,4)] True n(1) e False
        by (simp add: contiguous_scan.simps [of count i a])
    qed
  qed
qed

lemma find_upt_SomeI:
  "k \<le> i \<Longrightarrow> i < n \<Longrightarrow> P i \<Longrightarrow> \<forall>j. k \<le> j \<and> j < i \<longrightarrow> \<not> P j \<Longrightarrow> find P [k ..< n] = Some i"
proof -
  assume a: "k \<le> i" "i < n" "P i" "\<forall>j. k \<le> j \<and> j < i \<longrightarrow> \<not> P j"
  then obtain j where j: "find P [k ..< n] = Some j"
    by (metis atLeastLessThan_iff find_None_iff option.exhaust set_upt)
  then show ?thesis using find_upt_SomeD [OF j] a by (metis linorder_neqE_nat)
qed

lemma allocate_contiguous_frames_spec:
  assumes inv: "allocator_inv a" and "0 < count"
  shows "\<exists>a'. allocate_contiguous_frames count a
              = Inr (map_option (\<lambda>k. k * FRAME_SIZE) (first_fit a count), a')
            \<and> allocator_inv a'
            \<and> refs a' = (case first_fit a count of
                None \<Rightarrow> refs a
              | Some k \<Rightarrow> (\<lambda>f. if f \<in> {k ..< k + count} then Some 1 else refs a f))"
proof -
  from inv have s: "shape_ok a" "total_frames a \<le> 2 ^ 52" by (auto simp: allocator_inv_def)
  consider (none) "\<forall>k. \<not> run_free a count k" "contiguous_scan count 0 a = Inr (None, a)"
    | (some) k a' where "run_free a count k" "\<forall>k' < k. \<not> run_free a count k'"
        "contiguous_scan count 0 a = Inr (Some (k * FRAME_SIZE), a')"
        "refs_put {k ..< k + count} 1 a a'"
    using contiguous_scan_spec [OF s \<open>0 < count\<close>, of 0] by auto
  then show ?thesis
  proof cases
    case none
    then have "first_fit a count = None" by (simp add: first_fit_def find_None_iff)
    with none inv \<open>0 < count\<close> show ?thesis by (simp add: allocate_contiguous_frames_def)
  next
    case some
    have kb: "k + count \<le> total_frames a" using run_free_bound [OF some(1) \<open>0 < count\<close>] .
    then have "first_fit a count = Some k"
      unfolding first_fit_def using some \<open>0 < count\<close> by (intro find_upt_SomeI) auto
    moreover have "refs a' = (\<lambda>f. if f \<in> {k ..< k + count} then Some 1 else refs a f)"
      using some(4) kb by (auto simp: refs_put_def fun_eq_iff)
    moreover have "allocator_inv a'"
      using inv some(4) by (auto simp: allocator_inv_refs refs_put_def)
    ultimately show ?thesis using some(3) \<open>0 < count\<close>
      by (simp add: allocate_contiguous_frames_def)
  qed
qed


section \<open>Initialisation\<close>

definition phys_top :: "memmap_entry list \<Rightarrow> nat" where
  "phys_top entries =
     fold (\<lambda>e m. if addressable e then max m (mbase e + mlength e) else m) entries 0"

definition frames_for :: "nat \<Rightarrow> nat" where
  "frames_for bytes = (bytes + 4095) div 4096"

definition metadata_size :: "nat \<Rightarrow> nat" where
  "metadata_size t = align_down 8 ((t + 7) div 8 + 7) + t * 2"

definition metadata_region :: "memmap_entry list \<Rightarrow> memmap_entry option" where
  "metadata_region entries =
     find (\<lambda>e. mtype e = MEMMAP_USABLE
               \<and> metadata_size (frames_for (phys_top entries)) \<le> mlength e) entries"

definition metadata_frames :: "memmap_entry list \<Rightarrow> memmap_entry \<Rightarrow> nat set" where
  "metadata_frames entries r =
     {mbase r div 4096 ..< mbase r div 4096
        + frames_for (metadata_size (frames_for (phys_top entries)))}"

text \<open>A frame that lies completely inside a usable entry.\<close>

definition usable_frame :: "memmap_entry list \<Rightarrow> nat \<Rightarrow> bool" where
  "usable_frame entries f \<longleftrightarrow>
     (\<exists>e \<in> set entries. mtype e = MEMMAP_USABLE \<and> mbase e \<le> f * 4096
        \<and> (f + 1) * 4096 \<le> mbase e + mlength e)"

lemma foldR_max_addr:
  assumes "\<forall>e \<in> set entries. addressable e \<longrightarrow> mbase e + mlength e < 2 ^ 64"
  shows "foldR max_addr_step entries m
         = Inr (fold (\<lambda>e m. if addressable e then max m (mbase e + mlength e) else m) entries m)"
  using assms
  by (induction entries arbitrary: m) (auto simp: max_addr_step_def add_w_def max_def)

lemma fold_top_bound:
  "m < b \<Longrightarrow> \<forall>e \<in> set entries. addressable e \<longrightarrow> mbase e + mlength e < (b :: nat) \<Longrightarrow>
   fold (\<lambda>e m. if addressable e then max m (mbase e + mlength e) else m) entries m < b"
  by (induction entries arbitrary: m) auto

lemma fold_top_ge:
  "m \<le> fold (\<lambda>e m. if addressable e then max m (mbase e + mlength e) else m) entries m
   \<and> (\<forall>e \<in> set entries. addressable e \<longrightarrow>
        mbase e + mlength e \<le> fold (\<lambda>e m. if addressable e then max m (mbase e + mlength e) else m) entries m)"
proof (induction entries arbitrary: m)
  case (Cons x xs)
  show ?case
    using Cons [of "if addressable x then max m (mbase x + mlength x) else m"]
    by (auto split: if_splits)
qed simp

lemma count_frames_eq:
  "bytes + 4096 < 2 ^ 64 \<Longrightarrow> count_frames bytes = Inr (frames_for bytes)"
  by (simp add: count_frames_def frames_for_def add_w_def sub_w_def FRAME_SIZE_def)

lemma frame_range_iff:
  "f \<in> {(b + 4095) div 4096 ..< t div 4096} \<longleftrightarrow> b \<le> f * 4096 \<and> (f + 1) * 4096 \<le> (t :: nat)"
proof -
  have "(b + 4095) div 4096 \<le> f \<longleftrightarrow> b \<le> f * 4096"
    using div_less_iff_less_mult [of 4096 "b + 4095" "Suc f"] by auto
  moreover have "f < t div 4096 \<longleftrightarrow> (f + 1) * 4096 \<le> t"
    using less_eq_div_iff_mult_less_eq [of 4096 "Suc f" t] by auto
  ultimately show ?thesis by simp
qed

lemma free_entry_put:
  assumes "shape_ok a" and "addressable e \<longrightarrow> mbase e + mlength e + 4096 < 2 ^ 64"
  shows "\<exists>a'. free_entry e a = Inr a'
    \<and> refs_put {f. mtype e = MEMMAP_USABLE \<and> mbase e \<le> f * 4096
                    \<and> (f + 1) * 4096 \<le> mbase e + mlength e} 0 a a'"
proof (cases "mtype e = MEMMAP_USABLE")
  case True
  then have "addressable e" by (simp add: addressable_def)
  then have "free_entry e a = foldR force_free_bit
      [(mbase e + 4095) div 4096 ..< (mbase e + mlength e) div 4096] a"
    using assms(2) True by (simp add: free_entry_def add_w_def sub_w_def FRAME_SIZE_def add.commute)
  moreover have "set [(mbase e + 4095) div 4096 ..< (mbase e + mlength e) div 4096]
      = {f. mtype e = MEMMAP_USABLE \<and> mbase e \<le> f * 4096 \<and> (f + 1) * 4096 \<le> mbase e + mlength e}"
    using frame_range_iff True by auto
  ultimately show ?thesis
    using foldR_force_free [OF assms(1)] by metis
next
  case False
  then show ?thesis using assms(1) by (simp add: free_entry_def refs_put_empty)
qed

lemma fresh_shape_ok:
  "shape_ok (a\<lparr>bitmap := replicate ((t + 7) div 8) 0xFF, ref_counts := replicate t 1,
              total_frames := t\<rparr>)"
proof -
  have "(0xFF :: u8) = mask 8" by (simp add: mask_eq_exp_minus_1)
  then have "bit (0xFF :: u8) n" if "n < 8" for n using that by (simp only: bit_mask_iff) simp
  then show ?thesis by (auto simp: shape_ok_def busy_bit_def)
qed

text \<open>What the boot-time map has to satisfy for the initialisation to go through.\<close>

definition memmap_ok :: "memmap_entry list \<Rightarrow> nat \<Rightarrow> bool" where
  "memmap_ok entries hhdm \<longleftrightarrow>
     list_all (\<lambda>e. addressable e \<longrightarrow> mbase e + mlength e + 4096 < 2 ^ 64) entries
     \<and> (case metadata_region entries of
          None \<Rightarrow> False
        | Some r \<Rightarrow> 0 < hhdm + mbase r \<and> hhdm + mbase r < 2 ^ 64 \<and> even (hhdm + mbase r))"

lemma frames_for_less: "n + 4096 < 2 ^ 64 \<Longrightarrow> frames_for n \<le> 2 ^ 52"
  by (simp add: frames_for_def)

lemma metadata_size_bound: "t \<le> 2 ^ 52 \<Longrightarrow> metadata_size t \<le> 2 ^ 52 * 3"
  using align_down_le [of 8 "(t + 7) div 8 + 7"] by (simp add: metadata_size_def)

lemma init_allocator_metadata:
  assumes ok: "memmap_ok entries hhdm" and r: "metadata_region entries = Some r"
  defines "t \<equiv> frames_for (phys_top entries)"
  shows "init_allocator (Some entries) (Some hhdm) a =
    bindR (foldR free_entry entries (a\<lparr>bitmap := replicate ((t + 7) div 8) 0xFF,
             ref_counts := replicate t 1, total_frames := t\<rparr>)) (\<lambda>a2.
    bindR (foldR force_set_bit [mbase r div 4096 ..< mbase r div 4096
             + frames_for (metadata_size t)] a2) (\<lambda>a3. force_set_bit 0 a3))"
proof -
  from ok have e: "\<forall>e \<in> set entries. addressable e \<longrightarrow> mbase e + mlength e + 4096 < 2 ^ 64"
    and v: "hhdm + mbase r \<noteq> 0" "hhdm + mbase r < 2 ^ 64" "even (hhdm + mbase r)"
    using r by (auto simp: memmap_ok_def list_all_iff)
  have top: "phys_top entries + 4096 < 2 ^ 64"
    using fold_top_bound [of 0 "2 ^ 64 - 4096" entries] e by (force simp: phys_top_def)
  have mx: "foldR max_addr_step entries 0 = Inr (phys_top entries)"
    using foldR_max_addr [of entries 0] e by (force simp: phys_top_def)
  have tb: "t \<le> 2 ^ 52" using frames_for_less [OF top] by (simp add: t_def)
  note mb = metadata_size_bound [OF tb]
  have al: "even (align_down 8 x)" for x :: nat by (simp add: align_down_def minus_mod_eq_mult_div)
  have "frames_for (metadata_size t) \<le> 2 ^ 60" using mb by (simp add: frames_for_def)
  moreover have "mbase r div 4096 \<le> 2 ^ 52" using v(2) by simp
  ultimately have me: "add64 (mbase r div 4096) (frames_for (metadata_size t))
      = Inr (mbase r div 4096 + frames_for (metadata_size t))"
    by (simp add: add_w_def)
  have cm: "count_frames (metadata_size t) = Inr (frames_for (metadata_size t))"
    using mb by (intro count_frames_eq) simp
  have ct: "count_frames (phys_top entries) = Inr t"
    using count_frames_eq [OF top] by (simp add: t_def)
  have c1: "add64 t 7 = Inr (t + 7)" "add64 ((t + 7) div 8) 7 = Inr ((t + 7) div 8 + 7)"
    "mul64 t 2 = Inr (t * 2)"
    using tb by (simp_all add: add_w_def mul_w_def)
  have c2: "add64 (align_down 8 ((t + 7) div 8 + 7)) (t * 2) = Inr (metadata_size t)"
    using mb by (simp add: add_w_def metadata_size_def)
  have c3: "add64 hhdm (mbase r) = Inr (hhdm + mbase r)" using v by (simp add: add_w_def)
  show ?thesis
    using r v al unfolding init_allocator_def
    by (simp add: mx ct c1 c2 c3 cm me metadata_region_def t_def [symmetric] FRAME_SIZE_def Let_def)
qed

lemma init_allocator_ok:
  assumes ok: "memmap_ok entries hhdm" and r: "metadata_region entries = Some r"
    and h: "last_free_frame_hint a = 0"
  shows "\<exists>a'. init_allocator (Some entries) (Some hhdm) a = Inr a' \<and> allocator_inv a'
    \<and> total_frames a' = frames_for (phys_top entries)
    \<and> (\<forall>f < total_frames a'. refs a' f
         = Some (if usable_frame entries f \<and> f \<notin> metadata_frames entries r \<and> f \<noteq> 0 then 0 else 1))"
proof -
  let ?t = "frames_for (phys_top entries)"
  let ?a1 = "a\<lparr>bitmap := replicate ((?t + 7) div 8) 0xFF, ref_counts := replicate ?t 1,
              total_frames := ?t\<rparr>"
  from ok have e: "\<forall>e \<in> set entries. addressable e \<longrightarrow> mbase e + mlength e + 4096 < 2 ^ 64"
    by (auto simp: memmap_ok_def list_all_iff)
  have tb: "?t \<le> 2 ^ 52"
    using fold_top_bound [of 0 "2 ^ 64 - 4096" entries] e
    by (intro frames_for_less) (force simp: phys_top_def)
  let ?U = "\<lambda>e. {f. mtype e = MEMMAP_USABLE \<and> mbase e \<le> f * 4096
                    \<and> (f + 1) * 4096 \<le> mbase e + mlength e}"
  have step: "\<exists>b'. free_entry x b = Inr b' \<and> refs_put (?U x) 0 b b'"
    if "x \<in> set entries" "shape_ok b" for x b
    using free_entry_put [OF that(2)] e that(1) by blast
  obtain a2 where a2: "foldR free_entry entries ?a1 = Inr a2"
      "refs_put (\<Union>e \<in> set entries. ?U e) 0 ?a1 a2"
    using foldR_refs_put [where g = free_entry and F = ?U and c = 0 and xs = entries,
        OF step fresh_shape_ok] by blast
  have u: "(\<Union>e \<in> set entries. ?U e) = {f. usable_frame entries f}"
    by (auto simp: usable_frame_def)
  obtain a3 where a3: "foldR force_set_bit [mbase r div 4096 ..< mbase r div 4096
             + frames_for (metadata_size ?t)] a2 = Inr a3"
      "refs_put (metadata_frames entries r) 1 a2 a3"
    using foldR_force_set [OF refs_put_shape [OF a2(2)]] by (metis metadata_frames_def set_upt)
  obtain a4 where a4: "force_set_bit 0 a3 = Inr a4" "refs_put {0} 1 a3 a4"
    using force_set_bit_put [OF refs_put_shape [OF a3(2)]] by blast
  have "init_allocator (Some entries) (Some hhdm) a = Inr a4"
    using init_allocator_metadata [OF ok r] a2(1) a3(1) a4(1) by simp
  moreover have "allocator_inv a4" "total_frames a4 = ?t"
    using a2(2) a3(2) a4(2) h tb by (auto simp: allocator_inv_refs refs_put_def)
  moreover have "refs ?a1 f = (if f < ?t then Some 1 else None)" for f
    by (auto simp: refs_def)
  then have "\<forall>f < ?t. refs a4 f
         = Some (if usable_frame entries f \<and> f \<notin> metadata_frames entries r \<and> f \<noteq> 0 then 0 else 1)"
    using a2(2) a3(2) a4(2) unfolding refs_put_def u by simp
  ultimately show ?thesis by auto
qed


section \<open>The contract for clients\<close>

locale frame_pool =
  fixes inv :: "'s \<Rightarrow> bool"
    and counts :: "'s \<Rightarrow> nat \<Rightarrow> nat option"
    and acquire :: "'s \<Rightarrow> (nat option \<times> 's) run"
    and release :: "nat \<Rightarrow> 's \<Rightarrow> 's run"
  assumes acquire_total: "inv s \<Longrightarrow> \<exists>r s'. acquire s = Inr (r, s') \<and> inv s'"
    and acquire_Some: "inv s \<Longrightarrow> acquire s = Inr (Some p, s') \<Longrightarrow>
      FRAME_SIZE dvd p \<and> counts s (p div FRAME_SIZE) = Some 0
      \<and> counts s' = (counts s)(p div FRAME_SIZE \<mapsto> 1)"
    and acquire_None: "inv s \<Longrightarrow> acquire s = Inr (None, s') \<Longrightarrow>
      s' = s \<and> (\<forall>f. counts s f \<noteq> Some 0)"
    and release_ok: "inv s \<Longrightarrow> counts s (p div FRAME_SIZE) = Some (Suc n) \<Longrightarrow>
      \<exists>s'. release p s = Inr s' \<and> inv s' \<and> counts s' = (counts s)(p div FRAME_SIZE \<mapsto> n)"
    and counts_bound: "inv s \<Longrightarrow> counts s f \<noteq> None \<Longrightarrow> f < 2 ^ 52"
begin

lemma acquire_inv: "inv s \<Longrightarrow> acquire s = Inr (r, s') \<Longrightarrow> inv s'"
  using acquire_total by fastforce

text \<open>A frame that is taken and given back leaves the reference counts as they were.\<close>

lemma acquire_release:
  assumes "inv s" and "acquire s = Inr (Some p, s')"
  shows "\<exists>s''. release p s' = Inr s'' \<and> inv s'' \<and> counts s'' = counts s"
proof -
  note a = acquire_Some [OF assms]
  then have "counts s' (p div FRAME_SIZE) = Some (Suc 0)" by simp
  then obtain s'' where "release p s' = Inr s''" "inv s''"
      "counts s'' = (counts s')(p div FRAME_SIZE \<mapsto> 0)"
    using release_ok acquire_inv [OF assms] by blast
  moreover have "(counts s')(p div FRAME_SIZE \<mapsto> 0) = counts s"
    using a by (auto simp: fun_eq_iff)
  ultimately show ?thesis by metis
qed

text \<open>A frame with an owner is never handed out again.\<close>

lemma acquire_fresh:
  "inv s \<Longrightarrow> acquire s = Inr (Some p, s') \<Longrightarrow> counts s f = Some (Suc n) \<Longrightarrow> p div FRAME_SIZE \<noteq> f"
  using acquire_Some by fastforce

lemma acquire_aligned:
  "inv s \<Longrightarrow> acquire s = Inr (Some p, s') \<Longrightarrow> p mod FRAME_SIZE = 0 \<and> p < 2 ^ 64"
proof -
  assume a: "inv s" "acquire s = Inr (Some p, s')"
  note l = acquire_Some [OF a]
  then have "p div FRAME_SIZE < 2 ^ 52" using counts_bound [OF a(1)] by simp
  then have "p < 2 ^ 52 * FRAME_SIZE"
    using div_less_iff_less_mult [of FRAME_SIZE p] by (simp add: FRAME_SIZE_def)
  with l show ?thesis by (simp add: FRAME_SIZE_def dvd_eq_mod_eq_0)
qed

end

lemma lowest_free_refs:
  "lowest_free a = None \<Longrightarrow> refs a f \<noteq> Some 0"
  "lowest_free a = Some f \<Longrightarrow> refs a f = Some 0"
  by (auto simp: lowest_free_def find_None_iff refs_def split: if_splits dest!: find_upt_SomeD)

lemma refs_bound: "allocator_inv a \<Longrightarrow> refs a f \<noteq> None \<Longrightarrow> f < 2 ^ 52"
  by (auto simp: allocator_inv_def refs_def split: if_splits)

interpretation single: frame_pool allocator_inv refs allocate_frame deallocate_frame
proof unfold_locales
  fix a :: frame_allocator and p n f :: nat and s' r
  show "allocator_inv a \<Longrightarrow> \<exists>r s'. allocate_frame a = Inr (r, s') \<and> allocator_inv s'"
    using allocate_frame_None [of a] allocate_frame_Some [of a] by (cases "lowest_free a") auto
  show "allocator_inv a \<Longrightarrow> allocate_frame a = Inr (Some p, s') \<Longrightarrow>
      FRAME_SIZE dvd p \<and> refs a (p div FRAME_SIZE) = Some 0
      \<and> refs s' = (refs a)(p div FRAME_SIZE \<mapsto> 1)"
    using allocate_frame_None [of a] allocate_frame_Some [of a] lowest_free_refs(2) [of a]
    by (cases "lowest_free a") (auto simp: FRAME_SIZE_def)
  show "allocator_inv a \<Longrightarrow> allocate_frame a = Inr (None, s') \<Longrightarrow>
      s' = a \<and> (\<forall>f. refs a f \<noteq> Some 0)"
    using allocate_frame_None [of a] allocate_frame_Some [of a] lowest_free_refs(1) [of a]
    by (cases "lowest_free a") auto
qed (fact deallocate_frame_ok refs_bound)+

lemma first_fit_1: "first_fit a 1 = lowest_free a"
  by (simp add: first_fit_def lowest_free_def run_free_def cong: find_cong)

lemma contiguous_1:
  assumes "allocator_inv a"
  shows "\<exists>a'. allocate_contiguous_frames 1 a
              = Inr (map_option (\<lambda>k. k * FRAME_SIZE) (lowest_free a), a')
            \<and> allocator_inv a'
            \<and> refs a' = (case lowest_free a of None \<Rightarrow> refs a | Some k \<Rightarrow> (refs a)(k \<mapsto> 1))"
  using allocate_contiguous_frames_spec [OF assms, of 1]
  by (auto simp: first_fit_1 [simplified] fun_eq_iff split: option.splits)

lemma allocate_contiguous_None:
  assumes "allocator_inv a" and "first_fit a count = None" and "0 < count"
  shows "allocate_contiguous_frames count a = Inr (None, a)"
proof -
  from assms(1) have s: "shape_ok a" "total_frames a \<le> 2 ^ 52" by (auto simp: allocator_inv_def)
  have n: "\<not> run_free a count k" for k
    using assms(2,3) run_free_bound [of a count k] by (auto simp: first_fit_def find_None_iff)
  with contiguous_scan_spec [OF s assms(3), of 0] assms(3)
  show ?thesis by (simp add: allocate_contiguous_frames_def)
qed

interpretation dma: frame_pool allocator_inv refs "allocate_contiguous_frames 1" deallocate_frame
proof unfold_locales
  fix a :: frame_allocator and p n f :: nat and s' r
  assume inv: "allocator_inv a"
  note c = contiguous_1 [OF inv]
  show "\<exists>r s'. allocate_contiguous_frames 1 a = Inr (r, s') \<and> allocator_inv s'" using c by auto
  show "allocate_contiguous_frames 1 a = Inr (Some p, s') \<Longrightarrow>
      FRAME_SIZE dvd p \<and> refs a (p div FRAME_SIZE) = Some 0
      \<and> refs s' = (refs a)(p div FRAME_SIZE \<mapsto> 1)"
    using c lowest_free_refs(2) [of a] by (cases "lowest_free a") (auto simp: FRAME_SIZE_def)
  show "allocate_contiguous_frames 1 a = Inr (None, s') \<Longrightarrow>
      s' = a \<and> (\<forall>f. refs a f \<noteq> Some 0)"
    using c lowest_free_refs(1) [of a] allocate_contiguous_None [OF inv, of 1] first_fit_1 [of a]
    by (cases "lowest_free a") auto
qed (fact deallocate_frame_ok refs_bound)+

section \<open>Sequences of operations\<close>

inductive allocator_step :: "frame_allocator \<Rightarrow> frame_allocator \<Rightarrow> bool" where
  allocate: "allocate_frame a = Inr (r, a') \<Longrightarrow> allocator_step a a'"
| deallocate: "deallocate_frame p a = Inr a' \<Longrightarrow> allocator_step a a'"
| reference: "reference_frame p a = Inr a' \<Longrightarrow> allocator_step a a'"
| contiguous: "allocate_contiguous_frames count a = Inr (r, a') \<Longrightarrow> allocator_step a a'"

inductive allocator_reachable :: "frame_allocator \<Rightarrow> bool" where
  boot: "memmap_ok entries hhdm \<Longrightarrow>
    init_allocator (Some entries) (Some hhdm) empty_allocator = Inr a \<Longrightarrow> allocator_reachable a"
| step: "allocator_reachable a \<Longrightarrow> allocator_step a a' \<Longrightarrow> allocator_reachable a'"

lemma refs_max: "refs a f = Some n \<Longrightarrow> n \<le> 2 ^ 16 - 1"
  using unsigned_less [of "ref_counts a ! f", where ?'a = nat]
  by (auto simp: refs_def split: if_splits)

lemma allocator_step_inv:
  assumes "allocator_step a a'" and inv: "allocator_inv a"
  shows "allocator_inv a'"
  using assms(1)
proof cases
  case (allocate r)
  then show ?thesis using single.acquire_inv [OF inv] by blast
next
  case (deallocate p)
  show ?thesis
  proof (cases "refs a (p div FRAME_SIZE)")
    case None
    then show ?thesis using deallocate deallocate_frame_panics [OF inv] by simp
  next
    case (Some n)
    then show ?thesis
      using deallocate deallocate_frame_panics [OF inv] deallocate_frame_ok [OF inv]
      by (cases n) fastforce+
  qed
next
  case (reference p)
  note bad = reference_frame_panics [OF inv, of p]
  show ?thesis
  proof (cases "refs a (p div FRAME_SIZE)")
    case None
    then show ?thesis using reference bad by simp
  next
    case (Some n)
    then consider "n = 0" | "n = 2 ^ 16 - 1" | m where "n = Suc m" "Suc m < 2 ^ 16 - 1"
      using refs_max [OF Some] by (cases n) force+
    then show ?thesis
      using reference bad Some reference_frame_ok [OF inv] by cases fastforce+
  qed
next
  case (contiguous count r)
  then show ?thesis
    using allocate_contiguous_frames_spec [OF inv, of count] inv
    by (cases "count = 0") (auto simp: allocate_contiguous_frames_def)
qed

lemma allocator_reachable_inv: "allocator_reachable a \<Longrightarrow> allocator_inv a"
proof (induction rule: allocator_reachable.induct)
  case (boot entries hhdm a)
  then obtain r where r: "metadata_region entries = Some r"
    by (auto simp: memmap_ok_def split: option.splits)
  show ?case
    using init_allocator_ok [OF boot(1) r, of empty_allocator] boot(2)
    by (auto simp: empty_allocator_def)
next
  case (step a a')
  then show ?case using allocator_step_inv by blast
qed

section \<open>The zeroing facade\<close>

text \<open>
  Physical memory with its allocator. \<open>ram\<close> is indexed by physical address; the kernel
  reaches it through the direct map, at the physical address plus the HHDM offset.
\<close>

record phys_memory =
  falloc :: frame_allocator
  ram :: memory

definition system_allocate_frame ::
    "nat option \<Rightarrow> phys_memory \<Rightarrow> (nat option \<times> phys_memory) run" where
  "system_allocate_frame hhdm_response m =
     bindR (allocate_frame (falloc m)) (\<lambda>(r, a).
     case r of
       None \<Rightarrow> Inr (None, m\<lparr>falloc := a\<rparr>)
     | Some frame_address \<Rightarrow>
         bindR (expectR hhdm_response) (\<lambda>hhdm_offset.
         bindR (add64 frame_address hhdm_offset) (\<lambda>virt_addr.
         let m' = m\<lparr>falloc := a, ram := fill_ram (virt_addr - hhdm_offset) 4096 0 (ram m)\<rparr> in
         bindR (assertR (frame_address < 2 ^ 52) ExplicitPanic) (\<lambda>_.
         Inr (Some (align_down 4096 frame_address), m')))))"

lemma system_allocate_frame_ok:
  assumes inv: "allocator_inv (falloc m)" and f: "lowest_free (falloc m) = Some f"
    and fit: "hhdm + (f + 1) * FRAME_SIZE < 2 ^ 64" and p52: "f * FRAME_SIZE < 2 ^ 52"
  shows "\<exists>m'. system_allocate_frame (Some hhdm) m = Inr (Some (f * FRAME_SIZE), m')
     \<and> allocator_inv (falloc m') \<and> refs (falloc m') = (refs (falloc m))(f \<mapsto> 1)
     \<and> ram m' = fill_ram (f * FRAME_SIZE) FRAME_SIZE 0 (ram m)"
proof -
  obtain a' where "allocate_frame (falloc m) = Inr (Some (f * FRAME_SIZE), a')" "allocator_inv a'"
      "refs a' = (refs (falloc m))(f \<mapsto> 1)"
    using allocate_frame_Some [OF inv f] by blast
  moreover have "add64 (f * FRAME_SIZE) hhdm = Inr (f * FRAME_SIZE + hhdm)"
    using fit by (simp add: add_w_def)
  moreover have "align_down 4096 (f * FRAME_SIZE) = f * FRAME_SIZE"
    by (simp add: align_down_def FRAME_SIZE_def)
  ultimately show ?thesis
    using p52 by (simp add: system_allocate_frame_def FRAME_SIZE_def)
qed

section \<open>Properties\<close>

text \<open>
  C1: after boot from any memory map the bootloader may hand over, and after any sequence of
  allocations, releases, references and contiguous allocations that return, the bitmap
  and the reference counts agree, both cover exactly the managed frames, and no free frame
  lies below the search hint.
\<close>

theorem allocator_stays_consistent:
  assumes "allocator_reachable a"
  shows "allocator_inv a
    \<and> (\<forall>f. test_bit f a = Inr (case refs a f of None \<Rightarrow> True | Some n \<Rightarrow> 0 < n))"
  using allocator_reachable_inv [OF assms]
  by (auto simp: allocator_inv_def test_bit_eq refs_def unat_gt_0)

text \<open>
  C29: a single frame allocation returns the lowest free frame and sets its count to one; it
  returns nothing, and changes nothing, exactly when no frame is free. It never panics.
\<close>

theorem allocate_frame_lowest:
  assumes "allocator_inv a"
  shows "\<exists>a'. allocate_frame a = Inr (map_option (\<lambda>f. f * FRAME_SIZE) (lowest_free a), a')
    \<and> allocator_inv a'
    \<and> refs a' = (case lowest_free a of None \<Rightarrow> refs a | Some f \<Rightarrow> (refs a)(f \<mapsto> 1))"
  using allocate_frame_None [OF assms] allocate_frame_Some [OF assms] assms
  by (cases "lowest_free a") auto

text \<open>
  C25: the contiguous allocator, which skips past the blocking frame after a failed probe,
  finds the same run as the search that tries every start in turn.
\<close>

theorem contiguous_is_first_fit:
  assumes "allocator_inv a" and "0 < count"
  shows "\<exists>a'. allocate_contiguous_frames count a
              = Inr (map_option (\<lambda>k. k * FRAME_SIZE) (first_fit a count), a')
            \<and> allocator_inv a'
            \<and> refs a' = (case first_fit a count of
                None \<Rightarrow> refs a
              | Some k \<Rightarrow> (\<lambda>f. if f \<in> {k ..< k + count} then Some 1 else refs a f))"
  by (rule allocate_contiguous_frames_spec [OF assms])

text \<open>
  Releasing a frame lowers its count by one, and the frame is free again when the count
  reaches zero; releasing a free frame, or one outside the managed range, panics.
\<close>

theorem deallocate_frame_cases:
  assumes "allocator_inv a"
  shows "case refs a (p div FRAME_SIZE) of
      None \<Rightarrow> deallocate_frame p a = Inl AssertionFailed
    | Some 0 \<Rightarrow> deallocate_frame p a = Inl ExplicitPanic
    | Some (Suc n) \<Rightarrow> \<exists>a'. deallocate_frame p a = Inr a' \<and> allocator_inv a'
        \<and> refs a' = (refs a)(p div FRAME_SIZE \<mapsto> n)"
  using deallocate_frame_ok [OF assms] deallocate_frame_panics [OF assms]
  by (auto split: option.splits nat.splits)

text \<open>
  C26: initialisation frees exactly the frames that lie inside a usable memory map entry,
  except frame 0 and the frames that hold the allocator's own arrays.
\<close>

theorem init_frees_usable_frames:
  assumes "memmap_ok entries hhdm" and "metadata_region entries = Some r"
  shows "\<exists>a'. init_allocator (Some entries) (Some hhdm) empty_allocator = Inr a' \<and> allocator_inv a'
    \<and> total_frames a' = frames_for (phys_top entries)
    \<and> (\<forall>f < total_frames a'. refs a' f
         = Some (if usable_frame entries f \<and> f \<notin> metadata_frames entries r \<and> f \<noteq> 0 then 0 else 1))"
  by (rule init_allocator_ok [OF assms]) (simp add: empty_allocator_def)

section \<open>Witnesses\<close>

text \<open>A machine with four frames of memory, the first of which holds the allocator's arrays.\<close>

definition small_map :: "memmap_entry list" where
  "small_map = [\<lparr>mbase = 0x1000, mlength = 0x3000, mtype = MEMMAP_USABLE\<rparr>]"

lemma small_map_ok:
  "memmap_ok small_map 0" "metadata_region small_map = Some (hd small_map)"
  "frames_for (phys_top small_map) = 4"
  by (simp_all add: memmap_ok_def metadata_region_def small_map_def phys_top_def addressable_def
      frames_for_def metadata_size_def align_down_def)

theorem init_frees_usable_frames_witness:
  "memmap_ok small_map 0 \<and> (\<exists>a'. init_allocator (Some small_map) (Some 0) empty_allocator = Inr a'
     \<and> allocator_inv a' \<and> total_frames a' = 4)"
  using small_map_ok init_frees_usable_frames [OF small_map_ok(1,2)] by auto

theorem allocator_stays_consistent_witness:
  "\<exists>a r a'. allocator_reachable a \<and> allocate_frame a = Inr (r, a') \<and> allocator_reachable a'
     \<and> allocator_inv a' \<and> test_bit 0 a' = Inr True"
proof -
  obtain a where a: "init_allocator (Some small_map) (Some 0) empty_allocator = Inr a"
      "total_frames a = 4" "allocator_inv a" "refs a 0 = Some 1"
    using init_allocator_ok [OF small_map_ok(1,2), of empty_allocator] small_map_ok(3)
    by (auto simp: empty_allocator_def)
  have r: "allocator_reachable a" by (rule allocator_reachable.boot [OF small_map_ok(1) a(1)])
  obtain r a' where s: "allocate_frame a = Inr (r, a')" and p: "refs a' 0 = Some 1"
    using allocate_frame_None [OF a(3)] allocate_frame_Some [OF a(3)] a(4)
    by (cases "lowest_free a") fastforce+
  have r': "allocator_reachable a'"
    by (rule allocator_reachable.step [OF r allocator_step.allocate [OF s]])
  show ?thesis using r s r' p allocator_stays_consistent [OF r'] by fastforce
qed

definition two_frames :: frame_allocator where
  "two_frames = \<lparr>bitmap = [1], ref_counts = [1, 0], total_frames = 2, last_free_frame_hint = 0\<rparr>"

lemma two_frames_inv: "allocator_inv two_frames"
  by (simp add: allocator_inv_def shape_ok_def busy_bit_def two_frames_def less_2_cases_iff bit_simps)

lemma two_frames_values:
  "refs two_frames 0 = Some 1" "refs two_frames (Suc 0) = Some 0"
  "lowest_free two_frames = Some 1" "first_fit two_frames (Suc 0) = Some 1"
  by (simp_all add: lowest_free_def first_fit_def run_free_def refs_def two_frames_def upt_rec)

theorem allocate_frame_lowest_witness:
  "allocator_inv two_frames \<and> lowest_free two_frames = Some 1
   \<and> (\<exists>a'. allocate_frame two_frames = Inr (Some 4096, a') \<and> refs a' 1 = Some 1)"
  using allocate_frame_lowest [OF two_frames_inv] two_frames_inv
  by (auto simp: two_frames_values FRAME_SIZE_def)

theorem contiguous_is_first_fit_witness:
  "allocator_inv two_frames \<and> first_fit two_frames 1 = Some 1
   \<and> (\<exists>a'. allocate_contiguous_frames 1 two_frames = Inr (Some 4096, a') \<and> refs a' 1 = Some 1)"
  using contiguous_is_first_fit [OF two_frames_inv, of 1] two_frames_inv
  by (auto simp: two_frames_values FRAME_SIZE_def)

theorem deallocate_frame_cases_witness:
  "allocator_inv two_frames \<and> deallocate_frame 0x1000 two_frames = Inl ExplicitPanic
   \<and> (\<exists>a'. deallocate_frame 0 two_frames = Inr a' \<and> refs a' 0 = Some 0)"
  using deallocate_frame_cases [OF two_frames_inv, of "0x1000"]
    deallocate_frame_cases [OF two_frames_inv, of 0] two_frames_inv
  by (auto simp: two_frames_values FRAME_SIZE_def)

end
