(* ===== verification/Fd_Table.thy ===== *)
theory Fd_Table
  imports BTree_Map
begin

text \<open>
  The per-process descriptor table of \<^verbatim>\<open>src/fs/fd.rs\<close>. A file node is a value of the type
  parameter \<open>'v\<close> (the \<^verbatim>\<open>Arc<dyn VNode>\<close> of the code). The lemmas show that the three
  standard streams can never be detached, that numbers of descriptors are never reused
  and what insertion and closing do to every slot.
\<close>

datatype 'v FileDescriptor =
    Stdin | Stdout | Stderr
  | RegularFile (fd_vnode: 'v) (fd_offset: nat)

record 'v FdTable =
  descriptors :: "(nat, 'v FileDescriptor) btree"
  next_fd :: nat

definition FdTable_new :: "'v FdTable" where
  "FdTable_new =
     \<lparr>descriptors = bt_insert 2 Stderr (bt_insert 1 Stdout (bt_insert 0 Stdin [])), next_fd = 3\<rparr>"

text \<open>\<^verbatim>\<open>get_mut\<close> hands out a reference: reading through it, and writing through it.\<close>

definition fd_get :: "'v FdTable \<Rightarrow> nat \<Rightarrow> 'v FileDescriptor option" where
  "fd_get t fd = bt_get (descriptors t) fd"

definition fd_write_slot :: "nat \<Rightarrow> 'v FileDescriptor \<Rightarrow> 'v FdTable \<Rightarrow> 'v FdTable" where
  "fd_write_slot fd d t = t\<lparr>descriptors := bt_insert fd d (descriptors t)\<rparr>"

definition fd_insert :: "'v FileDescriptor \<Rightarrow> 'v FdTable \<Rightarrow> (nat \<times> 'v FdTable) run" where
  "fd_insert file t =
     (let fd = next_fd t in
      bindR (add64 fd 1) (\<lambda>n.
      Inr (fd, t\<lparr>descriptors := bt_insert fd file (descriptors t), next_fd := n\<rparr>)))"

definition fd_close :: "nat \<Rightarrow> 'v FdTable \<Rightarrow> bool \<times> 'v FdTable" where
  "fd_close fd t =
     (if fd < 3 then (False, t)
      else (bt_get (descriptors t) fd \<noteq> None, t\<lparr>descriptors := bt_remove fd (descriptors t)\<rparr>))"

definition fd_inv :: "'v FdTable \<Rightarrow> bool" where
  "fd_inv t \<longleftrightarrow> bt_ok (descriptors t) \<and> 3 \<le> next_fd t
     \<and> (\<forall>fd. fd_get t fd \<noteq> None \<longrightarrow> fd < next_fd t)
     \<and> fd_get t 0 = Some Stdin \<and> fd_get t 1 = Some Stdout \<and> fd_get t 2 = Some Stderr"

lemma fd_inv_new: "fd_inv FdTable_new"
  by (auto simp: fd_inv_def FdTable_new_def fd_get_def split: if_splits)

lemma fd_insert_ok:
  assumes "fd_inv t" and "next_fd t < 2 ^ 64 - 1"
  shows "\<exists>t'. fd_insert file t = Inr (next_fd t, t') \<and> fd_inv t' \<and> next_fd t' = Suc (next_fd t)
    \<and> fd_get t (next_fd t) = None \<and> fd_get t' = (fd_get t)(next_fd t \<mapsto> file)"
  using assms
  by (force simp: fd_insert_def Let_def add_w_def fd_inv_def fd_get_def fun_eq_iff bt_ok_insert)

lemma fd_insert_full: "next_fd t = 2 ^ 64 - 1 \<Longrightarrow> fd_insert file t = Inl ArithmeticOverflow"
  by (simp add: fd_insert_def Let_def add_w_def)

lemma fd_close_ok:
  assumes "fd_inv t"
  shows "fd_inv (snd (fd_close fd t)) \<and> next_fd (snd (fd_close fd t)) = next_fd t
    \<and> fst (fd_close fd t) = (3 \<le> fd \<and> fd_get t fd \<noteq> None)
    \<and> fd_get (snd (fd_close fd t)) = (if fd < 3 then fd_get t else (fd_get t)(fd := None))"
  using assms by (auto simp: fd_close_def fd_inv_def fd_get_def bt_ok_remove)

lemma fd_write_slot_ok:
  assumes "fd_inv t" and "fd_get t fd = Some (RegularFile v off)"
  shows "fd_inv (fd_write_slot fd (RegularFile v off') t)
    \<and> fd_get (fd_write_slot fd (RegularFile v off') t) = (fd_get t)(fd \<mapsto> RegularFile v off')"
  using assms by (cases "fd = 0") (auto simp: fd_write_slot_def fd_inv_def fd_get_def bt_ok_insert)

section \<open>Histories of a table\<close>

datatype 'v fd_op = FdInsert "'v FileDescriptor" | FdClose nat

fun fd_apply :: "'v fd_op \<Rightarrow> nat list \<times> 'v FdTable \<Rightarrow> (nat list \<times> 'v FdTable) run" where
  "fd_apply (FdInsert file) (issued, t) =
     bindR (fd_insert file t) (\<lambda>(fd, t'). Inr (issued @ [fd], t'))"
| "fd_apply (FdClose fd) (issued, t) = Inr (issued, snd (fd_close fd t))"

text \<open>The numbers issued over a history are pairwise distinct and never those of a stream.\<close>

lemma fd_history:
  assumes "foldR fd_apply ops (issued, t) = Inr (issued', t')" and "fd_inv t"
    and "distinct issued" and "\<forall>fd \<in> set issued. 3 \<le> fd \<and> fd < next_fd t"
  shows "fd_inv t' \<and> distinct issued' \<and> (\<forall>fd \<in> set issued'. 3 \<le> fd \<and> fd < next_fd t')"
  using assms
proof (induction ops arbitrary: issued t)
  case (Cons op ops)
  show ?case
  proof (cases op)
    case (FdInsert f)
    with Cons.prems(1) have n: "next_fd t < 2 ^ 64 - 1"
      by (auto simp: fd_insert_def Let_def add_w_def split: if_splits)
    from fd_insert_ok [OF Cons.prems(2) n, of f] obtain t1 where
      t1: "fd_insert f t = Inr (next_fd t, t1)" "fd_inv t1" "next_fd t1 = Suc (next_fd t)"
      by blast
    have "3 \<le> next_fd t" using Cons.prems(2) by (simp add: fd_inv_def)
    then show ?thesis
      using Cons.IH [of "issued @ [next_fd t]" t1] Cons.prems FdInsert t1 by force
  next
    case (FdClose fd)
    then show ?thesis
      using Cons.IH [of issued "snd (fd_close fd t)"] Cons.prems fd_close_ok [OF Cons.prems(2), of fd]
      by simp
  qed
qed simp

section \<open>Properties\<close>

text \<open>
  C37: over any history of opens and closes from a fresh table the descriptor numbers handed
  out are pairwise distinct, none of them is a standard stream, and the three standard
  streams stay open.
\<close>

theorem fd_numbers_never_reused:
  assumes "foldR fd_apply ops ([], FdTable_new) = Inr (issued, t)"
  shows "distinct issued \<and> (\<forall>fd \<in> set issued. 3 \<le> fd \<and> fd < next_fd t)
    \<and> fd_get t 0 = Some Stdin \<and> fd_get t 1 = Some Stdout \<and> fd_get t 2 = Some Stderr"
  using fd_history [OF assms fd_inv_new] by (simp add: fd_inv_def)

theorem fd_numbers_never_reused_witness:
  "\<exists>t :: unit FdTable. foldR fd_apply [FdInsert Stdin, FdClose 3, FdInsert Stdin] ([], FdTable_new) = Inr ([3, 4], t)
     \<and> distinct [3 :: nat, 4] \<and> fd_get t 1 = Some Stdout"
proof -
  obtain t :: "unit FdTable" where
    t: "foldR fd_apply [FdInsert Stdin, FdClose 3, FdInsert Stdin] ([], FdTable_new) = Inr ([3, 4], t)"
    by (simp add: fd_insert_def FdTable_new_def fd_close_def run_simps)
  show ?thesis using t fd_numbers_never_reused [OF t] by blast
qed

end
