(* ===== verification/Task.thy ===== *)
theory Task
  imports Fd_Table Kernel_Error
begin

text \<open>
  The task model of \<^verbatim>\<open>src/task/task.rs\<close>: the task record, \<^verbatim>\<open>Task::new\<close> with the stack
  frame it builds by hand, and the two assembly routines \<^verbatim>\<open>context_switch\<close> and
  \<^verbatim>\<open>user_mode_trampoline\<close> as steps of a small CPU state over byte-addressed memory. The
  lemmas show that the frame stays inside the task's own stack, that a switch and the
  switch back restore the saved registers, and that the first dispatch of a user task
  ends in Ring 3 at its entry point.
\<close>

section \<open>Data\<close>

datatype PrivilegeLevel = KernelMode | UserMode

record 'v task =
  task_id :: u64
  parent_id :: "u64 option"
  task_rsp :: nat
  pml4_frame :: nat
  stack_start :: nat
  stack_end :: nat
  privilege :: PrivilegeLevel
  heap_start :: nat
  program_break :: nat
  mmap_base :: nat
  fd_table :: "'v FdTable"

record TaskContext =
  ctx_rflags :: u64
  ctx_rbp :: u64
  ctx_rbx :: u64
  ctx_r12 :: u64
  ctx_r13 :: u64
  ctx_r14 :: u64
  ctx_r15 :: u64

definition STACK_SIZE :: nat where
  "STACK_SIZE = 65536"

text \<open>Values fixed at link and boot time: the two GDT selectors and the trampoline's address.\<close>

record task_env =
  user_data_selector :: u64
  user_code_selector :: u64
  user_mode_trampoline :: u64

section \<open>Task creation\<close>

definition write_down :: "u64 \<Rightarrow> nat \<times> memory \<Rightarrow> (nat \<times> memory) run" where
  "write_down v = (\<lambda>(rsp, m). bindR (sub64 rsp 8) (\<lambda>r. Inr (r, poke64 r v m)))"

definition write_context :: "nat \<Rightarrow> TaskContext \<Rightarrow> memory \<Rightarrow> memory" where
  "write_context p c m =
     poke64 (p + 48) (ctx_r15 c) (poke64 (p + 40) (ctx_r14 c) (poke64 (p + 32) (ctx_r13 c)
     (poke64 (p + 24) (ctx_r12 c) (poke64 (p + 16) (ctx_rbx c) (poke64 (p + 8) (ctx_rbp c)
     (poke64 p (ctx_rflags c) m))))))"

definition initial_frame :: "task_env \<Rightarrow> PrivilegeLevel \<Rightarrow> u64 \<Rightarrow> nat \<Rightarrow> u64 list" where
  "initial_frame env priv entry_point user_stack_top =
     (if priv = UserMode
      then [user_data_selector env OR 3, word_of_nat user_stack_top, 0x202,
            user_code_selector env OR 3, entry_point, user_mode_trampoline env]
      else [0xDEADC0DEDEADC0DE, entry_point])"

definition initial_context :: TaskContext where
  "initial_context = \<lparr>ctx_rflags = 0x202, ctx_rbp = 0, ctx_rbx = 0, ctx_r12 = 0,
                      ctx_r13 = 0, ctx_r14 = 0, ctx_r15 = 0\<rparr>"

text \<open>
  \<^verbatim>\<open>Task::new\<close>. The outcome of the stack reservation is an argument: the address the heap
  returned, or \<open>None\<close>. The state is the counter of \<^verbatim>\<open>TaskId::new\<close>, which wraps, and memory.
\<close>

definition Task_new ::
    "task_env \<Rightarrow> nat option \<Rightarrow> u64 \<Rightarrow> nat \<Rightarrow> PrivilegeLevel \<Rightarrow> nat \<Rightarrow> u64 option
     \<Rightarrow> (u64 \<times> memory, KernelError, 'v task) kop" where
  "Task_new env reserved entry_point pml4 priv user_stack_top parent = (\<lambda>(next_id, mem).
     let id = next_id; next_id' = next_id + 1 in
     case reserved of
       None \<Rightarrow> Inr (Inl (KTask StackAllocation), (next_id', mem))
     | Some start \<Rightarrow>
         let mem0 = fill_ram start STACK_SIZE 0 mem in
         bindR (add64 start STACK_SIZE) (\<lambda>stack_top.
         bindR (foldR write_down (initial_frame env priv entry_point user_stack_top)
                  (align_down 16 stack_top, mem0)) (\<lambda>(rsp, mem1).
         bindR (sub64 rsp 56) (\<lambda>rsp'.
         Inr (Inr \<lparr>task_id = id, parent_id = parent, task_rsp = rsp', pml4_frame = pml4,
                   stack_start = start, stack_end = stack_top, privilege = priv,
                   heap_start = 0x200000000, program_break = 0x200000000,
                   mmap_base = 0x400000000000, fd_table = FdTable_new\<rparr>,
              (next_id', write_context rsp' initial_context mem1))))))"

definition is_valid_rsp :: "'v task \<Rightarrow> nat \<Rightarrow> bool" where
  "is_valid_rsp t rsp \<longleftrightarrow> stack_start t \<le> rsp \<and> rsp < stack_end t"

section \<open>CPU state and the assembly routines\<close>

record cpu =
  rip :: u64
  cs :: u64
  rflags :: u64
  rsp :: nat
  ss :: u64
  rbp :: u64
  rbx :: u64
  r12 :: u64
  r13 :: u64
  r14 :: u64
  r15 :: u64

definition cpu_push :: "u64 \<Rightarrow> cpu \<times> memory \<Rightarrow> cpu \<times> memory" where
  "cpu_push v = (\<lambda>(c, m). let a = (rsp c + (2 ^ 64 - 8)) mod 2 ^ 64 in (c\<lparr>rsp := a\<rparr>, poke64 a v m))"

definition cpu_pop :: "cpu \<times> memory \<Rightarrow> u64 \<times> cpu \<times> memory" where
  "cpu_pop = (\<lambda>(c, m). (peek64 (rsp c) m, c\<lparr>rsp := (rsp c + 8) mod 2 ^ 64\<rparr>, m))"

text \<open>
  The saving half: six pushes, \<^verbatim>\<open>pushfq\<close> (whose image has RF and VM cleared), and the
  interrupt flag forced on in the saved image.
\<close>

definition save_context :: "cpu \<times> memory \<Rightarrow> cpu \<times> memory" where
  "save_context = (\<lambda>(c, m).
     cpu_push ((rflags c AND NOT 0x30000) OR 0x200)
       (cpu_push (rbp c) (cpu_push (rbx c) (cpu_push (r12 c) (cpu_push (r13 c)
       (cpu_push (r14 c) (cpu_push (r15 c) (c, m))))))))"

text \<open>The restoring half: \<^verbatim>\<open>popfq\<close>, six pops and \<^verbatim>\<open>ret\<close>.\<close>

definition restore_context :: "cpu \<times> memory \<Rightarrow> cpu \<times> memory" where
  "restore_context s0 =
     (case cpu_pop s0 of (f, c, m) \<Rightarrow>
      case cpu_pop (c\<lparr>rflags := f\<rparr>, m) of (v, c, m) \<Rightarrow>
      case cpu_pop (c\<lparr>rbp := v\<rparr>, m) of (v, c, m) \<Rightarrow>
      case cpu_pop (c\<lparr>rbx := v\<rparr>, m) of (v, c, m) \<Rightarrow>
      case cpu_pop (c\<lparr>r12 := v\<rparr>, m) of (v, c, m) \<Rightarrow>
      case cpu_pop (c\<lparr>r13 := v\<rparr>, m) of (v, c, m) \<Rightarrow>
      case cpu_pop (c\<lparr>r14 := v\<rparr>, m) of (v, c, m) \<Rightarrow>
      case cpu_pop (c\<lparr>r15 := v\<rparr>, m) of (v, c, m) \<Rightarrow>
      (c\<lparr>rip := v\<rparr>, m))"

text \<open>
  \<^verbatim>\<open>context_switch\<close>. The first argument is the place the outgoing stack pointer is stored
  to, \<open>None\<close> for a null pointer; the result is the value stored there and the new CPU and
  memory state, or \<open>None\<close> when the routine stops at its error label.
\<close>

definition context_switch ::
    "'p option \<Rightarrow> nat \<Rightarrow> cpu \<times> memory \<Rightarrow> (nat \<times> cpu \<times> memory) option" where
  "context_switch old_rsp new_rsp s =
     (if old_rsp = None then None
      else if new_rsp = 0 then None
      else case save_context s of (c, m) \<Rightarrow>
           Some (rsp c, restore_context (c\<lparr>rsp := new_rsp\<rparr>, m)))"

text \<open>\<^verbatim>\<open>user_mode_trampoline\<close>: the single instruction \<^verbatim>\<open>iretq\<close>.\<close>

definition iretq :: "cpu \<times> memory \<Rightarrow> cpu \<times> memory" where
  "iretq s0 =
     (case cpu_pop s0 of (new_rip, c, m) \<Rightarrow>
      case cpu_pop (c, m) of (new_cs, c, m) \<Rightarrow>
      case cpu_pop (c, m) of (new_rflags, c, m) \<Rightarrow>
      case cpu_pop (c, m) of (new_rsp, c, m) \<Rightarrow>
      case cpu_pop (c, m) of (new_ss, c, m) \<Rightarrow>
      (c\<lparr>rip := new_rip, cs := new_cs, rflags := new_rflags, rsp := unat new_rsp, ss := new_ss\<rparr>, m))"

section \<open>Switching away and back\<close>

lemma cpu_push_rsp:
  assumes "8 \<le> rsp c" and "rsp c < 2 ^ 64"
  shows "cpu_push v (c, m) = (c\<lparr>rsp := rsp c - 8\<rparr>, poke64 (rsp c - 8) v m)"
proof -
  have "rsp c + (2 ^ 64 - 8) = (rsp c - 8) + 2 ^ 64" using assms(1) by simp
  then have "(rsp c + (2 ^ 64 - 8)) mod 2 ^ 64 = rsp c - 8"
    using assms(2) by (simp only: mod_add_self2) simp
  then show ?thesis by (simp add: cpu_push_def Let_def)
qed

lemma cpu_pop_rsp:
  "rsp c + 8 < 2 ^ 64 \<Longrightarrow> cpu_pop (c, m) = (peek64 (rsp c) m, c\<lparr>rsp := rsp c + 8\<rparr>, m)"
  by (simp add: cpu_pop_def)

text \<open>A saved context lies in memory at an address.\<close>

definition context_at :: "nat \<Rightarrow> TaskContext \<Rightarrow> memory \<Rightarrow> bool" where
  "context_at p c m \<longleftrightarrow> peek64 p m = ctx_rflags c \<and> peek64 (p + 8) m = ctx_rbp c
     \<and> peek64 (p + 16) m = ctx_rbx c \<and> peek64 (p + 24) m = ctx_r12 c
     \<and> peek64 (p + 32) m = ctx_r13 c \<and> peek64 (p + 40) m = ctx_r14 c
     \<and> peek64 (p + 48) m = ctx_r15 c"

definition saved_of :: "cpu \<Rightarrow> TaskContext" where
  "saved_of c = \<lparr>ctx_rflags = (rflags c AND NOT 0x30000) OR 0x200, ctx_rbp = rbp c,
     ctx_rbx = rbx c, ctx_r12 = r12 c, ctx_r13 = r13 c, ctx_r14 = r14 c, ctx_r15 = r15 c\<rparr>"

lemma context_at_write: "context_at p c (write_context p c m)"
  by (simp add: context_at_def write_context_def peek_poke_other)

lemma write_context_other: "x < p \<or> p + 56 \<le> x \<Longrightarrow> write_context p c m x = m x"
  by (auto simp: write_context_def poke64_other)

lemma context_at_cong:
  assumes "context_at p c m" and "\<And>x. p \<le> x \<Longrightarrow> x < p + 56 \<Longrightarrow> m' x = m x"
  shows "context_at p c m'"
proof -
  have "peek64 (p + k) m' = peek64 (p + k) m" if "k + 8 \<le> 56" for k
    using that assms(2) by (intro peek64_cong) simp
  from this [of 0] this [of 8] this [of 16] this [of 24] this [of 32] this [of 40] this [of 48]
  show ?thesis using assms(1) by (simp add: context_at_def)
qed

lemma save_context_eq:
  assumes "56 \<le> rsp c" and "rsp c < 2 ^ 64"
  shows "\<exists>m'. save_context (c, m) = (c\<lparr>rsp := rsp c - 56\<rparr>, m')
     \<and> context_at (rsp c - 56) (saved_of c) m'
     \<and> (\<forall>x. x < rsp c - 56 \<or> rsp c \<le> x \<longrightarrow> m' x = m x)"
proof -
  obtain p where p: "rsp c = p + 56" using assms(1) by (metis le_add_diff_inverse2)
  show ?thesis
    using assms(2)
    by (simp add: save_context_def cpu_push_rsp p context_at_def [of p, unfolded add.commute [of p]]
        saved_of_def peek_poke_other poke64_other)
qed

lemma restore_context_eq:
  assumes "context_at (rsp c) k m" and "rsp c + 64 < 2 ^ 64"
  shows "restore_context (c, m) =
     (c\<lparr>rip := peek64 (rsp c + 56) m, rsp := rsp c + 64, rflags := ctx_rflags k, rbp := ctx_rbp k,
        rbx := ctx_rbx k, r12 := ctx_r12 k, r13 := ctx_r13 k, r14 := ctx_r14 k, r15 := ctx_r15 k\<rparr>, m)"
  using assms unfolding context_at_def add.commute [of "rsp c"]
  by (cases c) (simp add: restore_context_def cpu_pop_rsp, simp add: add.commute)

lemma context_switch_eq:
  assumes "56 \<le> rsp c" and "rsp c < 2 ^ 64" and "0 < new_rsp" and "new_rsp + 64 < 2 ^ 64"
    and "context_at new_rsp k m" and "new_rsp + 64 \<le> rsp c - 56 \<or> rsp c \<le> new_rsp"
  shows "\<exists>m'. context_switch (Some p) new_rsp (c, m)
     = Some (rsp c - 56,
         c\<lparr>rip := peek64 (new_rsp + 56) m, rsp := new_rsp + 64, rflags := ctx_rflags k,
           rbp := ctx_rbp k, rbx := ctx_rbx k, r12 := ctx_r12 k, r13 := ctx_r13 k,
           r14 := ctx_r14 k, r15 := ctx_r15 k\<rparr>, m')
     \<and> context_at (rsp c - 56) (saved_of c) m'
     \<and> (\<forall>x. x < rsp c - 56 \<or> rsp c \<le> x \<longrightarrow> m' x = m x)"
proof -
  obtain m' where m': "save_context (c, m) = (c\<lparr>rsp := rsp c - 56\<rparr>, m')"
      "context_at (rsp c - 56) (saved_of c) m'" "\<forall>x. x < rsp c - 56 \<or> rsp c \<le> x \<longrightarrow> m' x = m x"
    using save_context_eq [OF assms(1,2)] by blast
  have same: "m' x = m x" if "new_rsp \<le> x" "x < new_rsp + 64" for x
    using m'(3) that assms(6) by auto
  have "context_at new_rsp k m'"
    using assms(5) by (rule context_at_cong) (use same in simp)
  moreover have "peek64 (new_rsp + 56) m' = peek64 (new_rsp + 56) m"
    by (rule peek64_cong) (use same in simp)
  ultimately show ?thesis
    using m' assms(3,4) restore_context_eq [of "c\<lparr>rsp := new_rsp\<rparr>" k m']
    by (simp add: context_switch_def)
qed

lemma context_switch_null:
  "context_switch None new_rsp s = None" "context_switch p 0 s = None"
  by (simp_all add: context_switch_def)

section \<open>A new task\<close>

lemma write_down_eq: "8 \<le> r \<Longrightarrow> write_down v (r, m) = Inr (r - 8, poke64 (r - 8) v m)"
  by (simp add: write_down_def sub_w_def)

lemma align16_stack:
  assumes "tp = align_down 16 (s + STACK_SIZE)"
  shows "tp \<le> s + STACK_SIZE" and "s + 65520 < tp"
  using assms align_down_le [of 16 "s + STACK_SIZE"] less_align_down_add [of 16 "s + STACK_SIZE"]
  by (auto simp: STACK_SIZE_def)

text \<open>Everything \<^verbatim>\<open>Task::new\<close> leaves behind when the stack is there.\<close>

definition frame_size :: "PrivilegeLevel \<Rightarrow> nat" where
  "frame_size priv = (if priv = UserMode then 48 else 16)"

lemma Task_new_ok:
  assumes "start + STACK_SIZE < 2 ^ 64"
  defines "tp \<equiv> align_down 16 (start + STACK_SIZE)"
  shows "\<exists>t m'. Task_new env (Some start) entry pml4 priv ust parent (i, m) = Inr (Inr t, (i + 1, m'))
    \<and> t = \<lparr>task_id = i, parent_id = parent, task_rsp = tp - frame_size priv - 56, pml4_frame = pml4,
           stack_start = start, stack_end = start + STACK_SIZE, privilege = priv,
           heap_start = 0x200000000, program_break = 0x200000000,
           mmap_base = 0x400000000000, fd_table = FdTable_new\<rparr>
    \<and> context_at (task_rsp t) initial_context m'
    \<and> (priv = KernelMode \<longrightarrow> peek64 (tp - 16) m' = entry \<and> peek64 (tp - 8) m' = 0xDEADC0DEDEADC0DE)
    \<and> (priv = UserMode \<longrightarrow> peek64 (tp - 48) m' = user_mode_trampoline env
         \<and> peek64 (tp - 40) m' = entry \<and> peek64 (tp - 32) m' = user_code_selector env OR 3
         \<and> peek64 (tp - 24) m' = 0x202 \<and> peek64 (tp - 16) m' = word_of_nat ust
         \<and> peek64 (tp - 8) m' = user_data_selector env OR 3)
    \<and> (\<forall>x. x < start \<or> start + STACK_SIZE \<le> x \<longrightarrow> m' x = m x)"
proof -
  note b = align16_stack [OF tp_def [THEN meta_eq_to_obj_eq]]
  obtain q where q: "tp = q + 104" "start \<le> q" "q + 104 \<le> start + STACK_SIZE"
    using b by (intro that [of "tp - 104"]) auto
  have add: "add64 start STACK_SIZE = Inr (start + STACK_SIZE)" using assms by (simp add: add_w_def)
  show ?thesis
  proof (cases priv)
    case KernelMode
    then show ?thesis
      using q by (simp add: Task_new_def add tp_def [symmetric] initial_frame_def write_down_eq
          sub_w_def Let_def frame_size_def context_at_write write_context_def peek_poke_other
          poke64_other fill_ram_def context_at_def)
  next
    case UserMode
    then show ?thesis
      using q by (simp add: Task_new_def add tp_def [symmetric] initial_frame_def write_down_eq
          sub_w_def Let_def frame_size_def context_at_write write_context_def peek_poke_other
          poke64_other fill_ram_def context_at_def)
  qed
qed

section \<open>Properties\<close>

lemma iretq_eq:
  "rsp c + 40 < 2 ^ 64 \<Longrightarrow>
   iretq (c, m) = (c\<lparr>rip := peek64 (rsp c) m, cs := peek64 (rsp c + 8) m, rflags := peek64 (rsp c + 16) m,
     rsp := unat (peek64 (rsp c + 24) m), ss := peek64 (rsp c + 32) m\<rparr>, m)"
  by (simp add: iretq_def cpu_pop_rsp add.assoc)

text \<open>
  C20: the first switch to a freshly created user task, followed by the trampoline's \<^verbatim>\<open>iretq\<close>,
  enters the task's entry point with requested privilege level 3 in both selectors, the
  given user stack and interrupts enabled. The outgoing context is saved below the old
  stack pointer and nothing outside that range of memory changes in the switch.
\<close>

theorem first_dispatch_enters_ring3:
  fixes t :: "'v task"
  assumes start: "start + STACK_SIZE < 2 ^ 64"
    and new: "Task_new env (Some start) entry pml4 UserMode ust parent (i, m) = Inr (Inr t, (j, m1))"
    and cpu: "56 \<le> rsp c" "rsp c < 2 ^ 64" and apart: "rsp c \<le> start \<or> start + STACK_SIZE \<le> rsp c - 56"
  shows "\<exists>saved c' m2 c''. context_switch (Some p) (task_rsp t) (c, m1) = Some (saved, c', m2)
    \<and> rip c' = user_mode_trampoline env
    \<and> iretq (c', m2) = (c'', m2)
    \<and> rip c'' = entry \<and> cs c'' = user_code_selector env OR 3 \<and> ss c'' = user_data_selector env OR 3
    \<and> rsp c'' = ust mod 2 ^ 64 \<and> rflags c'' = 0x202
    \<and> saved = rsp c - 56 \<and> context_at saved (saved_of c) m2
    \<and> (\<forall>x. x < rsp c - 56 \<or> rsp c \<le> x \<longrightarrow> m2 x = m1 x)"
proof -
  define tp where "tp = align_down 16 (start + STACK_SIZE)"
  have tp: "tp \<le> start + STACK_SIZE" "start + 65520 < tp"
    by (rule align16_stack [OF tp_def])+
  have tsk: "task_rsp t = tp - 104" "context_at (tp - 104) initial_context m1"
      "peek64 (tp - 48) m1 = user_mode_trampoline env" "peek64 (tp - 40) m1 = entry"
      "peek64 (tp - 32) m1 = user_code_selector env OR 3" "peek64 (tp - 24) m1 = 0x202"
      "peek64 (tp - 16) m1 = word_of_nat ust" "peek64 (tp - 8) m1 = user_data_selector env OR 3"
    using Task_new_ok [where ?'a = 'v, OF start, of env entry pml4 UserMode ust parent i m, folded tp_def] new
    by (auto simp: frame_size_def)
  have ap: "tp - 104 + 64 \<le> rsp c - 56 \<or> rsp c \<le> tp - 104"
    using tp start apart by auto
  have pr: "0 < tp - 104" "tp - 104 + 64 < 2 ^ 64"
    using tp start by auto
  obtain m2 where sw: "context_switch (Some p) (tp - 104) (c, m1) = Some (rsp c - 56,
         c\<lparr>rip := peek64 (tp - 104 + 56) m1, rsp := tp - 104 + 64, rflags := ctx_rflags initial_context,
           rbp := ctx_rbp initial_context, rbx := ctx_rbx initial_context, r12 := ctx_r12 initial_context,
           r13 := ctx_r13 initial_context, r14 := ctx_r14 initial_context, r15 := ctx_r15 initial_context\<rparr>, m2)"
      and sv: "context_at (rsp c - 56) (saved_of c) m2"
      and fr: "\<forall>x. x < rsp c - 56 \<or> rsp c \<le> x \<longrightarrow> m2 x = m1 x"
    using context_switch_eq [OF cpu pr tsk(2) ap, of p] by blast
  have pk: "peek64 (tp - d) m2 = peek64 (tp - d) m1" if "8 \<le> d" "d \<le> 40" for d
    using that tp apart by (intro peek64_cong fr [rule_format]) auto
  have "tp - 104 + 56 = tp - 48" "tp - 104 + 64 = tp - 40" "tp - 40 + 8 = tp - 32" "tp - 40 + 16 = tp - 24"
      "tp - 40 + 24 = tp - 16" "tp - 40 + 32 = tp - 8" "tp - 40 + 40 < 2 ^ 64"
    using tp start by auto
  note arith = this
  define c' where "c' = c\<lparr>rip := peek64 (tp - 48) m1, rsp := tp - 40, rflags := 0x202,
    rbp := 0, rbx := 0, r12 := 0, r13 := 0, r14 := 0, r15 := 0\<rparr>"
  have "iretq (c', m2) = (c'\<lparr>rip := entry, cs := user_code_selector env OR 3, rflags := 0x202,
      rsp := ust mod 2 ^ 64, ss := user_data_selector env OR 3\<rparr>, m2)"
    using arith tsk pk [of 8] pk [of 16] pk [of 24] pk [of 32] pk [of 40]
    by (subst iretq_eq) (simp_all add: c'_def unsigned_of_nat take_bit_nat_def)
  moreover have "context_switch (Some p) (task_rsp t) (c, m1) = Some (rsp c - 56, c', m2)"
    using sw arith tsk(1) by (simp add: c'_def initial_context_def)
  ultimately show ?thesis using sv fr tsk(3) by (auto simp: c'_def)
qed

text \<open>
  C30: a task that is switched out and later switched back in resumes after the call with its
  stack pointer, callee-saved registers and flags (interrupts enabled) as it left them,
  provided its saved frame was not overwritten meanwhile.
\<close>

theorem switch_round_trip:
  assumes out: "56 \<le> rsp c" "rsp c + 8 < 2 ^ 64"
    and k: "context_at new_rsp k m" "0 < new_rsp" "new_rsp + 64 < 2 ^ 64"
    and apart: "new_rsp + 64 \<le> rsp c - 56 \<or> rsp c \<le> new_rsp"
    and first: "context_switch (Some p) new_rsp (c, m) = Some (saved, c1, m1)"
    and kept: "\<forall>x. saved \<le> x \<and> x < saved + 64 \<longrightarrow> m2 x = m1 x"
    and c2: "56 \<le> rsp c2" "rsp c2 < 2 ^ 64" "saved + 64 \<le> rsp c2 - 56 \<or> rsp c2 \<le> saved"
    and pos: "56 < rsp c"
  shows "\<exists>saved2 c3 m3. context_switch (Some q) saved (c2, m2) = Some (saved2, c3, m3)
    \<and> rip c3 = peek64 (rsp c) m \<and> rsp c3 = rsp c + 8
    \<and> rbp c3 = rbp c \<and> rbx c3 = rbx c \<and> r12 c3 = r12 c \<and> r13 c3 = r13 c \<and> r14 c3 = r14 c \<and> r15 c3 = r15 c
    \<and> rflags c3 = (rflags c AND NOT 0x30000) OR 0x200"
proof -
  have lt: "rsp c < 2 ^ 64" using out by simp
  have sv: "saved = rsp c - 56" "context_at (rsp c - 56) (saved_of c) m1"
      "\<forall>x. x < rsp c - 56 \<or> rsp c \<le> x \<longrightarrow> m1 x = m x"
    using context_switch_eq [OF out(1) lt k(2,3,1) apart, of p] first by auto
  have ctx: "context_at saved (saved_of c) m2"
    using sv(2) unfolding sv(1) [symmetric]
    by (rule context_at_cong) (intro kept [rule_format], auto)
  have "peek64 (saved + 56) m2 = peek64 (rsp c) m"
  proof -
    have "peek64 (saved + 56) m2 = peek64 (saved + 56) m1"
      by (intro peek64_cong kept [rule_format]) auto
    also have "saved + 56 = rsp c" using sv(1) pos by simp
    also have "peek64 (rsp c) m1 = peek64 (rsp c) m"
      by (intro peek64_cong sv(3) [rule_format]) auto
    finally show ?thesis using sv(1) pos by simp
  qed
  moreover have pr: "0 < saved" "saved + 64 < 2 ^ 64" "saved + 64 = rsp c + 8"
    using sv(1) pos out by auto
  ultimately show ?thesis
    using context_switch_eq [OF c2(1,2) pr(1,2) ctx c2(3), of q]
    by (elim exE conjE) (simp add: saved_of_def pr(3))
qed

section \<open>Witnesses\<close>

definition demo_env :: task_env where
  "demo_env = \<lparr>user_data_selector = 0x18, user_code_selector = 0x20, user_mode_trampoline = 0x1234\<rparr>"

definition demo_cpu :: cpu where
  "demo_cpu = \<lparr>rip = 0, cs = 8, rflags = 2, rsp = 0x2000, ss = 0x10, rbp = 1, rbx = 2, r12 = 3, r13 = 4, r14 = 5, r15 = 6\<rparr>"

theorem first_dispatch_enters_ring3_witness:
  "\<exists>(t :: unit task) m1 saved c' m2.
     Task_new demo_env (Some 0x10000) 0x400000 0x5000 UserMode 0x7000 None (1, \<lambda>_. 0) = Inr (Inr t, (2, m1))
     \<and> context_switch (Some ()) (task_rsp t) (demo_cpu, m1) = Some (saved, c', m2)
     \<and> rip (fst (iretq (c', m2))) = 0x400000 \<and> cs (fst (iretq (c', m2))) = 0x23
     \<and> rsp (fst (iretq (c', m2))) = 0x7000"
proof -
  have st: "0x10000 + STACK_SIZE < 2 ^ 64" by (simp add: STACK_SIZE_def)
  obtain t :: "unit task" and m1 where
    new: "Task_new demo_env (Some 0x10000) 0x400000 0x5000 UserMode 0x7000 None (1, \<lambda>_. 0) = Inr (Inr t, (2, m1))"
    using Task_new_ok [where ?'a = unit, OF st, of demo_env "0x400000" "0x5000" UserMode "0x7000" None 1 "\<lambda>_. 0"] by auto
  show ?thesis
    using new first_dispatch_enters_ring3 [OF st new, of demo_cpu "()"]
    by (fastforce simp: demo_cpu_def demo_env_def)
qed

theorem switch_round_trip_witness:
  "\<exists>saved c1 m1 saved2 c3 m3. context_switch (Some ()) 0x1000 (demo_cpu, \<lambda>_. 0) = Some (saved, c1, m1)
     \<and> context_switch (Some ()) saved (c1, m1) = Some (saved2, c3, m3) \<and> r15 c3 = 6 \<and> rsp c3 = 0x2008"
proof -
  define k where "k = \<lparr>ctx_rflags = 0, ctx_rbp = 0, ctx_rbx = 0, ctx_r12 = 0, ctx_r13 = 0, ctx_r14 = 0, ctx_r15 = 0\<rparr>"
  have k: "context_at 0x1000 k (\<lambda>_. 0)"
    by (simp add: context_at_def k_def peek64_zero)
  have d: "56 \<le> rsp demo_cpu" "rsp demo_cpu < 2 ^ 64" "rsp demo_cpu = 0x2000" "r15 demo_cpu = 6"
    by (simp_all add: demo_cpu_def)
  obtain saved c1 m1 where f: "context_switch (Some ()) 0x1000 (demo_cpu, \<lambda>_. 0) = Some (saved, c1, m1)"
      and sv: "saved = 0x2000 - 56" "rsp c1 = 0x1040"
    using context_switch_eq [OF d(1,2) _ _ k, of "()"] d(3) by auto
  show ?thesis
    using f switch_round_trip [OF d(1) _ k _ _ _ f, of m1 c1 "()"] d sv by auto
qed

end
