(* ===== verification/Task_Manager.thy ===== *)
theory Task_Manager
  imports Task
begin

text \<open>
  The task manager of \<^verbatim>\<open>src/task/task_manager.rs\<close>: the ready queue, the registry and the
  state map, with every method of \<^verbatim>\<open>TaskManager\<close>. Atomic counters wrap. The invariant
  says that the queue, the states and the registry agree; each operation keeps it, and the
  lemmas give the effect of each one on the states and on the queue.
\<close>

section \<open>State\<close>

datatype TaskState = Ready | Running | Blocked | Dead

record 'v task_manager =
  ready_queue :: "u64 list"
  task_registry :: "(u64, 'v task) btree"
  task_states :: "(u64, TaskState) btree"
  current_task :: "u64 option"
  ticks :: u64

definition TaskManager_empty :: "'v task_manager" where
  "TaskManager_empty = \<lparr>ready_queue = [], task_registry = [], task_states = [],
                        current_task = None, ticks = 0\<rparr>"

abbreviation state_of :: "'v task_manager \<Rightarrow> u64 \<Rightarrow> TaskState option" where
  "state_of tm \<equiv> bt_get (task_states tm)"

abbreviation task_of :: "'v task_manager \<Rightarrow> u64 \<Rightarrow> 'v task option" where
  "task_of tm \<equiv> bt_get (task_registry tm)"

section \<open>Operations\<close>

definition mark_ready :: "u64 \<Rightarrow> 'v task_manager \<Rightarrow> 'v task_manager" where
  "mark_ready tid tm =
     (if tid \<in> set (ready_queue tm) then tm else tm\<lparr>ready_queue := ready_queue tm @ [tid]\<rparr>)"

definition fetch_next_task :: "'v task_manager \<Rightarrow> u64 option \<times> 'v task_manager" where
  "fetch_next_task tm =
     (case ready_queue tm of
        [] \<Rightarrow> (None, tm)
      | tid # q \<Rightarrow> (Some tid, tm\<lparr>ready_queue := q\<rparr>))"

definition set_task_state :: "u64 \<Rightarrow> TaskState \<Rightarrow> 'v task_manager \<Rightarrow> 'v task_manager" where
  "set_task_state tid st tm =
     (let old_state = (case state_of tm tid of None \<Rightarrow> Dead | Some s \<Rightarrow> s);
          tm1 = tm\<lparr>task_states := bt_insert tid st (task_states tm)\<rparr> in
      if st = Ready \<and> old_state \<noteq> Ready
      then tm1\<lparr>ready_queue := ready_queue tm1 @ [tid]\<rparr>
      else if st \<noteq> Ready \<and> old_state = Ready
      then tm1\<lparr>ready_queue := filter (\<lambda>x. x \<noteq> tid) (ready_queue tm1)\<rparr>
      else tm1)"

definition register_task :: "'v task \<Rightarrow> 'v task_manager \<Rightarrow> 'v task_manager" where
  "register_task t tm =
     set_task_state (task_id t) Ready (tm\<lparr>task_registry := bt_insert (task_id t) t (task_registry tm)\<rparr>)"

text \<open>The manager with the global state task creation uses: the tid counter and memory.\<close>

record 'v task_world =
  manager :: "'v task_manager"
  next_id :: u64
  kmem :: memory

definition spawn_task ::
    "task_env \<Rightarrow> nat option \<Rightarrow> u64 \<Rightarrow> nat \<Rightarrow> PrivilegeLevel \<Rightarrow> nat
     \<Rightarrow> ('v task_world, KernelError, u64) kop" where
  "spawn_task env reserved entry_point pml4 priv user_stack_top w =
     bindR (Task_new env reserved entry_point pml4 priv user_stack_top (current_task (manager w))
              (next_id w, kmem w)) (\<lambda>(r, (i, m)).
       case r of
         Inl e \<Rightarrow> Inr (Inl e, w\<lparr>next_id := i, kmem := m\<rparr>)
       | Inr t \<Rightarrow> Inr (Inr (task_id t),
             w\<lparr>manager := register_task t (manager w), next_id := i, kmem := m\<rparr>))"

definition spawn ::
    "task_env \<Rightarrow> nat option \<Rightarrow> u64 \<Rightarrow> nat \<Rightarrow> PrivilegeLevel \<Rightarrow> ('v task_world, KernelError, u64) kop" where
  "spawn env reserved entry_point pml4 priv = spawn_task env reserved entry_point pml4 priv 0"

definition spawn_dynamic ::
    "task_env \<Rightarrow> nat option \<Rightarrow> u64 \<Rightarrow> nat \<Rightarrow> nat \<Rightarrow> ('v task_world, KernelError, u64) kop" where
  "spawn_dynamic env reserved entry_point target_pml4 user_stack_top =
     spawn_task env reserved entry_point target_pml4 UserMode user_stack_top"

definition block_current_task :: "'v task_manager \<Rightarrow> 'v task_manager" where
  "block_current_task tm =
     (case current_task tm of None \<Rightarrow> tm | Some tid \<Rightarrow> set_task_state tid Blocked tm)"

definition wait_for_child :: "u64 \<Rightarrow> 'v task_manager \<Rightarrow> bool \<times> 'v task_manager" where
  "wait_for_child child tm =
     (case state_of tm child of
        Some st \<Rightarrow> if st \<noteq> Dead then (True, block_current_task tm) else (False, tm)
      | None \<Rightarrow> (False, tm))"

definition next_task :: "'v task_manager \<Rightarrow> u64 option \<times> 'v task_manager" where
  "next_task tm =
     (let tm1 = (case current_task tm of
                   Some prev \<Rightarrow> (case state_of tm prev of
                       Some st \<Rightarrow> if st = Running then set_task_state prev Ready tm else tm
                     | None \<Rightarrow> tm)
                 | None \<Rightarrow> tm) in
      case ready_queue tm1 of
        tid # q \<Rightarrow> (Some tid, tm1\<lparr>ready_queue := q, task_states := bt_insert tid Running (task_states tm1),
                            current_task := Some tid\<rparr>)
      | [] \<Rightarrow> (None, tm1\<lparr>current_task := None\<rparr>))"

definition exit_current_task :: "'v task_manager \<Rightarrow> 'v task_manager" where
  "exit_current_task tm =
     (case current_task tm of
        None \<Rightarrow> tm
      | Some tid \<Rightarrow> (set_task_state tid Dead tm)\<lparr>current_task := None\<rparr>)"

definition unblock_task :: "u64 \<Rightarrow> 'v task_manager \<Rightarrow> 'v task_manager" where
  "unblock_task tid tm =
     (case state_of tm tid of
        Some st \<Rightarrow> if st = Blocked then set_task_state tid Ready tm else tm
      | None \<Rightarrow> tm)"

definition get_rsp :: "u64 \<Rightarrow> 'v task_manager \<Rightarrow> nat option" where
  "get_rsp tid tm = map_option task_rsp (task_of tm tid)"

definition set_rsp :: "u64 \<Rightarrow> nat \<Rightarrow> 'v task_manager \<Rightarrow> 'v task_manager" where
  "set_rsp tid r tm =
     (case task_of tm tid of
        None \<Rightarrow> tm
      | Some t \<Rightarrow> tm\<lparr>task_registry := bt_insert tid (t\<lparr>task_rsp := r\<rparr>) (task_registry tm)\<rparr>)"

definition wake_parent :: "u64 \<Rightarrow> 'v task_manager \<Rightarrow> 'v task_manager" where
  "wake_parent tid tm =
     (case task_of tm tid of
        None \<Rightarrow> tm
      | Some t \<Rightarrow> (case parent_id t of
          None \<Rightarrow> tm
        | Some p \<Rightarrow> (case state_of tm p of
            Some st \<Rightarrow> if st = Blocked then set_task_state p Ready tm else tm
          | None \<Rightarrow> tm)))"

definition kill :: "u64 \<Rightarrow> 'v task_manager \<Rightarrow> 'v task option \<times> 'v task_manager" where
  "kill tid tm =
     (let tm1 = wake_parent tid (set_task_state tid Dead tm) in
      (task_of tm1 tid,
       tm1\<lparr>task_states := bt_remove tid (task_states tm1),
           task_registry := bt_remove tid (task_registry tm1)\<rparr>))"

record task_manager_stats =
  total_tasks :: nat
  ready_tasks :: nat
  stats_current_task :: "u64 option"
  stats_ticks :: u64

definition stats :: "'v task_manager \<Rightarrow> task_manager_stats" where
  "stats tm = \<lparr>total_tasks = length (task_registry tm), ready_tasks = length (ready_queue tm),
               stats_current_task = current_task tm, stats_ticks = ticks tm\<rparr>"

text \<open>One round of the reaper thread: collect the dead tasks in key order, then purge them.\<close>

definition dead_tasks :: "'v task_manager \<Rightarrow> u64 list" where
  "dead_tasks tm = map fst (filter (\<lambda>(tid, st). st = Dead) (task_states tm))"

fun purge :: "u64 list \<Rightarrow> 'v task_manager \<Rightarrow> 'v task list \<times> 'v task_manager" where
  "purge [] tm = ([], tm)"
| "purge (tid # ids) tm =
     (case kill tid tm of (t, tm1) \<Rightarrow>
      case purge ids tm1 of (ts, tm2) \<Rightarrow>
      ((case t of None \<Rightarrow> ts | Some t \<Rightarrow> t # ts), tm2))"

definition reaper_round :: "'v task_manager \<Rightarrow> 'v task list \<times> 'v task_manager" where
  "reaper_round tm = purge (dead_tasks tm) tm"

section \<open>Invariant\<close>

text \<open>
  The queue holds every ready task other than the running one, once, and only ready tasks;
  states and registry have the same tasks; the current task is known and not dead.
\<close>

definition tm_inv :: "'v task_manager \<Rightarrow> bool" where
  "tm_inv tm \<longleftrightarrow> bt_ok (task_registry tm) \<and> bt_ok (task_states tm)
     \<and> distinct (ready_queue tm)
     \<and> (\<forall>tid \<in> set (ready_queue tm). state_of tm tid = Some Ready)
     \<and> (\<forall>tid. state_of tm tid = Some Ready \<longrightarrow> tid \<in> set (ready_queue tm) \<or> current_task tm = Some tid)
     \<and> (\<forall>tid. state_of tm tid = None \<longleftrightarrow> task_of tm tid = None)
     \<and> (\<forall>tid t. task_of tm tid = Some t \<longrightarrow> task_id t = tid)
     \<and> (\<forall>tid. current_task tm = Some tid \<longrightarrow> state_of tm tid \<noteq> None \<and> state_of tm tid \<noteq> Some Dead)
     \<and> (\<forall>tid. state_of tm tid \<noteq> Some Running)"

lemma tm_inv_empty: "tm_inv TaskManager_empty"
  by (simp add: tm_inv_def TaskManager_empty_def)

lemma set_task_state_fields [simp]:
  "task_registry (set_task_state tid st tm) = task_registry tm"
  "current_task (set_task_state tid st tm) = current_task tm"
  "ticks (set_task_state tid st tm) = ticks tm"
  "task_states (set_task_state tid st tm) = bt_insert tid st (task_states tm)"
  by (simp_all add: set_task_state_def Let_def)

lemma set_task_state_queue:
  "ready_queue (set_task_state tid st tm) =
     (if st = Ready \<and> state_of tm tid \<noteq> Some Ready then ready_queue tm @ [tid]
      else if st \<noteq> Ready \<and> state_of tm tid = Some Ready
      then filter (\<lambda>x. x \<noteq> tid) (ready_queue tm) else ready_queue tm)"
  by (auto simp: set_task_state_def Let_def split: option.splits)

lemma set_task_state_inv:
  assumes "tm_inv tm" and "task_of tm tid \<noteq> None" and "st \<noteq> Running"
    and "st = Dead \<longrightarrow> current_task tm \<noteq> Some tid"
  shows "tm_inv (set_task_state tid st tm)"
  using assms unfolding tm_inv_def
  by (auto simp: set_task_state_queue bt_ok_insert)

lemma tm_inv_task: "tm_inv tm \<Longrightarrow> state_of tm i = Some st \<Longrightarrow> task_of tm i \<noteq> None"
  unfolding tm_inv_def by (metis option.distinct(1))

lemma tm_inv_current: "tm_inv tm \<Longrightarrow> current_task tm = Some i \<Longrightarrow> task_of tm i \<noteq> None"
  unfolding tm_inv_def by metis

lemma block_current_task_inv:
  assumes "tm_inv tm"
  shows "tm_inv (block_current_task tm)"
proof (cases "current_task tm")
  case (Some i)
  then show ?thesis
    using set_task_state_inv [OF assms tm_inv_current [OF assms Some], of Blocked]
    by (simp add: block_current_task_def)
qed (simp add: block_current_task_def assms)

lemma wait_for_child_inv: "tm_inv tm \<Longrightarrow> tm_inv (snd (wait_for_child child tm))"
  by (auto simp: wait_for_child_def block_current_task_inv split: option.splits)

lemma unblock_task_inv:
  assumes "tm_inv tm"
  shows "tm_inv (unblock_task tid tm)"
proof (cases "state_of tm tid = Some Blocked")
  case True
  then show ?thesis
    using set_task_state_inv [OF assms tm_inv_task [OF assms True], of Ready]
    by (simp add: unblock_task_def)
qed (use assms in \<open>auto simp: unblock_task_def split: option.splits\<close>)

lemma exit_current_task_inv:
  assumes "tm_inv tm"
  shows "tm_inv (exit_current_task tm)"
proof (cases "current_task tm")
  case (Some i)
  note t = tm_inv_current [OF assms Some]
  from assms t Some show ?thesis
    unfolding exit_current_task_def tm_inv_def
    by (auto simp: set_task_state_queue bt_ok_insert)
qed (simp add: exit_current_task_def assms)

lemma set_rsp_inv: "tm_inv tm \<Longrightarrow> tm_inv (set_rsp tid r tm)"
  unfolding set_rsp_def tm_inv_def by (auto simp: bt_ok_insert split: option.splits)

lemma register_task_inv:
  assumes "tm_inv tm" and "task_of tm (task_id t) = None"
  shows "tm_inv (register_task t tm)"
  using assms unfolding register_task_def tm_inv_def
  by (auto simp: set_task_state_queue bt_ok_insert)

lemma wake_parent_inv:
  assumes "tm_inv tm"
  shows "tm_inv (wake_parent tid tm)"
proof -
  have "wake_parent tid tm = tm
        \<or> (\<exists>p. state_of tm p = Some Blocked \<and> wake_parent tid tm = set_task_state p Ready tm)"
    by (auto simp: wake_parent_def split: option.splits)
  then show ?thesis
    using assms set_task_state_inv [OF assms tm_inv_task [OF assms], of _ Blocked Ready] by auto
qed

lemma wake_parent_fields [simp]:
  "task_registry (wake_parent tid tm) = task_registry tm"
  "current_task (wake_parent tid tm) = current_task tm"
  "ticks (wake_parent tid tm) = ticks tm"
  by (simp_all add: wake_parent_def split: option.splits)

lemma wake_parent_dead:
  "state_of tm tid = Some Dead \<Longrightarrow> state_of (wake_parent tid tm) tid = Some Dead"
  by (auto simp: wake_parent_def split: option.splits)

text \<open>Purging a task that is not the running one, as the reaper does.\<close>

lemma forget_inv:
  assumes "tm_inv tm" and "state_of tm tid = Some Dead"
  shows "tm_inv (tm\<lparr>task_states := bt_remove tid (task_states tm),
                    task_registry := bt_remove tid (task_registry tm)\<rparr>)"
  using assms unfolding tm_inv_def by (auto simp: bt_ok_remove)

lemma kill_inv:
  assumes inv: "tm_inv tm" and "current_task tm \<noteq> Some tid" and "task_of tm tid \<noteq> None"
  shows "tm_inv (snd (kill tid tm))"
proof -
  let ?tm1 = "set_task_state tid Dead tm"
  have "tm_inv ?tm1" using set_task_state_inv [OF inv assms(3), of Dead] assms(2) by simp
  then have "tm_inv (wake_parent tid ?tm1)" by (rule wake_parent_inv)
  moreover have "state_of (wake_parent tid ?tm1) tid = Some Dead"
    by (rule wake_parent_dead) simp
  ultimately show ?thesis
    using forget_inv [of "wake_parent tid ?tm1" tid] by (simp add: kill_def Let_def)
qed

lemma kill_fields:
  "current_task (snd (kill tid tm)) = current_task tm"
  "fst (kill tid tm) = task_of tm tid"
  "task_of (snd (kill tid tm)) = (task_of tm)(tid := None)"
  by (simp_all add: kill_def Let_def)

lemma kill_states:
  "state_of (snd (kill tid tm)) x =
     (if x = tid then None
      else if state_of tm x = Some Blocked \<and> (\<exists>t. task_of tm tid = Some t \<and> parent_id t = Some x)
      then Some Ready else state_of tm x)"
  by (auto simp: kill_def Let_def wake_parent_def split: option.splits)

section \<open>The reaper\<close>

lemma dead_tasks_iff: "bt_ok (task_states tm) \<Longrightarrow> tid \<in> set (dead_tasks tm) \<longleftrightarrow> state_of tm tid = Some Dead"
  by (force simp: dead_tasks_def bt_entry_iff [symmetric])

lemma distinct_dead_tasks: "bt_ok (task_states tm) \<Longrightarrow> distinct (dead_tasks tm)"
  unfolding dead_tasks_def by (drule bt_ok_distinct) (simp add: distinct_map_filter)

text \<open>
  A purge of dead tasks removes exactly these; the other tasks keep their state, except
  blocked parents of purged tasks, which become ready.
\<close>

lemma purge_ok:
  assumes "tm_inv tm" and "distinct ids" and "\<forall>i \<in> set ids. state_of tm i = Some Dead"
  shows "tm_inv (snd (purge ids tm))
    \<and> current_task (snd (purge ids tm)) = current_task tm
    \<and> map Some (fst (purge ids tm)) = map (task_of tm) ids
    \<and> task_of (snd (purge ids tm)) = (\<lambda>i. if i \<in> set ids then None else task_of tm i)
    \<and> (\<forall>i. state_of (snd (purge ids tm)) i =
         (if i \<in> set ids then None
          else if state_of tm i = Some Blocked
                  \<and> (\<exists>d \<in> set ids. \<exists>t. task_of tm d = Some t \<and> parent_id t = Some i)
          then Some Ready else state_of tm i))"
  using assms
proof (induction ids arbitrary: tm)
  case (Cons d ids)
  have d: "state_of tm d = Some Dead" using Cons.prems by simp
  note td = tm_inv_task [OF Cons.prems(1) d]
  have cd: "current_task tm \<noteq> Some d" using Cons.prems(1) d by (auto simp: tm_inv_def)
  let ?tm1 = "snd (kill d tm)"
  have inv1: "tm_inv ?tm1" using kill_inv [OF Cons.prems(1) cd td] .
  have "\<forall>i \<in> set ids. state_of ?tm1 i = Some Dead"
    using Cons.prems by (auto simp: kill_states)
  note IH = Cons.IH [OF inv1 _ this]
  obtain t where t: "task_of tm d = Some t" using td by auto
  have p: "purge (d # ids) tm = (t # fst (purge ids ?tm1), snd (purge ids ?tm1))"
    using kill_fields(2) [of d tm] t by (simp add: split_beta)
  have d': "d \<notin> set ids" "distinct ids" using Cons.prems(2) by auto
  note IH1 = IH [OF d'(2)]
  note I = conjunct1 [OF IH1] and C = conjunct1 [OF conjunct2 [OF IH1]]
    and M = conjunct1 [OF conjunct2 [OF conjunct2 [OF IH1]]]
    and T = conjunct1 [OF conjunct2 [OF conjunct2 [OF conjunct2 [OF IH1]]]]
    and S = conjunct2 [OF conjunct2 [OF conjunct2 [OF conjunct2 [OF IH1]]]]
  have same: "task_of ?tm1 e = task_of tm e" if "e \<in> set ids" for e
    using d' that by (auto simp: kill_fields(3))
  have st: "state_of (snd (purge ids ?tm1)) i =
         (if i \<in> set (d # ids) then None
          else if state_of tm i = Some Blocked
                  \<and> (\<exists>e \<in> set (d # ids). \<exists>u. task_of tm e = Some u \<and> parent_id u = Some i)
          then Some Ready else state_of tm i)" for i
  proof -
    have "(\<exists>e \<in> set ids. \<exists>u. task_of ?tm1 e = Some u \<and> parent_id u = Some i)
        \<longleftrightarrow> (\<exists>e \<in> set ids. \<exists>u. task_of tm e = Some u \<and> parent_id u = Some i)"
      using same by metis
    then show ?thesis
      using S [rule_format, of i] kill_states [of d tm i]
      by (cases "i \<in> set ids"; cases "i = d";
          cases "\<exists>e \<in> set ids. \<exists>u. task_of tm e = Some u \<and> parent_id u = Some i")
        (simp_all split: if_splits)
  qed
  have "map (task_of ?tm1) ids = map (task_of tm) ids" using same by simp
  moreover have "task_of (snd (purge ids ?tm1)) = (\<lambda>i. if i \<in> set (d # ids) then None else task_of tm i)"
    unfolding T by (simp add: kill_fields(3) fun_eq_iff)
  ultimately show ?case
    unfolding p using I C M st t by (simp only: fst_conv snd_conv list.map kill_fields(1)) blast
qed simp

section \<open>Spawning\<close>

text \<open>Ids are issued in increasing order, so a fresh one names no registered task.\<close>

definition tw_inv :: "'v task_world \<Rightarrow> bool" where
  "tw_inv w \<longleftrightarrow> tm_inv (manager w) \<and> (\<forall>i. task_of (manager w) i \<noteq> None \<longrightarrow> i < next_id w)"

lemma register_task_effect:
  assumes "state_of tm (task_id t) = None"
  shows "state_of (register_task t tm) = (state_of tm)(task_id t \<mapsto> Ready)"
    and "task_of (register_task t tm) = (task_of tm)(task_id t \<mapsto> t)"
    and "ready_queue (register_task t tm) = ready_queue tm @ [task_id t]"
    and "current_task (register_task t tm) = current_task tm"
  using assms by (simp_all add: register_task_def set_task_state_queue)

lemma word_less_inc: "(i :: u64) \<noteq> - 1 \<Longrightarrow> j \<le> i \<Longrightarrow> j < i + 1"
proof -
  assume "i \<noteq> - 1" "j \<le> i"
  then have "1 + i \<noteq> 0" by (metis add_eq_0_iff)
  then have "unat (i + 1) = Suc (unat i)" using unatSuc [of i] by (simp add: add.commute)
  with \<open>j \<le> i\<close> show ?thesis by (simp add: word_less_nat_alt word_le_nat_alt)
qed

lemma spawn_task_ok:
  assumes inv: "tw_inv w" and fit: "start + STACK_SIZE < 2 ^ 64" and wrap: "next_id w \<noteq> - 1"
  shows "\<exists>w' t. spawn_task env (Some start) entry pml4 priv ust w = Inr (Inr (next_id w), w')
    \<and> tw_inv w' \<and> next_id w' = next_id w + 1
    \<and> task_of (manager w) (next_id w) = None
    \<and> task_of (manager w') = (task_of (manager w))(next_id w \<mapsto> t)
    \<and> parent_id t = current_task (manager w) \<and> privilege t = priv \<and> pml4_frame t = pml4
    \<and> state_of (manager w') = (state_of (manager w))(next_id w \<mapsto> Ready)
    \<and> ready_queue (manager w') = ready_queue (manager w) @ [next_id w]
    \<and> current_task (manager w') = current_task (manager w)"
proof -
  obtain t :: "'a task" and m' where tn: "Task_new env (Some start) entry pml4 priv ust (current_task (manager w))
      (next_id w, kmem w) = Inr (Inr t, (next_id w + 1, m'))"
    and t: "task_id t = next_id w" "parent_id t = current_task (manager w)" "privilege t = priv"
      "pml4_frame t = pml4"
    using Task_new_ok [OF fit, of env entry pml4 priv ust "current_task (manager w)" "next_id w" "kmem w"]
    by (elim exE conjE) (rule that, assumption, simp_all)
  let ?w' = "w\<lparr>manager := register_task t (manager w), next_id := next_id w + 1, kmem := m'\<rparr>"
  have fresh: "task_of (manager w) (next_id w) = None"
    using inv unfolding tw_inv_def by (metis order_less_irrefl)
  then have sf: "state_of (manager w) (task_id t) = None"
    using inv t(1) by (simp add: tw_inv_def tm_inv_def)
  note e = register_task_effect [OF sf, unfolded t(1)]
  have "tm_inv (register_task t (manager w))"
    using inv fresh t(1) by (intro register_task_inv) (auto simp: tw_inv_def)
  moreover have "i < next_id w + 1" if "task_of (register_task t (manager w)) i \<noteq> None" for i
    using that inv wrap word_less_inc by (force simp: e tw_inv_def split: if_splits)
  ultimately have "tw_inv ?w'" by (simp add: tw_inv_def)
  moreover have "spawn_task env (Some start) entry pml4 priv ust w = Inr (Inr (next_id w), ?w')"
    by (simp add: spawn_task_def tn t(1))
  ultimately show ?thesis using fresh e t by (intro exI [of _ ?w'] exI [of _ t]) simp
qed

lemma spawn_task_no_stack:
  "\<exists>w'. spawn_task env None entry pml4 priv ust w = Inr (Inl (KTask StackAllocation), w')
     \<and> manager w' = manager w \<and> kmem w' = kmem w"
  by (simp add: spawn_task_def Task_new_def Let_def)

end
