(* ===== verification/Scheduler.thy ===== *)
theory Scheduler
  imports Task_Manager
begin

text \<open>
  The round-robin scheduler of \<^verbatim>\<open>src/task/scheduler.rs\<close>: \<^verbatim>\<open>schedule\<close>, called on every timer
  tick, with its effects on the manager, the TSS stack, the syscall stack, CR3 and, through
  \<open>context_switch\<close>, the CPU. The lemmas show that a tick keeps the manager's invariant, that
  the address space and the kernel stacks follow the task that becomes current, and that
  the task at position \<open>i\<close> of the queue runs after \<open>i + 1\<close> ticks.
\<close>

section \<open>The tick\<close>

text \<open>Where \<^verbatim>\<open>context_switch\<close> stores the outgoing stack pointer.\<close>

datatype rsp_slot = TaskRsp u64 | BootRsp

record 'v sched =
  sman :: "'v task_manager"
  boot_rsp :: nat
  tss_rsp0 :: nat
  kernel_rsp :: nat
  cr3 :: nat
  eoi_count :: nat
  scpu :: cpu
  smem :: memory

definition requeue_current :: "'v task_manager \<Rightarrow> 'v task_manager" where
  "requeue_current tm =
     (case current_task tm of
        None \<Rightarrow> tm
      | Some c \<Rightarrow>
          let st = (case state_of tm c of None \<Rightarrow> Ready | Some s \<Rightarrow> s) in
          if st = Running \<or> st = Ready then mark_ready c tm else tm)"

text \<open>What loading the next task decides: the TSS stack, its page table, its stack pointer.\<close>

definition prepare_task :: "'v task \<Rightarrow> rsp_slot \<Rightarrow> (nat option \<times> nat option \<times> (rsp_slot \<times> nat) option) run" where
  "prepare_task t slot =
     bindR (if privilege t = UserMode then bindR (virt_addr (stack_end t)) (\<lambda>a. Inr (Some a)) else Inr None)
       (\<lambda>tss. Inr (tss, Some (pml4_frame t), Some (slot, task_rsp t)))"

definition schedule_pick ::
    "'v task_manager \<Rightarrow> ('v task_manager \<times> nat option \<times> nat option \<times> (rsp_slot \<times> nat) option) run" where
  "schedule_pick tm =
     (let tm1 = requeue_current (tm\<lparr>ticks := ticks tm + 1\<rparr>) in
      case fetch_next_task tm1 of
        (None, tm2) \<Rightarrow> Inr (tm2, None, None, None)
      | (Some n, tm2) \<Rightarrow>
          if Some n = current_task tm then Inr (tm2, None, None, None)
          else
            let tm3 = tm2\<lparr>current_task := Some n\<rparr> in
            case current_task tm of
              Some c \<Rightarrow>
                (case task_of tm3 c of
                   None \<Rightarrow> Inr (tm3, None, None, None)
                 | Some _ \<Rightarrow>
                     (case task_of tm3 n of
                        None \<Rightarrow> Inr (tm3, None, None, None)
                      | Some t \<Rightarrow> bindR (prepare_task t (TaskRsp c)) (\<lambda>d. Inr (tm3, d))))
            | None \<Rightarrow>
                (case task_of tm3 n of
                   None \<Rightarrow> Inr (tm3, None, None, None)
                 | Some t \<Rightarrow> bindR (prepare_task t BootRsp) (\<lambda>d. Inr (tm3, d))))"

definition store_slot :: "rsp_slot \<Rightarrow> nat \<Rightarrow> 'v sched \<Rightarrow> 'v sched" where
  "store_slot slot r w =
     (case slot of
        TaskRsp i \<Rightarrow> w\<lparr>sman := set_rsp i r (sman w)\<rparr>
      | BootRsp \<Rightarrow> w\<lparr>boot_rsp := r\<rparr>)"

definition schedule :: "'v sched \<Rightarrow> 'v sched run" where
  "schedule w =
     bindR (schedule_pick (sman w)) (\<lambda>(tm, tss, next_cr3, switch_data).
     let w1 = w\<lparr>sman := tm, tss_rsp0 := (case tss of None \<Rightarrow> tss_rsp0 w | Some a \<Rightarrow> a),
                eoi_count := eoi_count w + 1\<rparr>;
         w2 = (case current_task tm of
                 None \<Rightarrow> w1
               | Some n \<Rightarrow> (case task_of tm n of
                   None \<Rightarrow> w1
                 | Some t \<Rightarrow> w1\<lparr>kernel_rsp := stack_end t\<rparr>));
         w3 = (case next_cr3 of
                 None \<Rightarrow> w2
               | Some p \<Rightarrow> if cr3 w2 \<noteq> p then w2\<lparr>cr3 := p\<rparr> else w2) in
     case switch_data of
       None \<Rightarrow> Inr w3
     | Some (slot, new_rsp) \<Rightarrow>
         (case context_switch (Some slot) new_rsp (scpu w3, smem w3) of
            None \<Rightarrow> Inl ExplicitPanic
          | Some (saved, c, m) \<Rightarrow> Inr (store_slot slot saved (w3\<lparr>scpu := c, smem := m\<rparr>))))"

definition get_stats :: "'v sched \<Rightarrow> task_manager_stats" where
  "get_stats w = stats (sman w)"

section \<open>The queue over a tick\<close>

definition tick_queue :: "'v task_manager \<Rightarrow> u64 list" where
  "tick_queue tm =
     (case current_task tm of
        None \<Rightarrow> ready_queue tm
      | Some c \<Rightarrow> if state_of tm c = Some Ready \<and> c \<notin> set (ready_queue tm)
                then ready_queue tm @ [c] else ready_queue tm)"

definition tasks_canonical :: "'v task_manager \<Rightarrow> bool" where
  "tasks_canonical tm \<longleftrightarrow> (\<forall>i t. task_of tm i = Some t \<longrightarrow> canonical (stack_end t))"

lemma mark_ready_fields [simp]:
  "task_registry (mark_ready c tm) = task_registry tm"
  "task_states (mark_ready c tm) = task_states tm"
  "current_task (mark_ready c tm) = current_task tm"
  "ticks (mark_ready c tm) = ticks tm"
  by (simp_all add: mark_ready_def)

lemma requeue_current_eq:
  assumes "tm_inv tm"
  shows "requeue_current (tm\<lparr>ticks := k\<rparr>) = tm\<lparr>ticks := k, ready_queue := tick_queue tm\<rparr>"
proof (cases "current_task tm")
  case None
  then show ?thesis by (simp add: requeue_current_def tick_queue_def)
next
  case (Some c)
  then obtain st where st: "state_of tm c = Some st" "st \<noteq> Running"
    using assms unfolding tm_inv_def by (metis option.exhaust)
  then show ?thesis
    using Some by (auto simp: requeue_current_def tick_queue_def mark_ready_def Let_def)
qed

lemma tick_queue_ready: "tm_inv tm \<Longrightarrow> i \<in> set (tick_queue tm) \<Longrightarrow> state_of tm i = Some Ready"
  by (auto simp: tick_queue_def tm_inv_def split: option.splits if_splits)

lemma tick_queue_distinct: "tm_inv tm \<Longrightarrow> distinct (tick_queue tm)"
  by (auto simp: tick_queue_def tm_inv_def split: option.splits)

lemma tick_queue_complete:
  "tm_inv tm \<Longrightarrow> state_of tm i = Some Ready \<Longrightarrow> i \<in> set (tick_queue tm)"
proof -
  assume "tm_inv tm" and r: "state_of tm i = Some Ready"
  then have "i \<in> set (ready_queue tm) \<or> current_task tm = Some i" by (auto simp: tm_inv_def)
  with r show ?thesis by (auto simp: tick_queue_def split: option.splits)
qed

text \<open>One tick: the head of the extended queue becomes current, with its stack and table.\<close>

lemma prepare_task_ok:
  "canonical (stack_end t) \<Longrightarrow>
   prepare_task t slot = Inr (if privilege t = UserMode then Some (stack_end t) else None,
                              Some (pml4_frame t), Some (slot, task_rsp t))"
  by (simp add: prepare_task_def virt_addr_def)

lemma schedule_pick_empty:
  "tm_inv tm \<Longrightarrow> tick_queue tm = [] \<Longrightarrow>
   schedule_pick tm = Inr (tm\<lparr>ticks := ticks tm + 1, ready_queue := []\<rparr>, None, None, None)"
  by (simp add: schedule_pick_def requeue_current_eq fetch_next_task_def Let_def)

lemma schedule_pick_cons:
  assumes inv: "tm_inv tm" and can: "tasks_canonical tm" and q: "tick_queue tm = n # q"
  shows "\<exists>t d. task_of tm n = Some t
     \<and> schedule_pick tm = Inr (tm\<lparr>ticks := ticks tm + 1, ready_queue := q, current_task := Some n\<rparr>, d)
     \<and> d = (if current_task tm = Some n then (None, None, None)
            else (if privilege t = UserMode then Some (stack_end t) else None, Some (pml4_frame t),
                  Some (case current_task tm of None \<Rightarrow> BootRsp | Some c \<Rightarrow> TaskRsp c, task_rsp t)))"
proof -
  have "state_of tm n = Some Ready" using tick_queue_ready [OF inv] q by simp
  then obtain t where t: "task_of tm n = Some t" using tm_inv_task [OF inv] by blast
  then have ct: "canonical (stack_end t)" using can by (auto simp: tasks_canonical_def)
  show ?thesis
  proof (cases "current_task tm")
    case None
    then show ?thesis
      using q t by (simp add: schedule_pick_def requeue_current_eq [OF inv] fetch_next_task_def
          Let_def prepare_task_ok [OF ct])
  next
    case (Some c)
    obtain s where "task_of tm c = Some s" using tm_inv_current [OF inv Some] by blast
    then show ?thesis
      using q t Some by (auto simp: schedule_pick_def requeue_current_eq [OF inv] fetch_next_task_def
          Let_def prepare_task_ok [OF ct])
  qed
qed

lemma schedule_pick_inv:
  assumes inv: "tm_inv tm" and p: "schedule_pick tm = Inr (tm', d)" and can: "tasks_canonical tm"
  shows "tm_inv tm' \<and> task_registry tm' = task_registry tm \<and> task_states tm' = task_states tm"
proof (cases "tick_queue tm")
  case Nil
  have "state_of tm i \<noteq> Some Ready" for i using tick_queue_complete [OF inv, of i] Nil by auto
  moreover have "tm' = tm\<lparr>ticks := ticks tm + 1, ready_queue := []\<rparr>"
    using p schedule_pick_empty [OF inv Nil] by simp
  ultimately show ?thesis using inv tm_inv_current [OF inv] by (auto simp: tm_inv_def)
next
  case (Cons n q)
  have tm': "tm' = tm\<lparr>ticks := ticks tm + 1, ready_queue := q, current_task := Some n\<rparr>"
    using schedule_pick_cons [OF inv can Cons] p by auto
  have r: "state_of tm i = Some Ready \<longleftrightarrow> i = n \<or> i \<in> set q" for i
    using tick_queue_complete [OF inv, of i] tick_queue_ready [OF inv, of i] Cons by auto
  have "state_of tm n = Some Ready" using r by simp
  then have "task_of tm n \<noteq> None" "state_of tm n \<noteq> Some Dead"
    using tm_inv_task [OF inv] by auto
  moreover have "distinct q" using tick_queue_distinct [OF inv] Cons by simp
  ultimately show ?thesis using inv r unfolding tm' tm_inv_def by auto
qed

section \<open>Round-robin order\<close>

text \<open>
  A run of ticks at the manager: before each following tick the outgoing task's stack
  pointer, whatever value the switch saved, has been written to its slot.
\<close>

definition store_slot_tm :: "(rsp_slot \<times> nat) option \<Rightarrow> nat \<Rightarrow> 'v task_manager \<Rightarrow> 'v task_manager" where
  "store_slot_tm sw r tm =
     (case sw of Some (TaskRsp i, _) \<Rightarrow> set_rsp i r tm | _ \<Rightarrow> tm)"

fun run_ticks :: "nat list \<Rightarrow> 'v task_manager \<Rightarrow> 'v task_manager run" where
  "run_ticks [] tm = Inr tm"
| "run_ticks (r # rs) tm =
     bindR (schedule_pick tm) (\<lambda>(tm', tss, c, sw). run_ticks rs (store_slot_tm sw r tm'))"

lemma set_rsp_fields [simp]:
  "ready_queue (set_rsp i r tm) = ready_queue tm"
  "task_states (set_rsp i r tm) = task_states tm"
  "current_task (set_rsp i r tm) = current_task tm"
  by (simp_all add: set_rsp_def split: option.splits)

lemma set_rsp_canonical: "tasks_canonical tm \<Longrightarrow> tasks_canonical (set_rsp i r tm)"
  by (auto simp: tasks_canonical_def set_rsp_def split: option.splits)

lemma store_slot_tm_ok:
  assumes "tm_inv tm" and "tasks_canonical tm"
  shows "tm_inv (store_slot_tm sw r tm) \<and> tasks_canonical (store_slot_tm sw r tm)
    \<and> ready_queue (store_slot_tm sw r tm) = ready_queue tm
    \<and> current_task (store_slot_tm sw r tm) = current_task tm"
  using assms
  by (auto simp: store_slot_tm_def set_rsp_inv set_rsp_canonical split: option.splits rsp_slot.splits)

lemma tick_queue_prefix: "\<exists>suffix. tick_queue tm = ready_queue tm @ suffix"
  by (auto simp: tick_queue_def split: option.splits)

lemma run_ticks_position:
  assumes "tm_inv tm" and "tasks_canonical tm" and "i < length (ready_queue tm)"
    and "length rs = Suc i"
  shows "\<exists>tm'. run_ticks rs tm = Inr tm' \<and> current_task tm' = Some (ready_queue tm ! i) \<and> tm_inv tm'"
  using assms
proof (induction rs arbitrary: tm i)
  case (Cons r rs)
  obtain n q where nq: "tick_queue tm = n # q" "n = ready_queue tm ! 0"
    and sh: "\<And>j. Suc j < length (ready_queue tm) \<Longrightarrow> j < length q \<and> q ! j = ready_queue tm ! Suc j"
  proof -
    obtain s where s: "tick_queue tm = ready_queue tm @ s" using tick_queue_prefix by blast
    obtain n q' where "ready_queue tm = n # q'" using Cons.prems(3) by (cases "ready_queue tm") auto
    then show thesis using s by (intro that [of n "q' @ s"]) (auto simp: nth_append)
  qed
  let ?tm1 = "tm\<lparr>ticks := ticks tm + 1, ready_queue := q, current_task := Some n\<rparr>"
  obtain d where d: "schedule_pick tm = Inr (?tm1, d)"
    using schedule_pick_cons [OF Cons.prems(1,2) nq(1)] by blast
  have "tm_inv ?tm1" using schedule_pick_inv [OF Cons.prems(1) d Cons.prems(2)] by simp
  moreover have "tasks_canonical ?tm1" using Cons.prems(2) by (simp add: tasks_canonical_def)
  moreover obtain tss c sw where dd: "d = (tss, c, sw)" by (cases d) auto
  ultimately have st: "tm_inv (store_slot_tm sw r ?tm1)" "tasks_canonical (store_slot_tm sw r ?tm1)"
      "ready_queue (store_slot_tm sw r ?tm1) = q" "current_task (store_slot_tm sw r ?tm1) = Some n"
    using store_slot_tm_ok [of ?tm1 sw r] by auto
  show ?case
  proof (cases i)
    case 0
    then show ?thesis using Cons.prems(4) d dd st nq(2) by simp
  next
    case (Suc j)
    then have "j < length q" "q ! j = ready_queue tm ! i" using sh [of j] Cons.prems(3) by auto
    then show ?thesis
      using Cons.IH [OF st(1,2), of j] Cons.prems(4) Suc d dd st(3) by simp
  qed
qed simp

section \<open>The machine after a tick\<close>

lemma schedule_switches:
  assumes inv: "tm_inv (sman w)" and can: "tasks_canonical (sman w)"
    and q: "tick_queue (sman w) = n # q" and new: "current_task (sman w) \<noteq> Some n"
    and w': "schedule w = Inr w'"
  shows "\<exists>t. task_of (sman w) n = Some t \<and> current_task (sman w') = Some n
     \<and> cr3 w' = pml4_frame t \<and> kernel_rsp w' = stack_end t
     \<and> (privilege t = UserMode \<longrightarrow> tss_rsp0 w' = stack_end t)
     \<and> eoi_count w' = eoi_count w + 1
     \<and> tm_inv (sman w') \<and> ready_queue (sman w') = q"
proof -
  let ?tm1 = "(sman w)\<lparr>ticks := ticks (sman w) + 1, ready_queue := q, current_task := Some n\<rparr>"
  let ?slot = "case current_task (sman w) of None \<Rightarrow> BootRsp | Some c \<Rightarrow> TaskRsp c"
  obtain t where t: "task_of (sman w) n = Some t"
    and p: "schedule_pick (sman w) = Inr (?tm1, if privilege t = UserMode then Some (stack_end t) else None,
        Some (pml4_frame t), Some (?slot, task_rsp t))"
    using schedule_pick_cons [OF inv can q] new by auto
  have "tm_inv ?tm1" using schedule_pick_inv [OF inv p can] by simp
  then have s: "tm_inv (set_rsp i r ?tm1)" for i r by (rule set_rsp_inv)
  obtain saved c m where cs: "context_switch (Some ?slot) (task_rsp t) (scpu w, smem w) = Some (saved, c, m)"
    using w' t p by (auto simp: schedule_def Let_def split: option.splits if_splits)
  show ?thesis
    using w' t cs \<open>tm_inv ?tm1\<close> s
    by (auto simp: schedule_def p Let_def store_slot_def split: option.splits if_splits)
qed

section \<open>Histories of the task system\<close>

text \<open>
  Every way the kernel changes the set of tasks: a timer tick, the manager calls made by
  system calls, exception handlers and locks, and a round of the reaper thread.
\<close>

inductive task_step :: "task_env \<Rightarrow> 'v task_world \<Rightarrow> 'v task_world \<Rightarrow> bool" for env where
  tick: "schedule_pick (manager w) = Inr (tm, tss, c, sw) \<Longrightarrow>
    task_step env w (w\<lparr>manager := store_slot_tm sw r tm\<rparr>)"
| spawn: "spawn_task env (Some start) entry pml4 priv ust w = Inr (r, w') \<Longrightarrow>
    canonical (start + STACK_SIZE) \<Longrightarrow> next_id w \<noteq> - 1 \<Longrightarrow> task_step env w w'"
| spawn_failed: "spawn_task env None entry pml4 priv ust w = Inr (r, w') \<Longrightarrow>
    next_id w \<noteq> - 1 \<Longrightarrow> task_step env w w'"
| block: "task_step env w (w\<lparr>manager := block_current_task (manager w)\<rparr>)"
| wait: "task_step env w (w\<lparr>manager := snd (wait_for_child i (manager w))\<rparr>)"
| unblock: "task_step env w (w\<lparr>manager := unblock_task i (manager w)\<rparr>)"
| exit: "task_step env w (w\<lparr>manager := exit_current_task (manager w)\<rparr>)"
| reap: "task_step env w (w\<lparr>manager := snd (reaper_round (manager w))\<rparr>)"

inductive task_reachable :: "task_env \<Rightarrow> 'v task_world \<Rightarrow> bool" for env where
  boot: "task_reachable env \<lparr>manager = TaskManager_empty, next_id = 1, kmem = m\<rparr>"
| step: "task_reachable env w \<Longrightarrow> task_step env w w' \<Longrightarrow> task_reachable env w'"

definition world_inv :: "'v task_world \<Rightarrow> bool" where
  "world_inv w \<longleftrightarrow> tw_inv w \<and> tasks_canonical (manager w)"

lemma reaper_round_ok:
  assumes "tm_inv tm"
  shows "tm_inv (snd (reaper_round tm))
    \<and> task_of (snd (reaper_round tm)) = (\<lambda>i. if state_of tm i = Some Dead then None else task_of tm i)"
proof -
  have ok: "bt_ok (task_states tm)" using assms by (simp add: tm_inv_def)
  note p = purge_ok [OF assms distinct_dead_tasks [OF ok]]
  show ?thesis using p by (simp add: reaper_round_def dead_tasks_iff [OF ok])
qed

lemma same_registry_world_inv:
  assumes "world_inv w" and "tm_inv tm" and "task_registry tm = task_registry (manager w)"
  shows "world_inv (w\<lparr>manager := tm\<rparr>)"
  using assms by (simp add: world_inv_def tw_inv_def tasks_canonical_def)

lemma manager_registry_fields:
  "task_registry (block_current_task tm) = task_registry tm"
  "task_registry (snd (wait_for_child i tm)) = task_registry tm"
  "task_registry (unblock_task i tm) = task_registry tm"
  "task_registry (exit_current_task tm) = task_registry tm"
  by (simp_all add: block_current_task_def wait_for_child_def unblock_task_def exit_current_task_def
      split: option.splits)

lemma task_of_set_rsp: "task_of (set_rsp j r tm) i = None \<longleftrightarrow> task_of tm i = None"
  by (simp add: set_rsp_def split: option.splits)

lemma tick_world_inv:
  assumes w: "world_inv w" and p: "schedule_pick (manager w) = Inr (tm, tss, c, sw)"
  shows "world_inv (w\<lparr>manager := store_slot_tm sw r tm\<rparr>)"
proof -
  have inv: "tm_inv (manager w)" and can: "tasks_canonical (manager w)"
    using w by (auto simp: world_inv_def tw_inv_def)
  note s = schedule_pick_inv [OF inv p can]
  then have "tm_inv (store_slot_tm sw r tm) \<and> tasks_canonical (store_slot_tm sw r tm)"
    using store_slot_tm_ok [of tm sw r] can by (simp add: tasks_canonical_def)
  moreover have "task_of (store_slot_tm sw r tm) i = None \<longleftrightarrow> task_of (manager w) i = None" for i
    using s by (simp add: store_slot_tm_def task_of_set_rsp split: option.splits rsp_slot.splits)
  ultimately show ?thesis using w by (simp add: world_inv_def tw_inv_def)
qed

lemma spawn_world_inv:
  assumes w: "world_inv w" and sp: "spawn_task env (Some start) entry pml4 priv ust w = Inr (r, w')"
    and c: "canonical (start + STACK_SIZE)" and n: "next_id w \<noteq> - 1"
  shows "world_inv w'"
proof -
  have fit: "start + STACK_SIZE < 2 ^ 64" using c by (auto simp: canonical_def)
  from w have "tw_inv w" by (simp add: world_inv_def)
  from spawn_task_ok [OF this fit n, of env entry pml4 priv ust] sp obtain t where
    "tw_inv w'" and t: "task_of (manager w') = (task_of (manager w))(next_id w \<mapsto> t)" by auto
  moreover have "stack_end t = start + STACK_SIZE"
  proof -
    obtain u :: "'a task" and m' where u: "Task_new env (Some start) entry pml4 priv ust
        (current_task (manager w)) (next_id w, kmem w) = Inr (Inr u, (next_id w + 1, m'))"
      and s: "stack_end u = start + STACK_SIZE" "task_id u = next_id w"
      using Task_new_ok [OF fit, of env entry pml4 priv ust "current_task (manager w)" "next_id w" "kmem w"]
      by (elim exE conjE) (rule that, assumption, simp_all)
    have "task_of (manager w') (next_id w) = Some u"
      using sp u s(2) by (auto simp: spawn_task_def register_task_def)
    with t s(1) show ?thesis by simp
  qed
  ultimately show ?thesis
    using w c by (auto simp: world_inv_def tasks_canonical_def)
qed

lemma task_step_inv:
  assumes "task_step env w w'" and w: "world_inv w"
  shows "world_inv w'"
  using assms(1)
proof cases
  case (tick tm tss c sw r)
  then show ?thesis using tick_world_inv [OF w] by blast
next
  case (spawn start entry pml4 priv ust r)
  then show ?thesis using spawn_world_inv [OF w] by blast
next
  case (spawn_failed entry pml4 priv ust r)
  then have "manager w' = manager w" "next_id w' = next_id w + 1"
    by (auto simp: spawn_task_def Task_new_def Let_def)
  then show ?thesis
    using w word_less_inc [OF spawn_failed(2)] by (auto simp: world_inv_def tw_inv_def less_imp_le)
next
  case reap
  have inv: "tm_inv (manager w)" using w by (simp add: world_inv_def tw_inv_def)
  show ?thesis
    using reaper_round_ok [OF inv] w reap
    by (auto simp: world_inv_def tw_inv_def tasks_canonical_def split: if_splits)
qed (use w same_registry_world_inv [OF w] in \<open>auto simp: manager_registry_fields world_inv_def tw_inv_def
      block_current_task_inv wait_for_child_inv unblock_task_inv exit_current_task_inv\<close>)

lemma task_reachable_inv: "task_reachable env w \<Longrightarrow> world_inv w"
proof (induction rule: task_reachable.induct)
  case (boot m)
  then show ?case
    by (simp add: world_inv_def tw_inv_def tm_inv_empty tasks_canonical_def) (simp add: TaskManager_empty_def)
next
  case (step w w')
  then show ?case using task_step_inv by blast
qed

section \<open>Properties\<close>

text \<open>
  C2: from boot, any interleaving of timer ticks, task creation (also with a failed stack
  allocation), blocking, waiting for a child, waking, exiting and reaping keeps the task
  manager consistent: the ready queue holds each ready task once and only ready tasks,
  every ready task is queued or current, registry and state map have the same tasks, the
  current task is never dead or forgotten, and identifiers are not reused.
\<close>

theorem task_manager_stays_consistent:
  assumes "task_reachable env w"
  shows "tw_inv w \<and> tasks_canonical (manager w)"
  using task_reachable_inv [OF assms] by (simp add: world_inv_def)

text \<open>
  C6: the scheduler is fair. The task at position \<open>i\<close> of the ready queue is running after
  exactly \<open>i + 1\<close> ticks, whatever the saved stack pointers are; no tick panics.
\<close>

theorem ready_task_runs_in_turn:
  assumes "tm_inv tm" and "tasks_canonical tm" and "i < length (ready_queue tm)" and "length rs = Suc i"
  shows "\<exists>tm'. run_ticks rs tm = Inr tm' \<and> current_task tm' = Some (ready_queue tm ! i) \<and> tm_inv tm'"
  by (rule run_ticks_position [OF assms])


text \<open>
  A round of the reaper removes exactly the dead tasks, hands back each of them once,
  wakes exactly the blocked parents of reaped children, and leaves every other task alone.
\<close>

theorem reaper_removes_exactly_the_dead:
  assumes "tm_inv tm"
  shows "tm_inv (snd (reaper_round tm))
    \<and> map Some (fst (reaper_round tm)) = map (task_of tm) (dead_tasks tm)
    \<and> (\<forall>i. task_of (snd (reaper_round tm)) i = (if state_of tm i = Some Dead then None else task_of tm i))
    \<and> (\<forall>i. state_of (snd (reaper_round tm)) i =
         (if state_of tm i = Some Dead then None
          else if state_of tm i = Some Blocked
                  \<and> (\<exists>d t. state_of tm d = Some Dead \<and> task_of tm d = Some t \<and> parent_id t = Some i)
          then Some Ready else state_of tm i))"
proof -
  have ok: "bt_ok (task_states tm)" using assms by (simp add: tm_inv_def)
  have "\<forall>i \<in> set (dead_tasks tm). state_of tm i = Some Dead"
    by (simp add: dead_tasks_iff [OF ok])
  note p = purge_ok [OF assms distinct_dead_tasks [OF ok] this]
  show ?thesis
    using p unfolding reaper_round_def by (simp add: dead_tasks_iff [OF ok] Bex_def)
qed

section \<open>Witnesses\<close>

definition demo_task :: "u64 \<Rightarrow> unit task" where
  "demo_task i = \<lparr>task_id = i, parent_id = None, task_rsp = 0x8000, pml4_frame = 0x3000, stack_start = 0x1000,
     stack_end = 0x11000, privilege = UserMode, heap_start = 0x200000000, program_break = 0x200000000,
     mmap_base = 0x400000000000, fd_table = FdTable_new\<rparr>"

definition demo_manager :: "unit task_manager" where
  "demo_manager = \<lparr>ready_queue = [2, 1], task_registry = [(1, demo_task 1), (2, demo_task 2), (3, demo_task 3)],
     task_states = [(1, Ready), (2, Ready), (3, Dead)], current_task = None, ticks = 0\<rparr>"

lemma demo_manager_ok: "tm_inv demo_manager" "tasks_canonical demo_manager"
  by (auto simp: tm_inv_def demo_manager_def demo_task_def tasks_canonical_def canonical_def split: if_splits)

theorem ready_task_runs_in_turn_witness:
  "tm_inv demo_manager \<and> ready_queue demo_manager ! 1 = 1
   \<and> (\<exists>tm'. run_ticks [0x100, 0x200] demo_manager = Inr tm' \<and> current_task tm' = Some 1)"
  using demo_manager_ok ready_task_runs_in_turn [OF demo_manager_ok, of 1 "[0x100, 0x200]"]
  by (auto simp: demo_manager_def)

definition demo_sched :: "unit sched" where
  "demo_sched = \<lparr>sman = demo_manager, boot_rsp = 0, tss_rsp0 = 0, kernel_rsp = 0, cr3 = 0, eoi_count = 0,
     scpu = demo_cpu, smem = (\<lambda>_. 0)\<rparr>"


theorem reaper_removes_exactly_the_dead_witness:
  "tm_inv demo_manager \<and> map Some (fst (reaper_round demo_manager)) = [Some (demo_task 3)]
   \<and> task_of (snd (reaper_round demo_manager)) 1 = Some (demo_task 1)"
  using demo_manager_ok reaper_removes_exactly_the_dead [OF demo_manager_ok(1)]
  by (auto simp: demo_manager_def dead_tasks_def)

theorem task_manager_stays_consistent_witness:
  "\<exists>(w :: unit task_world) w'. task_reachable demo_env w \<and> task_step demo_env w w' \<and> tw_inv w'
     \<and> ready_queue (manager w') = [1]"
proof -
  let ?w = "\<lparr>manager = TaskManager_empty, next_id = 1, kmem = (\<lambda>_. 0)\<rparr> :: unit task_world"
  have r: "task_reachable demo_env ?w" by (rule task_reachable.boot)
  have inv: "tw_inv ?w" using task_reachable_inv [OF r] by (simp add: world_inv_def)
  obtain w' t where w': "spawn_task demo_env (Some 0x10000) 0x400000 0x5000 UserMode 0x7000 ?w = Inr (Inr 1, w')"
      "ready_queue (manager w') = [1]"
    using spawn_task_ok [OF inv, of "0x10000" demo_env "0x400000" "0x5000" UserMode "0x7000"]
    by (auto simp: STACK_SIZE_def TaskManager_empty_def)
  have st: "task_step demo_env ?w w'"
    by (rule task_step.spawn [OF w'(1)]) (simp_all add: canonical_def STACK_SIZE_def)
  have r': "task_reachable demo_env w'" by (rule task_reachable.step [OF r st])
  show ?thesis using r st w'(2) task_manager_stays_consistent [OF r'] by blast
qed

end
