(* ===== verification/Address_Space.thy ===== *)
theory Address_Space
  imports Frame_Allocator Kernel_Error
begin

text \<open>
  The paging half of \<^verbatim>\<open>src/mm/memory.rs\<close>: cloning and building PML4 tables, the manual walk
  behind pointer checks, copy-on-write, mapping of user pages, and the teardown of an
  address space. Page tables live in physical memory as the processor defines them. The
  \<^verbatim>\<open>OffsetPageTable\<close> mapper of the \<^verbatim>\<open>x86_64\<close> crate is a parameter. The main result is that teardown
  releases every reference the user half holds exactly once.
\<close>

section \<open>Page table entries\<close>

definition PRESENT :: u64 where "PRESENT = 1"
definition WRITABLE :: u64 where "WRITABLE = 2"
definition USER :: u64 where "USER = 4"
definition HUGE :: u64 where "HUGE = 0x80"
definition PHYS_MASK :: u64 where "PHYS_MASK = 0xFFFFFFFFFF000"

definition entry_at :: "nat \<Rightarrow> nat \<Rightarrow> memory \<Rightarrow> u64" where
  "entry_at table i m = peek64 (table + 8 * i) m"

definition set_entry :: "nat \<Rightarrow> nat \<Rightarrow> u64 \<Rightarrow> memory \<Rightarrow> memory" where
  "set_entry table i e m = poke64 (table + 8 * i) e m"

definition entry_addr :: "u64 \<Rightarrow> nat" where
  "entry_addr e = unat (e AND PHYS_MASK)"

definition entry_user :: "u64 \<Rightarrow> bool" where
  "entry_user e \<longleftrightarrow> e AND USER \<noteq> 0"

definition entry_huge :: "u64 \<Rightarrow> bool" where
  "entry_huge e \<longleftrightarrow> e AND HUGE \<noteq> 0"

text \<open>The index of an address at a level, 4 for the PML4.\<close>

definition level_index :: "nat \<Rightarrow> nat \<Rightarrow> nat" where
  "level_index level va = va div 2 ^ (12 + 9 * (level - 1)) mod 512"

section \<open>Reference counting helpers\<close>

definition cow_reference_frame :: "nat \<Rightarrow> phys_memory \<Rightarrow> phys_memory run" where
  "cow_reference_frame p s = bindR (reference_frame p (falloc s)) (\<lambda>a. Inr (s\<lparr>falloc := a\<rparr>))"

definition cow_deallocate_frame :: "nat \<Rightarrow> phys_memory \<Rightarrow> phys_memory run" where
  "cow_deallocate_frame p s = bindR (deallocate_frame p (falloc s)) (\<lambda>a. Inr (s\<lparr>falloc := a\<rparr>))"

definition cow_get_ref_count :: "nat \<Rightarrow> phys_memory \<Rightarrow> u16 run" where
  "cow_get_ref_count p s = get_ref_count p (falloc s)"

section \<open>Building a PML4\<close>

text \<open>Copying the upper half of a table, then the entries of the lower half a filter keeps.\<close>

definition copy_entries :: "(u64 \<Rightarrow> bool) \<Rightarrow> nat \<Rightarrow> nat \<Rightarrow> nat list \<Rightarrow> memory \<Rightarrow> memory" where
  "copy_entries keep src dst =
     fold (\<lambda>i m. if keep (entry_at src i m) then set_entry dst i (entry_at src i m) m else m)"

definition copy_pml4 :: "(u64 \<Rightarrow> bool) \<Rightarrow> nat \<Rightarrow> nat \<Rightarrow> memory \<Rightarrow> memory" where
  "copy_pml4 keep src dst m =
     copy_entries keep src dst [0 ..< 256]
       (copy_entries (\<lambda>_. True) src dst [256 ..< 512] (fill_ram dst 4096 0 m))"

definition isolate_and_init_paging :: "nat option \<Rightarrow> nat \<Rightarrow> nat \<Rightarrow> phys_memory \<Rightarrow> (nat \<times> phys_memory) run" where
  "isolate_and_init_paging hhdm_response physical_memory_offset cr3 s =
     bindR (virt_add physical_memory_offset cr3) (\<lambda>_.
     bindR (system_allocate_frame hhdm_response s) (\<lambda>(r, s1).
     bindR (expectR r) (\<lambda>new_pml4.
     bindR (virt_add physical_memory_offset new_pml4) (\<lambda>_.
     Inr (new_pml4, s1\<lparr>ram := copy_pml4 (\<lambda>e. e \<noteq> 0) cr3 new_pml4 (ram s1)\<rparr>)))))"

definition create_isolated_pml4 :: "nat option \<Rightarrow> nat \<Rightarrow> phys_memory \<Rightarrow> (nat option \<times> phys_memory) run" where
  "create_isolated_pml4 hhdm_response cr3 s =
     bindR (system_allocate_frame hhdm_response s) (\<lambda>(r, s1).
     case r of
       None \<Rightarrow> Inr (None, s1)
     | Some new_frame \<Rightarrow>
         bindR (expectR hhdm_response) (\<lambda>hhdm_offset.
         bindR (virt_addr hhdm_offset) (\<lambda>phys_offset.
         bindR (virt_add phys_offset new_frame) (\<lambda>_.
         bindR (virt_add phys_offset cr3) (\<lambda>_.
         Inr (Some new_frame,
              s1\<lparr>ram := copy_pml4 (\<lambda>e. e \<noteq> 0 \<and> \<not> entry_user e) cr3 new_frame (ram s1)\<rparr>))))))"

section \<open>The manual walk\<close>

definition read_entry :: "nat \<Rightarrow> nat \<Rightarrow> nat \<Rightarrow> memory \<Rightarrow> u64 run" where
  "read_entry hhdm_offset phys_addr index m =
     bindR (add64 phys_addr hhdm_offset) (\<lambda>v.
     bindR (add64 v (index * 8)) (\<lambda>virt.
     Inr (entry_at (v - hhdm_offset) index m)))"

definition is_user_page_mapped :: "nat option \<Rightarrow> nat \<Rightarrow> nat \<Rightarrow> memory \<Rightarrow> bool run" where
  "is_user_page_mapped hhdm_response cr3 addr m =
     bindR (expectR hhdm_response) (\<lambda>hhdm_offset.
     bindR (read_entry hhdm_offset cr3 (level_index 4 addr) m) (\<lambda>p4_entry.
     if p4_entry AND PRESENT = 0 then Inr False
     else
       bindR (read_entry hhdm_offset (entry_addr p4_entry) (level_index 3 addr) m) (\<lambda>p3_entry.
       if p3_entry AND PRESENT = 0 then Inr False
       else if p3_entry AND HUGE \<noteq> 0 then Inr (p3_entry AND USER \<noteq> 0)
       else
         bindR (read_entry hhdm_offset (entry_addr p3_entry) (level_index 2 addr) m) (\<lambda>p2_entry.
         if p2_entry AND PRESENT = 0 then Inr False
         else if p2_entry AND HUGE \<noteq> 0 then Inr (p2_entry AND USER \<noteq> 0)
         else
           bindR (read_entry hhdm_offset (entry_addr p2_entry) (level_index 1 addr) m) (\<lambda>p1_entry.
           if p1_entry AND PRESENT = 0 then Inr False
           else Inr (p1_entry AND USER \<noteq> 0))))))"

section \<open>The mapper of the x86_64 crate\<close>

text \<open>
  The operations of \<^verbatim>\<open>OffsetPageTable\<close> on the tables under a PML4. \<open>mp_map_to\<close> takes the frame
  allocator it may call; its Boolean result is false for an error.
\<close>

record mapper =
  mp_translate_addr :: "nat \<Rightarrow> nat \<Rightarrow> memory \<Rightarrow> nat option"
  mp_translate_flags :: "nat \<Rightarrow> nat \<Rightarrow> memory \<Rightarrow> u64 option"
  mp_translate_page :: "nat \<Rightarrow> nat \<Rightarrow> memory \<Rightarrow> nat option"
  mp_update_flags :: "nat \<Rightarrow> nat \<Rightarrow> u64 \<Rightarrow> memory \<Rightarrow> memory option"
  mp_unmap :: "nat \<Rightarrow> nat \<Rightarrow> memory \<Rightarrow> memory option"
  mp_map_to :: "(phys_memory \<Rightarrow> (nat option \<times> phys_memory) run) \<Rightarrow> nat \<Rightarrow> nat \<Rightarrow> nat \<Rightarrow> u64
     \<Rightarrow> phys_memory \<Rightarrow> (bool \<times> phys_memory) run"

text \<open>The page table pointer every caller forms before it makes a mapper.\<close>

definition mapper_for :: "nat option \<Rightarrow> nat \<Rightarrow> nat run" where
  "mapper_for hhdm_response pml4 =
     bindR (expectR hhdm_response) (\<lambda>hhdm_offset.
     bindR (virt_addr hhdm_offset) (\<lambda>phys_mem_offset.
     bindR (virt_add phys_mem_offset pml4) (\<lambda>_. Inr phys_mem_offset)))"

definition translate_in_pml4 :: "mapper \<Rightarrow> nat option \<Rightarrow> nat \<Rightarrow> nat \<Rightarrow> memory \<Rightarrow> nat option run" where
  "translate_in_pml4 mp hhdm_response target_pml4 va m =
     bindR (mapper_for hhdm_response target_pml4) (\<lambda>_. Inr (mp_translate_addr mp target_pml4 va m))"

definition translate_addr :: "mapper \<Rightarrow> nat option \<Rightarrow> nat \<Rightarrow> nat \<Rightarrow> memory \<Rightarrow> nat option run" where
  "translate_addr mp hhdm_response cr3 va m =
     bindR (mapper_for hhdm_response cr3) (\<lambda>_. Inr (mp_translate_addr mp cr3 va m))"

text \<open>\<^verbatim>\<open>copy_nonoverlapping\<close> of 4096 bytes between physical addresses reached by the direct map.\<close>

definition copy_frame :: "nat \<Rightarrow> nat \<Rightarrow> memory \<Rightarrow> memory run" where
  "copy_frame src dst m =
     bindR (assertR (src + 4096 \<le> dst \<or> dst + 4096 \<le> src) UndefinedBehaviour) (\<lambda>_.
     Inr (write_ram dst (read_ram src 4096 m) m))"

definition resolve_cow_fault :: "mapper \<Rightarrow> nat option \<Rightarrow> nat \<Rightarrow> nat \<Rightarrow> phys_memory \<Rightarrow> (bool \<times> phys_memory) run" where
  "resolve_cow_fault mp hhdm_response cr3 fault_addr s =
     bindR (mapper_for hhdm_response cr3) (\<lambda>phys_mem_offset.
     let page = align_down 4096 fault_addr in
     case mp_translate_addr mp cr3 fault_addr (ram s) of
       None \<Rightarrow> Inr (False, s)
     | Some phys_addr \<Rightarrow>
     (case mp_translate_flags mp cr3 fault_addr (ram s) of
       None \<Rightarrow> Inr (False, s)
     | Some current_flags \<Rightarrow>
     bindR (cow_get_ref_count phys_addr s) (\<lambda>ref_count.
     if ref_count = 0 then Inr (False, s)
     else if ref_count = 1
     then bindR (expectR (mp_update_flags mp cr3 page (current_flags OR WRITABLE) (ram s))) (\<lambda>m.
          Inr (True, s\<lparr>ram := m\<rparr>))
     else
       bindR (allocate_frame (falloc s)) (\<lambda>(r, a).
       case r of
         None \<Rightarrow> Inr (False, s\<lparr>falloc := a\<rparr>)
       | Some new_frame_addr \<Rightarrow>
           bindR (assertR (new_frame_addr < 2 ^ 52) ExplicitPanic) (\<lambda>_.
           bindR (virt_add phys_mem_offset phys_addr) (\<lambda>_.
           bindR (virt_add phys_mem_offset new_frame_addr) (\<lambda>_.
           bindR (copy_frame phys_addr new_frame_addr (ram s)) (\<lambda>m1.
           bindR (expectR (mp_unmap mp cr3 page m1)) (\<lambda>m2.
           bindR (mp_map_to mp (system_allocate_frame hhdm_response) cr3 page (align_down 4096 new_frame_addr)
                    (current_flags OR WRITABLE) \<lparr>falloc = a, ram = m2\<rparr>) (\<lambda>(mapped, s3).
           bindR (assertR mapped ExpectFailed) (\<lambda>_.
           bindR (cow_deallocate_frame phys_addr s3) (\<lambda>s4. Inr (True, s4)))))))))))))"

definition allocate_and_map_user_page ::
    "mapper \<Rightarrow> nat option \<Rightarrow> nat \<Rightarrow> nat \<Rightarrow> (phys_memory, KernelError, unit) kop" where
  "allocate_and_map_user_page mp hhdm_response target_pml4 va = (\<lambda>s.
     bindR (mapper_for hhdm_response target_pml4) (\<lambda>phys_mem_offset.
     let page = align_down 4096 va in
     if mp_translate_page mp target_pml4 page (ram s) \<noteq> None then Inr (Inr (), s)
     else
       bindR (allocate_frame (falloc s)) (\<lambda>(r, a).
       case r of
         None \<Rightarrow> Inr (Inl (KMemory OutOfFrames), s\<lparr>falloc := a\<rparr>)
       | Some frame_addr \<Rightarrow>
           bindR (assertR (frame_addr < 2 ^ 52) ExplicitPanic) (\<lambda>_.
           bindR (mp_map_to mp (system_allocate_frame hhdm_response) target_pml4 page (align_down 4096 frame_addr)
                    (PRESENT OR WRITABLE OR USER) (s\<lparr>falloc := a\<rparr>)) (\<lambda>(mapped, s1).
           if \<not> mapped then Inr (Inl (KMemory InvalidMapping), s1)
           else bindR (virt_add phys_mem_offset frame_addr) (\<lambda>_.
                Inr (Inr (), s1\<lparr>ram := fill_ram frame_addr 4096 0 (ram s1)\<rparr>)))))))"

section \<open>Teardown\<close>

text \<open>
  One iteration of the four nested loops: \<open>sub\<close> is the work on the table an entry points to,
  \<open>huge\<close> says whether this level tests for huge pages. The entry is read again after \<open>sub\<close>, as the
  code does through its reference.
\<close>

definition release_entry ::
    "(nat \<Rightarrow> phys_memory \<Rightarrow> phys_memory run) \<Rightarrow> bool \<Rightarrow> nat \<Rightarrow> nat \<Rightarrow> phys_memory \<Rightarrow> phys_memory run" where
  "release_entry sub huge table i s =
     (let e = entry_at table i (ram s) in
      if e \<noteq> 0 \<and> entry_user e
      then bindR (if huge \<and> entry_huge e then Inr s else sub (entry_addr e) s) (\<lambda>s1.
           bindR (cow_deallocate_frame (entry_addr (entry_at table i (ram s1))) s1) (\<lambda>s2.
           Inr (s2\<lparr>ram := set_entry table i 0 (ram s2)\<rparr>)))
      else Inr s)"

definition destroy_pt :: "nat \<Rightarrow> nat \<Rightarrow> phys_memory \<Rightarrow> phys_memory run" where
  "destroy_pt phys_mem_offset pt s =
     bindR (virt_add phys_mem_offset pt) (\<lambda>_.
     foldR (release_entry (\<lambda>_ s. Inr s) False pt) [0 ..< 512] s)"

definition destroy_pd :: "nat \<Rightarrow> nat \<Rightarrow> phys_memory \<Rightarrow> phys_memory run" where
  "destroy_pd phys_mem_offset pd s =
     bindR (virt_add phys_mem_offset pd) (\<lambda>_.
     foldR (release_entry (destroy_pt phys_mem_offset) True pd) [0 ..< 512] s)"

definition destroy_pdpt :: "nat \<Rightarrow> nat \<Rightarrow> phys_memory \<Rightarrow> phys_memory run" where
  "destroy_pdpt phys_mem_offset pdpt s =
     bindR (virt_add phys_mem_offset pdpt) (\<lambda>_.
     foldR (release_entry (destroy_pd phys_mem_offset) True pdpt) [0 ..< 512] s)"

definition destroy_user_address_space :: "nat option \<Rightarrow> nat \<Rightarrow> phys_memory \<Rightarrow> phys_memory run" where
  "destroy_user_address_space hhdm_response pml4 s =
     bindR (mapper_for hhdm_response pml4) (\<lambda>phys_mem_offset.
     bindR (foldR (release_entry (destroy_pdpt phys_mem_offset) False pml4) [0 ..< 256] s) (\<lambda>s1.
     cow_deallocate_frame pml4 s1))"

section \<open>Entries and frames\<close>

lemma entry_at_cong: "(\<And>x. t + 8 * i \<le> x \<Longrightarrow> x < t + 8 * i + 8 \<Longrightarrow> m' x = m x) \<Longrightarrow> entry_at t i m' = entry_at t i m"
  unfolding entry_at_def by (rule peek64_cong) auto

lemma entry_at_frame:
  "i < 512 \<Longrightarrow> (\<And>x. t \<le> x \<Longrightarrow> x < t + 4096 \<Longrightarrow> m' x = m x) \<Longrightarrow> entry_at t i m' = entry_at t i m"
  by (rule entry_at_cong) auto

lemma entry_set_same [simp]: "entry_at t i (set_entry t i e m) = e"
  by (simp add: entry_at_def set_entry_def)

lemma entry_set_other [simp]: "i \<noteq> j \<Longrightarrow> entry_at t i (set_entry t j e m) = entry_at t i m"
  unfolding entry_at_def set_entry_def by (rule peek_poke_other) arith

lemma set_entry_outside: "x < t + 8 * i \<or> t + 8 * i + 8 \<le> x \<Longrightarrow> set_entry t i e m x = m x"
  unfolding set_entry_def by (rule poke64_other) auto

section \<open>Copies of a PML4\<close>

lemma copy_entries_ok:
  assumes "src + 4096 \<le> dst \<or> dst + 4096 \<le> src" and "\<forall>i \<in> set xs. i < 512" and "distinct xs"
  shows "(\<forall>x. x < dst \<or> dst + 4096 \<le> x \<longrightarrow> copy_entries keep src dst xs m x = m x)
    \<and> (\<forall>i < 512. entry_at dst i (copy_entries keep src dst xs m)
         = (if i \<in> set xs \<and> keep (entry_at src i m) then entry_at src i m else entry_at dst i m))"
  using assms(2,3)
proof (induction xs arbitrary: m)
  case Nil
  then show ?case by (simp add: copy_entries_def)
next
  case (Cons j xs)
  define m1 where "m1 = (if keep (entry_at src j m) then set_entry dst j (entry_at src j m) m else m)"
  have j: "j < 512" using Cons.prems by simp
  have out: "m1 x = m x" if "x < dst \<or> dst + 4096 \<le> x" for x
    using that j by (auto simp: m1_def set_entry_outside)
  have s: "entry_at src i m1 = entry_at src i m" if "i < 512" for i
    using assms(1) out that by (intro entry_at_frame) auto
  have d: "entry_at dst i m1 = (if i = j \<and> keep (entry_at src i m) then entry_at src i m else entry_at dst i m)" for i
    by (cases "i = j") (simp_all add: m1_def)
  have c: "copy_entries keep src dst (j # xs) m = copy_entries keep src dst xs m1"
    by (simp add: copy_entries_def m1_def)
  show ?case
    unfolding c using Cons.IH [of m1] Cons.prems out s d by auto
qed

lemma copy_pml4_ok:
  assumes ap: "src + 4096 \<le> dst \<or> dst + 4096 \<le> src"
  shows "x < dst \<or> dst + 4096 \<le> x \<Longrightarrow> copy_pml4 keep src dst m x = m x"
    and "i < 512 \<Longrightarrow> entry_at dst i (copy_pml4 keep src dst m)
      = (if 256 \<le> i \<or> keep (entry_at src i m) then entry_at src i m else 0)"
proof -
  define m0 where "m0 = fill_ram dst 4096 0 m"
  define K L :: "nat list" where "K = [256 ..< 512]" and "L = [0 ..< 256]"
  have K: "\<forall>i \<in> set K. i < 512" "distinct K" "i \<in> set K \<longleftrightarrow> 256 \<le> i \<and> i < 512" for i
    unfolding K_def L_def set_upt by (auto simp del: upt_rec_numeral)
  have L: "\<forall>i \<in> set L. i < 512" "distinct L" "i \<in> set L \<longleftrightarrow> i < 256" for i
    unfolding K_def L_def set_upt by (auto simp del: upt_rec_numeral)
  define m1 where "m1 = copy_entries (\<lambda>_. True) src dst K m0"
  have c: "copy_pml4 keep src dst m = copy_entries keep src dst L m1"
    by (simp only: copy_pml4_def m0_def m1_def K_def L_def)
  note F1 = copy_entries_ok [OF ap K(1,2), of "\<lambda>_. True" m0, folded m1_def]
  note F2 = copy_entries_ok [OF ap L(1,2), of keep m1, folded c]
  have o0: "m0 x = m x" if "x < dst \<or> dst + 4096 \<le> x" for x
    using that by (auto simp: m0_def fill_ram_def)
  have f1: "m1 x = m0 x" if "x < dst \<or> dst + 4096 \<le> x" for x
    using F1 that by blast
  have s: "entry_at src i m1 = entry_at src i m" "entry_at src i m0 = entry_at src i m" if "i < 512" for i
    using ap o0 f1 that by (intro entry_at_frame; auto)+
  have z: "entry_at dst i m0 = 0" if "i < 512" for i
  proof -
    have "read_ram (dst + 8 * i) 8 m0 = replicate 8 0"
      using that unfolding m0_def by (intro read_fill_ram) auto
    then show ?thesis by (simp add: entry_at_def peek64_def numeral_eq_Suc)
  qed
  have e1: "entry_at dst i m1 = (if 256 \<le> i then entry_at src i m else 0)" if "i < 512" for i
    using F1 that s z K(3) by simp
  show "copy_pml4 keep src dst m x = m x" if "x < dst \<or> dst + 4096 \<le> x" for x
    using F2 f1 o0 that by metis
  show "entry_at dst i (copy_pml4 keep src dst m)
      = (if 256 \<le> i \<or> keep (entry_at src i m) then entry_at src i m else 0)" if "i < 512"
    using F2 e1 s that L(3) by simp
qed

section \<open>What an address space owns\<close>

definition live :: "u64 \<Rightarrow> bool" where
  "live e \<longleftrightarrow> e \<noteq> 0 \<and> entry_user e"

text \<open>
  The references held below the entries of a table, in the order teardown reaches them: what
  \<open>f\<close> finds below the table an entry points to, then the entry itself. \<open>sub_tables\<close> lists the
  tables themselves.
\<close>

definition owned_entries :: "(memory \<Rightarrow> nat \<Rightarrow> nat list) \<Rightarrow> bool \<Rightarrow> nat \<Rightarrow> nat list \<Rightarrow> memory \<Rightarrow> nat list" where
  "owned_entries f huge t idxs m = concat (map (\<lambda>i. let e = entry_at t i m in
     if live e then (if huge \<and> entry_huge e then [] else f m (entry_addr e)) @ [entry_addr e] else []) idxs)"

definition sub_tables :: "(memory \<Rightarrow> nat \<Rightarrow> nat list) \<Rightarrow> bool \<Rightarrow> nat \<Rightarrow> nat list \<Rightarrow> memory \<Rightarrow> nat list" where
  "sub_tables g huge t idxs m = concat (map (\<lambda>i. let e = entry_at t i m in
     if live e \<and> \<not> (huge \<and> entry_huge e) then g m (entry_addr e) else []) idxs)"

definition owned1 :: "memory \<Rightarrow> nat \<Rightarrow> nat list" where
  "owned1 m t = owned_entries (\<lambda>_ _. []) False t [0 ..< 512] m"
definition owned2 :: "memory \<Rightarrow> nat \<Rightarrow> nat list" where
  "owned2 m t = owned_entries owned1 True t [0 ..< 512] m"
definition owned3 :: "memory \<Rightarrow> nat \<Rightarrow> nat list" where
  "owned3 m t = owned_entries owned2 True t [0 ..< 512] m"
definition owned4 :: "memory \<Rightarrow> nat \<Rightarrow> nat list" where
  "owned4 m t = owned_entries owned3 False t [0 ..< 256] m @ [t]"

definition tables1 :: "memory \<Rightarrow> nat \<Rightarrow> nat list" where
  "tables1 m t = t # sub_tables (\<lambda>_ _. []) False t [0 ..< 512] m"
definition tables2 :: "memory \<Rightarrow> nat \<Rightarrow> nat list" where
  "tables2 m t = t # sub_tables tables1 True t [0 ..< 512] m"
definition tables3 :: "memory \<Rightarrow> nat \<Rightarrow> nat list" where
  "tables3 m t = t # sub_tables tables2 True t [0 ..< 512] m"
definition tables4 :: "memory \<Rightarrow> nat \<Rightarrow> nat list" where
  "tables4 m t = t # sub_tables tables3 False t [0 ..< 256] m"

definition area :: "nat list \<Rightarrow> nat set" where
  "area ts = (\<Union>t \<in> set ts. {t ..< t + 4096})"

text \<open>Page tables in distinct frames that the direct map reaches.\<close>

definition tables_ok :: "nat \<Rightarrow> nat list \<Rightarrow> bool" where
  "tables_ok hhdm ts \<longleftrightarrow> distinct ts
     \<and> (\<forall>t \<in> set ts. 4096 dvd t \<and> hhdm + t < 2 ^ 64 \<and> canonical (hhdm + t))"

lemma aligned_disjoint:
  assumes "4096 dvd (t :: nat)" and "4096 dvd u" and "t \<noteq> u"
  shows "{t ..< t + 4096} \<inter> {u ..< u + 4096} = {}"
proof -
  obtain a b where "t = 4096 * a" "u = 4096 * b" using assms(1,2) by (auto elim!: dvdE)
  then show ?thesis using assms(3) by (cases "a < b") auto
qed

lemma area_disjoint:
  assumes "tables_ok hhdm (ts @ us)" shows "area ts \<inter> area us = {}"
proof -
  have "{t ..< t + 4096} \<inter> {u ..< u + 4096} = {}" if "t \<in> set ts" "u \<in> set us" for t u
    using assms that by (intro aligned_disjoint) (auto simp: tables_ok_def)
  then show ?thesis unfolding area_def by blast
qed

lemma area_simps [simp]: "area [] = {}" "area (t # ts) = {t ..< t + 4096} \<union> area ts" "area (ts @ us) = area ts \<union> area us"
  by (auto simp: area_def)

text \<open>
  The contract of one level of teardown: it releases the references \<open>f\<close> lists, in order, and
  touches only the tables \<open>g\<close> lists; both lists depend only on the contents of those tables.
\<close>

definition releases ::
    "nat \<Rightarrow> (nat \<Rightarrow> phys_memory \<Rightarrow> phys_memory run) \<Rightarrow> (memory \<Rightarrow> nat \<Rightarrow> nat list) \<Rightarrow> (memory \<Rightarrow> nat \<Rightarrow> nat list) \<Rightarrow> bool" where
  "releases hhdm sub f g \<longleftrightarrow>
     (\<forall>t s. tables_ok hhdm (g (ram s) t) \<longrightarrow>
        (\<exists>r. sub t s = bindR (foldR deallocate_frame (f (ram s) t) (falloc s)) (\<lambda>a. Inr \<lparr>falloc = a, ram = r\<rparr>)
           \<and> (\<forall>x. x \<notin> area (g (ram s) t) \<longrightarrow> r x = ram s x)))
     \<and> (\<forall>t m m'. (\<forall>x \<in> area (g m t). m' x = m x) \<longrightarrow> f m' t = f m t \<and> g m' t = g m t)"

lemma releases_nothing: "releases hhdm (\<lambda>_ s. Inr s) (\<lambda>_ _. []) (\<lambda>_ _. [])"
  by (simp add: releases_def) (metis phys_memory.surjective old.unit.exhaust)

lemma owned_cong:
  assumes rel: "releases hhdm sub f g" and i: "\<forall>i \<in> set idxs. i < 512"
    and eq: "\<forall>i \<in> set idxs. entry_at t i m' = entry_at t i m"
    and sub: "\<forall>x \<in> area (sub_tables g huge t idxs m). m' x = m x"
  shows "owned_entries f huge t idxs m' = owned_entries f huge t idxs m
    \<and> sub_tables g huge t idxs m' = sub_tables g huge t idxs m"
  using eq sub
proof (induction idxs)
  case Nil
  then show ?case by (simp add: owned_entries_def sub_tables_def)
next
  case (Cons i idxs)
  have "f m' u = f m u \<and> g m' u = g m u" if "\<forall>x \<in> area (g m u). m' x = m x" for u
    using rel that unfolding releases_def by blast
  then show ?case
    using Cons by (auto simp: owned_entries_def sub_tables_def Let_def)
qed

lemma tables_ok_tail:
  "tables_ok hhdm (t # us @ vs) \<Longrightarrow> tables_ok hhdm (t # vs) \<and> tables_ok hhdm us \<and> tables_ok hhdm (us @ vs) \<and> tables_ok hhdm (us @ [t])"
  by (auto simp: tables_ok_def)

text \<open>One entry: its references go, memory changes in the tables below it and in the entry.\<close>

lemma release_entry_ok:
  assumes rel: "releases hhdm sub f g" and i: "i < 512"
    and tok: "tables_ok hhdm (t # sub_tables g huge t [i] (ram s))"
  shows "\<exists>r. release_entry sub huge t i s
      = bindR (foldR deallocate_frame (owned_entries f huge t [i] (ram s)) (falloc s)) (\<lambda>a. Inr \<lparr>falloc = a, ram = r\<rparr>)
    \<and> (\<forall>x. x \<notin> area (sub_tables g huge t [i] (ram s)) \<and> (x < t + 8 * i \<or> t + 8 * i + 8 \<le> x) \<longrightarrow> r x = ram s x)"
proof -
  define e where "e = entry_at t i (ram s)"
  obtain a m where s: "s = \<lparr>falloc = a, ram = m\<rparr>" by (metis phys_memory.surjective old.unit.exhaust)
  show ?thesis
  proof (cases "live e")
    case False
    then show ?thesis
      unfolding s by (intro exI [of _ m])
        (use e_def s in \<open>auto simp: release_entry_def owned_entries_def live_def Let_def\<close>)
  next
    case True
    define F where "F = (if huge \<and> entry_huge e then [] else f m (entry_addr e))"
    define G where "G = (if huge \<and> entry_huge e then [] else g m (entry_addr e))"
    have G: "sub_tables g huge t [i] m = G" and F: "owned_entries f huge t [i] m = F @ [entry_addr e]"
      using True e_def s by (auto simp: sub_tables_def owned_entries_def G_def F_def Let_def)
    have tg: "tables_ok hhdm G" "area G \<inter> {t ..< t + 4096} = {}"
      using tables_ok_tail [of hhdm t G "[]"] area_disjoint [of hhdm G "[t]"] tok G s by auto
    obtain r1 where r1: "(if huge \<and> entry_huge e then Inr s else sub (entry_addr e) s)
        = bindR (foldR deallocate_frame F a) (\<lambda>a. Inr \<lparr>falloc = a, ram = r1\<rparr>)" "\<forall>x. x \<notin> area G \<longrightarrow> r1 x = m x"
    proof (cases "huge \<and> entry_huge e")
      case True
      then show ?thesis using that [of m] by (simp add: F_def s)
    next
      case False
      then have "tables_ok hhdm (g (ram s) (entry_addr e))" using tg(1) by (auto simp: G_def s)
      from rel [unfolded releases_def, THEN conjunct1, rule_format, OF this]
      show ?thesis using that False by (auto simp: F_def G_def s)
    qed
    have e1: "entry_at t i r1 = e"
      unfolding e_def s using i tg(2) r1(2) by (intro entry_at_frame) (auto simp: disjoint_iff)
    have "release_entry sub huge t i s = bindR (foldR deallocate_frame F a) (\<lambda>a1.
        bindR (deallocate_frame (entry_addr e) a1) (\<lambda>a2. Inr \<lparr>falloc = a2, ram = set_entry t i 0 r1\<rparr>))"
      using True r1(1)
      by (simp add: release_entry_def Let_def e_def [symmetric] live_def bindR_assoc e1 cow_deallocate_frame_def)
    also have "\<dots> = bindR (foldR deallocate_frame (F @ [entry_addr e]) a) (\<lambda>a. Inr \<lparr>falloc = a, ram = set_entry t i 0 r1\<rparr>)"
      by (simp add: foldR_append bindR_assoc)
    finally show ?thesis
      using F G r1(2) s by (intro exI [of _ "set_entry t i 0 r1"]) (auto simp: set_entry_outside)
  qed
qed

lemma release_entries_ok:
  assumes rel: "releases hhdm sub f g" and "\<forall>i \<in> set idxs. i < 512" and "distinct idxs"
    and "tables_ok hhdm (t # sub_tables g huge t idxs (ram s))"
  shows "\<exists>r. foldR (release_entry sub huge t) idxs s
      = bindR (foldR deallocate_frame (owned_entries f huge t idxs (ram s)) (falloc s)) (\<lambda>a. Inr \<lparr>falloc = a, ram = r\<rparr>)
    \<and> (\<forall>x. x \<notin> area (sub_tables g huge t idxs (ram s)) \<and> (\<forall>i \<in> set idxs. x < t + 8 * i \<or> t + 8 * i + 8 \<le> x)
         \<longrightarrow> r x = ram s x)"
  using assms(2-)
proof (induction idxs arbitrary: s)
  case Nil
  obtain a m where s: "s = \<lparr>falloc = a, ram = m\<rparr>" by (metis phys_memory.surjective old.unit.exhaust)
  show ?case by (simp add: owned_entries_def s)
next
  case (Cons i idxs)
  let ?G = "sub_tables g huge t [i] (ram s)" and ?H = "sub_tables g huge t idxs (ram s)"
  let ?F = "owned_entries f huge t [i] (ram s)" and ?O = "owned_entries f huge t idxs (ram s)"
  have GH: "sub_tables g huge t (i # idxs) (ram s) = ?G @ ?H" and FO: "owned_entries f huge t (i # idxs) (ram s) = ?F @ ?O"
    by (simp_all add: sub_tables_def owned_entries_def)
  have tk: "tables_ok hhdm (t # ?H)" "tables_ok hhdm (t # ?G)" "area ?G \<inter> area ?H = {}"
      "{t ..< t + 4096} \<inter> area ?G = {}" "{t ..< t + 4096} \<inter> area ?H = {}"
    using Cons.prems(3) area_disjoint [of hhdm ?G ?H] area_disjoint [of hhdm "[t]" "?G @ ?H"] tables_ok_tail [of hhdm t ?G ?H]
    by (auto simp: GH tables_ok_def)
  have i: "i < 512" using Cons.prems(1) by simp
  obtain r where r: "release_entry sub huge t i s = bindR (foldR deallocate_frame ?F (falloc s)) (\<lambda>a. Inr \<lparr>falloc = a, ram = r\<rparr>)"
      "\<And>x. x \<notin> area ?G \<Longrightarrow> x < t + 8 * i \<or> t + 8 * i + 8 \<le> x \<Longrightarrow> r x = ram s x"
    using release_entry_ok [OF rel i tk(2)] by blast
  have ent: "\<forall>j \<in> set idxs. entry_at t j r = entry_at t j (ram s)"
  proof
    fix j assume j: "j \<in> set idxs"
    then have jl: "j < 512" "j \<noteq> i" using Cons.prems(1,2) by auto
    show "entry_at t j r = entry_at t j (ram s)"
    proof (rule entry_at_cong, rule r(2))
      fix x assume x: "t + 8 * j \<le> x" "x < t + 8 * j + 8"
      then have "x \<in> {t ..< t + 4096}" using jl by auto
      then show "x \<notin> area ?G" using tk(4) by blast
      show "x < t + 8 * i \<or> t + 8 * i + 8 \<le> x" using x jl by (cases "j < i") auto
    qed
  qed
  have low: "\<forall>x \<in> area ?H. r x = ram s x"
  proof
    fix x assume x: "x \<in> area ?H"
    then have "x \<notin> {t ..< t + 4096}" "x \<notin> area ?G" using tk(3,5) by blast+
    then show "r x = ram s x" using i by (intro r(2)) auto
  qed
  have same: "owned_entries f huge t idxs r = ?O" "sub_tables g huge t idxs r = ?H"
    using owned_cong [OF rel _ ent low] Cons.prems(1) by auto
  show ?case
  proof (cases "foldR deallocate_frame ?F (falloc s)")
    case (Inl e)
    then show ?thesis
      unfolding FO GH using r(1) by (intro exI [of _ "ram s"]) (simp add: foldR_append bindR_def)
  next
    case (Inr a1)
    let ?s1 = "\<lparr>falloc = a1, ram = r\<rparr>"
    obtain r' where r': "foldR (release_entry sub huge t) idxs ?s1
        = bindR (foldR deallocate_frame ?O a1) (\<lambda>a. Inr \<lparr>falloc = a, ram = r'\<rparr>)"
        "\<And>x. x \<notin> area ?H \<Longrightarrow> \<forall>i \<in> set idxs. x < t + 8 * i \<or> t + 8 * i + 8 \<le> x \<Longrightarrow> r' x = r x"
      using Cons.IH [of ?s1] Cons.prems(1,2) tk(1) same by auto
    have "foldR (release_entry sub huge t) (i # idxs) s
        = bindR (foldR deallocate_frame (?F @ ?O) (falloc s)) (\<lambda>a. Inr \<lparr>falloc = a, ram = r'\<rparr>)"
      using r(1) Inr r'(1) by (simp add: foldR_append bindR_def)
    then show ?thesis
      unfolding FO GH using r(2) r'(2) by (intro exI [of _ r']) auto
  qed
qed

text \<open>A whole table on top of a level that meets the contract meets it.\<close>

lemma releases_table:
  fixes K :: "nat list"
  assumes rel: "releases hhdm sub f g" and K: "\<forall>i \<in> set K. i < 512" "distinct K"
  shows "releases hhdm (\<lambda>t s. bindR (virt_add hhdm t) (\<lambda>_. foldR (release_entry sub huge t) K s))
     (\<lambda>m t. owned_entries f huge t K m) (\<lambda>m t. t # sub_tables g huge t K m)"
  unfolding releases_def
proof (intro conjI allI impI)
  fix t :: nat and s :: phys_memory
  assume tok: "tables_ok hhdm (t # sub_tables g huge t K (ram s))"
  then have v: "virt_add hhdm t = Inr (hhdm + t)" by (intro virt_add_ok) (auto simp: tables_ok_def)
  obtain r where r: "foldR (release_entry sub huge t) K s
      = bindR (foldR deallocate_frame (owned_entries f huge t K (ram s)) (falloc s)) (\<lambda>a. Inr \<lparr>falloc = a, ram = r\<rparr>)"
      "\<And>x. x \<notin> area (sub_tables g huge t K (ram s)) \<Longrightarrow> \<forall>i \<in> set K. x < t + 8 * i \<or> t + 8 * i + 8 \<le> x \<Longrightarrow> r x = ram s x"
    using release_entries_ok [OF rel K tok] by blast
  have "r x = ram s x" if "x \<notin> area (t # sub_tables g huge t K (ram s))" for x
    using that K(1) by (intro r(2)) fastforce+
  then show "\<exists>r. bindR (virt_add hhdm t) (\<lambda>_. foldR (release_entry sub huge t) K s)
      = bindR (foldR deallocate_frame (owned_entries f huge t K (ram s)) (falloc s)) (\<lambda>a. Inr \<lparr>falloc = a, ram = r\<rparr>)
      \<and> (\<forall>x. x \<notin> area (t # sub_tables g huge t K (ram s)) \<longrightarrow> r x = ram s x)"
    using r(1) v by auto
next
  fix t :: nat and m m' :: memory
  assume eq: "\<forall>x \<in> area (t # sub_tables g huge t K m). m' x = m x"
  have "\<forall>i \<in> set K. entry_at t i m' = entry_at t i m"
    using K(1) eq by (auto intro: entry_at_frame)
  moreover have "\<forall>x \<in> area (sub_tables g huge t K m). m' x = m x" using eq by simp
  ultimately show "owned_entries f huge t K m' = owned_entries f huge t K m"
      and "t # sub_tables g huge t K m' = t # sub_tables g huge t K m"
    using owned_cong [OF rel K(1)] by auto
qed

lemma upt512: "\<forall>i \<in> set [0 ..< 512]. i < 512" "distinct [0 ..< 512]"
  unfolding set_upt by (simp_all del: upt_rec_numeral)

lemma releases_levels:
  "releases hhdm (destroy_pt hhdm) owned1 tables1"
  "releases hhdm (destroy_pd hhdm) owned2 tables2"
  "releases hhdm (destroy_pdpt hhdm) owned3 tables3"
proof -
  show 1: "releases hhdm (destroy_pt hhdm) owned1 tables1"
    using releases_table [OF releases_nothing [of hhdm] upt512, of False]
    unfolding destroy_pt_def owned1_def tables1_def .
  show 2: "releases hhdm (destroy_pd hhdm) owned2 tables2"
    using releases_table [OF 1 upt512, of True] unfolding destroy_pd_def owned2_def tables2_def .
  show "releases hhdm (destroy_pdpt hhdm) owned3 tables3"
    using releases_table [OF 2 upt512, of True] unfolding destroy_pdpt_def owned3_def tables3_def .
qed

text \<open>The whole address space: the upper half of the PML4 keeps its entries.\<close>

lemma destroy_ok:
  assumes tok: "tables_ok hhdm (tables4 (ram s) pml4)" and hh: "canonical hhdm"
  shows "\<exists>r. destroy_user_address_space (Some hhdm) pml4 s
      = bindR (foldR deallocate_frame (owned4 (ram s) pml4) (falloc s)) (\<lambda>a. Inr \<lparr>falloc = a, ram = r\<rparr>)
    \<and> (\<forall>x. x \<notin> area (tables4 (ram s) pml4) \<or> pml4 + 2048 \<le> x \<and> x < pml4 + 4096 \<longrightarrow> r x = ram s x)"
proof -
  define L :: "nat list" where "L = [0 ..< 256]"
  have L: "\<forall>i \<in> set L. i < 512" "distinct L" "set L = {0 ..< 256}"
    unfolding L_def set_upt by (auto simp del: upt_rec_numeral)
  let ?T = "sub_tables tables3 False pml4 L (ram s)"
  have tok': "tables_ok hhdm (pml4 # ?T)" using tok by (simp only: tables4_def L_def)
  obtain r where r: "foldR (release_entry (destroy_pdpt hhdm) False pml4) L s
      = bindR (foldR deallocate_frame (owned_entries owned3 False pml4 L (ram s)) (falloc s)) (\<lambda>a. Inr \<lparr>falloc = a, ram = r\<rparr>)"
      "\<And>x. x \<notin> area ?T \<Longrightarrow> \<forall>i \<in> set L. x < pml4 + 8 * i \<or> pml4 + 8 * i + 8 \<le> x \<Longrightarrow> r x = ram s x"
    using release_entries_ok [OF releases_levels(3) L(1,2) tok'] by blast
  have v: "mapper_for (Some hhdm) pml4 = Inr hhdm"
    using tok' hh by (simp add: mapper_for_def virt_addr_def virt_add_ok tables_ok_def)
  have d: "area ?T \<inter> {pml4 ..< pml4 + 4096} = {}"
    using area_disjoint [of hhdm "[pml4]" ?T] tok' by auto
  have "r x = ram s x" if "x \<notin> area (pml4 # ?T) \<or> pml4 + 2048 \<le> x \<and> x < pml4 + 4096" for x
    using that d L(3) by (intro r(2)) fastforce+
  moreover have "destroy_user_address_space (Some hhdm) pml4 s
      = bindR (foldR deallocate_frame (owned_entries owned3 False pml4 L (ram s) @ [pml4]) (falloc s)) (\<lambda>a. Inr \<lparr>falloc = a, ram = r\<rparr>)"
    using r(1) v by (simp add: destroy_user_address_space_def L_def [symmetric] bindR_assoc foldR_append cow_deallocate_frame_def)
  ultimately show ?thesis
    unfolding owned4_def tables4_def L_def [symmetric] by blast
qed

section \<open>Releasing a list of references\<close>

lemma foldR_deallocate:
  assumes "allocator_inv a"
    and "\<forall>f. count_list (map (\<lambda>p. p div FRAME_SIZE) ps) f \<le> (case refs a f of None \<Rightarrow> 0 | Some n \<Rightarrow> n)"
  shows "\<exists>a'. foldR deallocate_frame ps a = Inr a' \<and> allocator_inv a'
    \<and> (\<forall>f. refs a' f = map_option (\<lambda>n. n - count_list (map (\<lambda>p. p div FRAME_SIZE) ps) f) (refs a f))"
  using assms
proof (induction ps arbitrary: a)
  case Nil
  then show ?case by (auto simp: map_option_case split: option.splits)
next
  case (Cons p ps)
  let ?f = "p div FRAME_SIZE"
  have "0 < (case refs a ?f of None \<Rightarrow> 0 | Some n \<Rightarrow> n)"
    using Cons.prems(2) [rule_format, of ?f] by simp
  then obtain n where n: "refs a ?f = Some (Suc n)"
    by (auto simp: gr0_conv_Suc split: option.splits)
  obtain a1 where a1: "deallocate_frame p a = Inr a1" "allocator_inv a1" "refs a1 = (refs a)(?f \<mapsto> n)"
    using deallocate_frame_ok [OF Cons.prems(1) n] by blast
  have "count_list (map (\<lambda>p. p div FRAME_SIZE) ps) f \<le> (case refs a1 f of None \<Rightarrow> 0 | Some n \<Rightarrow> n)" for f
    using Cons.prems(2) [rule_format, of f] n by (simp add: a1(3) split: if_splits)
  then obtain a' where a': "foldR deallocate_frame ps a1 = Inr a'" "allocator_inv a'"
      "\<forall>f. refs a' f = map_option (\<lambda>n. n - count_list (map (\<lambda>p. p div FRAME_SIZE) ps) f) (refs a1 f)"
    using Cons.IH [OF a1(2)] by blast
  show ?case
    using a1(1) a' n by (auto simp: a1(3))
qed

section \<open>What the processor lets Ring 3 reach\<close>

text \<open>
  The translation of the x86-64 architecture: Ring 3 reaches an address when every entry on
  the way is present and has the user bit, down to a page or a huge page.
\<close>

definition user_entry :: "u64 \<Rightarrow> bool" where
  "user_entry e \<longleftrightarrow> e AND PRESENT \<noteq> 0 \<and> e AND USER \<noteq> 0"

definition entry3 :: "memory \<Rightarrow> nat \<Rightarrow> nat \<Rightarrow> u64" where
  "entry3 m pml4 va = entry_at (entry_addr (entry_at pml4 (level_index 4 va) m)) (level_index 3 va) m"
definition entry2 :: "memory \<Rightarrow> nat \<Rightarrow> nat \<Rightarrow> u64" where
  "entry2 m pml4 va = entry_at (entry_addr (entry3 m pml4 va)) (level_index 2 va) m"
definition entry1 :: "memory \<Rightarrow> nat \<Rightarrow> nat \<Rightarrow> u64" where
  "entry1 m pml4 va = entry_at (entry_addr (entry2 m pml4 va)) (level_index 1 va) m"

definition user_reachable :: "memory \<Rightarrow> nat \<Rightarrow> nat \<Rightarrow> bool" where
  "user_reachable m pml4 va \<longleftrightarrow> user_entry (entry_at pml4 (level_index 4 va) m) \<and> user_entry (entry3 m pml4 va)
     \<and> (entry3 m pml4 va AND HUGE \<noteq> 0
        \<or> user_entry (entry2 m pml4 va) \<and> (entry2 m pml4 va AND HUGE \<noteq> 0 \<or> user_entry (entry1 m pml4 va)))"

text \<open>The tables on the way, all within reach of the direct map.\<close>

definition walk_fits :: "nat \<Rightarrow> memory \<Rightarrow> nat \<Rightarrow> nat \<Rightarrow> bool" where
  "walk_fits hhdm m pml4 va \<longleftrightarrow>
     (\<forall>t \<in> {pml4, entry_addr (entry_at pml4 (level_index 4 va) m), entry_addr (entry3 m pml4 va),
            entry_addr (entry2 m pml4 va)}. t + hhdm + 4096 \<le> 2 ^ 64)"

lemma level_index_less: "level_index l va < 512"
  by (simp add: level_index_def)

lemma read_entry_ok: "t + hhdm + 4096 \<le> 2 ^ 64 \<Longrightarrow> i < 512 \<Longrightarrow> read_entry hhdm t i m = Inr (entry_at t i m)"
  by (simp add: read_entry_def add_w_def)

lemma is_user_page_mapped_walk:
  assumes "walk_fits hhdm m pml4 va"
  shows "is_user_page_mapped (Some hhdm) pml4 va m =
    Inr (entry_at pml4 (level_index 4 va) m AND PRESENT \<noteq> 0 \<and> entry3 m pml4 va AND PRESENT \<noteq> 0
      \<and> (if entry3 m pml4 va AND HUGE \<noteq> 0 then entry3 m pml4 va AND USER \<noteq> 0
         else entry2 m pml4 va AND PRESENT \<noteq> 0
           \<and> (if entry2 m pml4 va AND HUGE \<noteq> 0 then entry2 m pml4 va AND USER \<noteq> 0
              else user_entry (entry1 m pml4 va))))"
proof -
  have e1: "entry_at (entry_addr (entry2 m pml4 va)) (level_index (Suc 0) va) m = entry1 m pml4 va"
    by (simp add: entry1_def)
  show ?thesis
    using assms
    by (simp add: is_user_page_mapped_def read_entry_ok level_index_less walk_fits_def entry3_def [symmetric]
      entry2_def [symmetric] e1 user_entry_def)
qed

lemma lower_half_index: "va < 2 ^ 47 \<Longrightarrow> level_index 4 va < 256"
  by (simp add: level_index_def div_less_iff_less_mult mod_less)

section \<open>Fresh address spaces\<close>

lemma create_isolated_pml4_ok:
  assumes inv: "allocator_inv (falloc s)" and f: "lowest_free (falloc s) = Some f"
    and fit: "hhdm + (f + 1) * FRAME_SIZE < 2 ^ 64" "canonical hhdm" "canonical (hhdm + f * FRAME_SIZE)"
      "f * FRAME_SIZE < 2 ^ 52"
    and cur: "FRAME_SIZE dvd cr3" "refs (falloc s) (cr3 div FRAME_SIZE) = Some (Suc n)"
      "hhdm + cr3 < 2 ^ 64" "canonical (hhdm + cr3)"
  defines "p \<equiv> f * FRAME_SIZE"
  shows "\<exists>s'. create_isolated_pml4 (Some hhdm) cr3 s = Inr (Some p, s')
    \<and> allocator_inv (falloc s') \<and> refs (falloc s') = (refs (falloc s))(f \<mapsto> 1)
    \<and> (\<forall>x. x < p \<or> p + FRAME_SIZE \<le> x \<longrightarrow> ram s' x = ram s x)
    \<and> (\<forall>i < 512. entry_at p i (ram s') =
         (let e = entry_at cr3 i (ram s) in if 256 \<le> i \<or> \<not> entry_user e then e else 0))"
proof -
  obtain s1 where s1: "system_allocate_frame (Some hhdm) s = Inr (Some p, s1)" "allocator_inv (falloc s1)"
      "refs (falloc s1) = (refs (falloc s))(f \<mapsto> 1)" "ram s1 = fill_ram p FRAME_SIZE 0 (ram s)"
    using system_allocate_frame_ok [OF inv f fit(1,4)] by (auto simp: p_def)
  have "refs (falloc s) f = Some 0" using f by (auto simp: lowest_free_def find_Some_iff)
  then have ne: "cr3 \<noteq> p" using cur(1,2) by (auto simp: p_def FRAME_SIZE_def)
  have ap: "cr3 + 4096 \<le> p \<or> p + 4096 \<le> cr3"
  proof -
    obtain c where "cr3 = FRAME_SIZE * c" using cur(1) by (auto elim!: dvdE)
    then show ?thesis using ne by (cases "c < f") (auto simp: p_def FRAME_SIZE_def)
  qed
  let ?keep = "\<lambda>e. e \<noteq> 0 \<and> \<not> entry_user e"
  let ?s' = "s1\<lparr>ram := copy_pml4 ?keep cr3 p (ram s1)\<rparr>"
  have out: "ram s1 x = ram s x" if "x < p \<or> p + FRAME_SIZE \<le> x" for x
    using that by (auto simp: s1(4) fill_ram_def)
  have e: "entry_at cr3 i (ram s1) = entry_at cr3 i (ram s)" if "i < 512" for i
    using that ap out by (intro entry_at_frame) (auto simp: FRAME_SIZE_def)
  have "create_isolated_pml4 (Some hhdm) cr3 s = Inr (Some p, ?s')"
    using s1(1) fit cur by (simp add: create_isolated_pml4_def virt_addr_def virt_add_ok p_def)
  moreover have "\<forall>x. x < p \<or> p + FRAME_SIZE \<le> x \<longrightarrow> ram ?s' x = ram s x"
    using copy_pml4_ok(1) [OF ap, of _ ?keep "ram s1"] out by (simp add: FRAME_SIZE_def)
  moreover have "\<forall>i < 512. entry_at p i (ram ?s') =
         (let e = entry_at cr3 i (ram s) in if 256 \<le> i \<or> \<not> entry_user e then e else 0)"
    using copy_pml4_ok(2) [OF ap, of _ ?keep "ram s1"] e by (auto simp: Let_def)
  ultimately show ?thesis using s1(2,3) by (intro exI [of _ ?s']) simp
qed

section \<open>Properties\<close>

text \<open>
  C10: tearing an address space down releases every reference its user half holds exactly once,
  tables and the PML4 included, and none twice: each frame's count drops by the number of
  live entries that point to it. Only page tables of this address space change in memory,
  and the kernel half of the PML4 does not. It does not panic as long as the counts cover
  the references.
\<close>

theorem teardown_releases_each_reference_once:
  assumes "tables_ok hhdm (tables4 (ram s) pml4)" and "canonical hhdm" and "allocator_inv (falloc s)"
    and "\<forall>f. count_list (map (\<lambda>p. p div FRAME_SIZE) (owned4 (ram s) pml4)) f
            \<le> (case refs (falloc s) f of None \<Rightarrow> 0 | Some n \<Rightarrow> n)"
  shows "\<exists>s'. destroy_user_address_space (Some hhdm) pml4 s = Inr s' \<and> allocator_inv (falloc s')
    \<and> (\<forall>f. refs (falloc s') f
         = map_option (\<lambda>n. n - count_list (map (\<lambda>p. p div FRAME_SIZE) (owned4 (ram s) pml4)) f) (refs (falloc s) f))
    \<and> (\<forall>x. x \<notin> area (tables4 (ram s) pml4) \<or> pml4 + 2048 \<le> x \<and> x < pml4 + 4096 \<longrightarrow> ram s' x = ram s x)"
  using destroy_ok [OF assms(1,2)] foldR_deallocate [OF assms(3,4)] by auto


text \<open>
  The pointer check of the system calls agrees with the processor: an address Ring 3 can
  reach is accepted, and an accepted address is one Ring 3 can reach when the upper-level
  entries on its path have the user bit. The walk never panics.
\<close>

theorem pointer_check_matches_hardware:
  assumes "walk_fits hhdm m pml4 va"
  shows "\<exists>b. is_user_page_mapped (Some hhdm) pml4 va m = Inr b
    \<and> (user_reachable m pml4 va \<longrightarrow> b)
    \<and> (b \<and> entry_user (entry_at pml4 (level_index 4 va) m) \<and> entry_user (entry3 m pml4 va)
         \<and> entry_user (entry2 m pml4 va) \<longrightarrow> user_reachable m pml4 va)"
  using is_user_page_mapped_walk [OF assms]
  by (auto simp: user_reachable_def user_entry_def entry_user_def)

text \<open>
  A write fault on a page with several owners moves the faulting task to a fresh frame: the
  new frame has one owner and the shared frame one fewer. The new frame receives the 4096
  bytes that start at the faulting physical address. It is a copy of the shared page only
  when the fault lies at offset 0; at another offset the copy is shifted.
\<close>

theorem cow_fault_clones_from_fault_address:
  assumes mp: "mapper_for (Some hhdm) cr3 = Inr hhdm" "mp_translate_addr mp cr3 va (ram s) = Some p"
      "mp_translate_flags mp cr3 va (ram s) = Some flags"
    and inv: "allocator_inv (falloc s)" and n: "refs (falloc s) (p div FRAME_SIZE) = Some (Suc n)" "0 < n"
    and f: "lowest_free (falloc s) = Some f" "f * FRAME_SIZE < 2 ^ 52"
    and fit: "hhdm + p < 2 ^ 64" "canonical (hhdm + p)" "hhdm + f * FRAME_SIZE < 2 ^ 64" "canonical (hhdm + f * FRAME_SIZE)"
    and apart: "p + 4096 \<le> f * FRAME_SIZE \<or> f * FRAME_SIZE + 4096 \<le> p"
    and unmap: "mp_unmap mp cr3 (align_down 4096 va) (write_ram (f * FRAME_SIZE) (read_ram p 4096 (ram s)) (ram s)) = Some m2"
      "\<forall>k < 4096. m2 (f * FRAME_SIZE + k) = ram s (p + k)"
    and map_to: "\<And>a. mp_map_to mp (system_allocate_frame (Some hhdm)) cr3 (align_down 4096 va) (f * FRAME_SIZE)
        (flags OR WRITABLE) \<lparr>falloc = a, ram = m2\<rparr> = Inr (True, \<lparr>falloc = a, ram = m3\<rparr>)"
      "\<forall>k < 4096. m3 (f * FRAME_SIZE + k) = m2 (f * FRAME_SIZE + k)"
  shows "\<exists>s'. resolve_cow_fault mp (Some hhdm) cr3 va s = Inr (True, s') \<and> allocator_inv (falloc s')
    \<and> refs (falloc s') = (refs (falloc s))(f \<mapsto> 1, p div FRAME_SIZE \<mapsto> n)
    \<and> (\<forall>k < 4096. ram s' (f * FRAME_SIZE + k) = ram s (p + k))"
proof -
  obtain a1 where a1: "allocate_frame (falloc s) = Inr (Some (f * FRAME_SIZE), a1)" "allocator_inv a1"
      "refs a1 = (refs (falloc s))(f \<mapsto> 1)"
    using allocate_frame_Some [OF inv f(1)] by blast
  have "refs (falloc s) f = Some 0" using f by (auto simp: lowest_free_def find_Some_iff)
  then have "refs a1 (p div FRAME_SIZE) = Some (Suc n)" using n(1) a1(3) by auto
  then obtain a2 where a2: "deallocate_frame p a1 = Inr a2" "allocator_inv a2"
      "refs a2 = (refs a1)(p div FRAME_SIZE \<mapsto> n)"
    using deallocate_frame_ok [OF a1(2)] by blast
  have le: "Suc n \<le> 2 ^ 16 - 1" by (rule refs_max [OF n(1)])
  have u: "unat (word_of_nat (Suc n) :: u16) = Suc n"
    using le by (simp only: unsigned_of_nat) (simp add: take_bit_nat_eq_self_iff)
  have rc: "cow_get_ref_count p s = Inr (word_of_nat (Suc n))"
    using get_ref_count_eq [OF inv, of p] n by (simp add: cow_get_ref_count_def)
  have "word_of_nat (Suc n) \<noteq> (0 :: u16)" "word_of_nat (Suc n) \<noteq> (1 :: u16)"
    using u n(2) by (metis unsigned_0 Zero_not_Suc, metis unsigned_1 One_nat_def Suc_inject less_irrefl)
  note rc = rc this
  have al: "align_down 4096 (f * FRAME_SIZE) = f * FRAME_SIZE" by (simp add: align_down_def FRAME_SIZE_def)
  have "resolve_cow_fault mp (Some hhdm) cr3 va s = Inr (True, \<lparr>falloc = a2, ram = m3\<rparr>)"
    using mp rc a1(1) f(2) fit apart unmap(1) map_to(1) a2(1)
    by (simp add: resolve_cow_fault_def virt_add_ok copy_frame_def cow_deallocate_frame_def al Let_def del: of_nat_Suc)
  then show ?thesis using a1(3) a2 unmap(2) map_to(2) by simp
qed


section \<open>Witnesses\<close>

definition demo_alloc :: "u16 list \<Rightarrow> u8 \<Rightarrow> frame_allocator" where
  "demo_alloc rc bm = \<lparr>bitmap = [bm], ref_counts = rc, total_frames = length rc, last_free_frame_hint = 0\<rparr>"

lemma less_3: "(f :: nat) < 3 \<longleftrightarrow> f = 0 \<or> f = 1 \<or> f = 2" by auto

lemma demo_alloc_inv: "allocator_inv (demo_alloc [1, 1, 1] 7)" "allocator_inv (demo_alloc [2, 1, 0] 3)"
  by (auto simp: allocator_inv_def shape_ok_def busy_bit_def demo_alloc_def less_Suc_eq bit_simps)

lemma demo_alloc_refs:
  "refs (demo_alloc [1, 1, 1] 7) f = (if f < 3 then Some 1 else None)"
  "refs (demo_alloc [2, 1, 0] 3) 0 = Some 2" "lowest_free (demo_alloc [2, 1, 0] 3) = Some 2"
  by (auto simp: refs_def demo_alloc_def less_3 lowest_free_def upt_rec)

lemma no_entries:
  "\<forall>i \<in> set idxs. entry_at t i m = 0 \<Longrightarrow> owned_entries f h t idxs m = [] \<and> sub_tables g h t idxs m = []"
  by (induction idxs) (auto simp: owned_entries_def sub_tables_def live_def)

text \<open>A PML4 in frame 1 whose first entry points to an empty table in frame 2.\<close>

definition demo_tables :: memory where
  "demo_tables = poke64 0x1000 0x2007 (\<lambda>_. 0)"

lemma demo_entry: "entry_at 0x1000 0 demo_tables = 0x2007" "0 < i \<Longrightarrow> entry_at 0x1000 i demo_tables = 0"
  "entry_at 0x2000 i demo_tables = 0" "entry_addr 0x2007 = 0x2000" "live 0x2007"
  by (simp_all add: entry_at_def demo_tables_def peek_poke_other peek64_zero entry_addr_def PHYS_MASK_def live_def
      entry_user_def USER_def)

lemma demo_owned:
  "owned3 demo_tables 0x2000 = []" "tables3 demo_tables 0x2000 = [0x2000]"
  "owned4 demo_tables 0x1000 = [0x2000, 0x1000]" "tables4 demo_tables 0x1000 = [0x1000, 0x2000]"
proof -
  define K :: "nat list" where "K = [0 ..< 512]"
  have "\<forall>i \<in> set K. entry_at 0x2000 i demo_tables = 0" by (simp add: demo_entry)
  then show 3: "owned3 demo_tables 0x2000 = []" and 4: "tables3 demo_tables 0x2000 = [0x2000]"
    unfolding owned3_def tables3_def K_def [symmetric] using no_entries by auto
  define L :: "nat list" where "L = [1 ..< 256]"
  have L: "\<forall>i \<in> set L. entry_at 0x1000 i demo_tables = 0" "[0 ..< 256] = 0 # L"
    unfolding L_def set_upt by (auto simp: demo_entry upt_conv_Cons [of 0 256] simp del: upt_rec_numeral)
  have "owned_entries owned3 False 0x1000 (0 # L) demo_tables = [0x2000]"
      "sub_tables tables3 False 0x1000 (0 # L) demo_tables = [0x2000]"
    using no_entries [OF L(1), of owned3 False tables3] 3 4 by (simp_all add: owned_entries_def sub_tables_def demo_entry)
  then show "owned4 demo_tables 0x1000 = [0x2000, 0x1000]" "tables4 demo_tables 0x1000 = [0x1000, 0x2000]"
    unfolding owned4_def tables4_def L(2) by simp_all
qed

theorem teardown_releases_each_reference_once_witness:
  "\<exists>s'. destroy_user_address_space (Some 0) 0x1000 \<lparr>falloc = demo_alloc [1, 1, 1] 7, ram = demo_tables\<rparr> = Inr s'
     \<and> refs (falloc s') 0 = Some 1 \<and> refs (falloc s') 1 = Some 0 \<and> refs (falloc s') 2 = Some 0"
proof -
  let ?s = "\<lparr>falloc = demo_alloc [1, 1, 1] 7, ram = demo_tables\<rparr>"
  have "tables_ok 0 (tables4 (ram ?s) 0x1000)" "canonical 0" "allocator_inv (falloc ?s)"
    by (simp_all add: demo_owned tables_ok_def canonical_def demo_alloc_inv)
  moreover have "\<forall>f. count_list (map (\<lambda>p. p div FRAME_SIZE) (owned4 (ram ?s) 0x1000)) f
            \<le> (case refs (falloc ?s) f of None \<Rightarrow> 0 | Some n \<Rightarrow> n)"
    by (auto simp: demo_owned demo_alloc_refs FRAME_SIZE_def)
  ultimately show ?thesis
    using teardown_releases_each_reference_once [of 0 ?s "0x1000"]
    by (auto simp: demo_owned demo_alloc_refs FRAME_SIZE_def)
qed


lemma entry_addr_bound: "entry_addr e < 2 ^ 52"
proof -
  have "e AND PHYS_MASK \<le> PHYS_MASK" by (simp add: word_and_le1)
  then have "unat (e AND PHYS_MASK) \<le> unat PHYS_MASK" by (simp add: word_le_nat_alt)
  also have "unat PHYS_MASK < 2 ^ 52" by (simp add: PHYS_MASK_def)
  finally show ?thesis by (simp add: entry_addr_def)
qed

theorem pointer_check_matches_hardware_witness:
  "user_reachable (poke64 0x2000 0x87 demo_tables) 0x1000 0x1234
   \<and> is_user_page_mapped (Some 0) 0x1000 0x1234 (poke64 0x2000 0x87 demo_tables) = Inr True"
proof -
  let ?m = "poke64 0x2000 0x87 demo_tables"
  have i: "level_index 4 0x1234 = 0" "level_index 3 0x1234 = 0" "level_index 2 0x1234 = 0"
    by (simp_all add: level_index_def)
  have e: "entry_at 0x1000 0 ?m = 0x2007" "entry3 ?m 0x1000 0x1234 = 0x87" "entry_addr 0x87 = 0"
    using demo_entry(1) by (simp_all add: entry3_def i entry_at_def peek_poke_other entry_addr_def PHYS_MASK_def demo_entry)
  have "entry_addr (entry2 ?m 0x1000 0x1234) + 4096 \<le> 2 ^ 64"
    using entry_addr_bound [of "entry2 ?m 0x1000 0x1234"] by simp
  then have "walk_fits 0 ?m 0x1000 0x1234"
    by (simp add: walk_fits_def i e demo_entry)
  moreover have "user_reachable ?m 0x1000 0x1234"
    by (simp add: user_reachable_def i e user_entry_def PRESENT_def USER_def HUGE_def)
  ultimately show ?thesis using pointer_check_matches_hardware [of 0 ?m "0x1000" "0x1234"] by auto
qed

definition demo_mapper :: "bool \<Rightarrow> mapper" where
  "demo_mapper ok = \<lparr>mp_translate_addr = (\<lambda>_ va _. Some va), mp_translate_flags = (\<lambda>_ _ _. Some 5),
     mp_translate_page = (\<lambda>_ _ _. None), mp_update_flags = (\<lambda>_ _ _ m. Some m), mp_unmap = (\<lambda>_ _ m. Some m),
     mp_map_to = (\<lambda>_ _ _ _ _ s. Inr (ok, s))\<rparr>"

theorem cow_fault_clones_from_fault_address_witness:
  "\<exists>s'. resolve_cow_fault (demo_mapper True) (Some 0) 0 1 \<lparr>falloc = demo_alloc [2, 1, 0] 3, ram = (\<lambda>x. if x = 1 then 7 else 0)\<rparr>
       = Inr (True, s')
     \<and> refs (falloc s') 0 = Some 1 \<and> refs (falloc s') 2 = Some 1 \<and> ram s' 0x2000 = 7"
proof -
  let ?s = "\<lparr>falloc = demo_alloc [2, 1, 0] 3, ram = (\<lambda>x. if x = 1 then 7 else 0)\<rparr>"
  let ?m = "write_ram 8192 (read_ram 1 4096 (ram ?s)) (ram ?s)"
  have "\<forall>k < 4096. ?m (8192 + k) = ram ?s (1 + k)" by (simp add: write_ram_def read_ram_def)
  then obtain s' where "resolve_cow_fault (demo_mapper True) (Some 0) 0 1 ?s = Inr (True, s')"
      "refs (falloc s') = (refs (falloc ?s))(2 \<mapsto> 1, 0 \<mapsto> 1)" "\<forall>k < 4096. ram s' (8192 + k) = ram ?s (1 + k)"
    using cow_fault_clones_from_fault_address [of 0 0 "demo_mapper True" 1 ?s 1 5 1 2 ?m ?m]
    by (auto simp: demo_mapper_def mapper_for_def virt_addr_def virt_add_ok canonical_def demo_alloc_inv demo_alloc_refs
        FRAME_SIZE_def)
  moreover from this(3) have "ram s' 8192 = 7"
    using spec [of "\<lambda>k. k < 4096 \<longrightarrow> ram s' (8192 + k) = ram ?s (1 + k)" 0] by simp
  ultimately show ?thesis by auto
qed


end
