(* ===== verification/Keyboard.thy ===== *)
theory Keyboard
  imports Task_Manager
begin

text \<open>
  The keyboard driver of \<^verbatim>\<open>src/drivers/input/keyboard.rs\<close>: the lock-free ring of decoded
  characters and the scancode handler. The ring implements the bounded queue of the locale
  \<open>bounded_queue\<close> with capacity 255; \<open>ring_step\<close> is the interleaving of the interrupt
  handler's and the reader's single memory accesses, and the lemmas show that no key is
  lost, duplicated or reordered once it is stored.
\<close>

section \<open>The ring\<close>

type_synonym codepoint = nat

definition BUF_SIZE :: nat where
  "BUF_SIZE = 256"

record key_ring =
  BUFFER :: "codepoint list"
  HEAD :: nat
  TAIL :: nat

definition empty_ring :: key_ring where
  "empty_ring = \<lparr>BUFFER = replicate BUF_SIZE 0, HEAD = 0, TAIL = 0\<rparr>"

definition push_key :: "codepoint \<Rightarrow> key_ring \<Rightarrow> key_ring run" where
  "push_key c r =
     (let tl = TAIL r in
      bindR (add64 tl 1) (\<lambda>t1. let next_tail = t1 mod BUF_SIZE in
      if next_tail \<noteq> HEAD r
      then bindR (upd (BUFFER r) tl c) (\<lambda>b. Inr (r\<lparr>BUFFER := b, TAIL := next_tail\<rparr>))
      else Inr r))"

definition pop_key :: "key_ring \<Rightarrow> (codepoint option \<times> key_ring) run" where
  "pop_key r =
     (let hd = HEAD r in
      if hd = TAIL r then Inr (None, r)
      else bindR (idx (BUFFER r) hd) (\<lambda>c.
           bindR (add64 hd 1) (\<lambda>h1. Inr (Some c, r\<lparr>HEAD := h1 mod BUF_SIZE\<rparr>))))"

section \<open>The scancode handler\<close>

datatype KeyCode = Return | Backspace | ArrowUp | ArrowDown | ArrowRight | ArrowLeft | OtherKey u8

datatype DecodedKey = Unicode codepoint | RawKey KeyCode

record 'v keyboard_world =
  ring :: key_ring
  kmanager :: "'v task_manager"

definition push_keys :: "codepoint list \<Rightarrow> 'v keyboard_world \<Rightarrow> 'v keyboard_world run" where
  "push_keys keys w = bindR (foldR push_key keys (ring w)) (\<lambda>r. Inr (w\<lparr>ring := r\<rparr>))"

definition raw_key_codes :: "KeyCode \<Rightarrow> codepoint list" where
  "raw_key_codes k =
     (case k of
        Return \<Rightarrow> [0x0A]
      | Backspace \<Rightarrow> [0x08]
      | ArrowUp \<Rightarrow> [0x1B, 0x5B, 0x41]
      | ArrowDown \<Rightarrow> [0x1B, 0x5B, 0x42]
      | ArrowRight \<Rightarrow> [0x1B, 0x5B, 0x43]
      | ArrowLeft \<Rightarrow> [0x1B, 0x5B, 0x44]
      | OtherKey _ \<Rightarrow> [])"

text \<open>The handler after decoding; the decoder of the \<^verbatim>\<open>pc_keyboard\<close> crate is a parameter.\<close>

definition process_key :: "DecodedKey option \<Rightarrow> 'v keyboard_world \<Rightarrow> 'v keyboard_world run" where
  "process_key key w =
     (case key of
        None \<Rightarrow> Inr w
      | Some (Unicode c) \<Rightarrow>
          if c = 3
          then (case current_task (kmanager w) of
                  None \<Rightarrow> Inr w
                | Some i \<Rightarrow> if 1 < i then Inr (w\<lparr>kmanager := exit_current_task (kmanager w)\<rparr>) else Inr w)
          else push_keys [c] w
      | Some (RawKey k) \<Rightarrow> push_keys (raw_key_codes k) w)"

definition process_scancode ::
    "('d \<Rightarrow> u8 \<Rightarrow> DecodedKey option \<times> 'd) \<Rightarrow> u8 \<Rightarrow> 'd \<times> 'v keyboard_world \<Rightarrow> ('d \<times> 'v keyboard_world) run" where
  "process_scancode decode scancode = (\<lambda>(d, w).
     case decode d scancode of (key, d') \<Rightarrow> bindR (process_key key w) (\<lambda>w'. Inr (d', w')))"

section \<open>Bounded queues\<close>

locale bounded_queue =
  fixes enq :: "'a \<Rightarrow> 'q \<Rightarrow> 'q run"
    and deq :: "'q \<Rightarrow> ('a option \<times> 'q) run"
    and items :: "'q \<Rightarrow> 'a list"
    and ok :: "'q \<Rightarrow> bool"
    and capacity :: nat
  assumes enq_ok: "ok q \<Longrightarrow> \<exists>q'. enq a q = Inr q' \<and> ok q'
      \<and> items q' = (if length (items q) < capacity then items q @ [a] else items q)"
    and deq_ok: "ok q \<Longrightarrow> \<exists>q'. deq q = Inr (case items q of [] \<Rightarrow> None | a # _ \<Rightarrow> Some a, q')
      \<and> ok q' \<and> items q' = tl (items q)"
    and capacity_ok: "ok q \<Longrightarrow> length (items q) \<le> capacity"
begin

lemma enq_list:
  "ok q \<Longrightarrow> \<exists>q'. foldR enq xs q = Inr q' \<and> ok q'
     \<and> items q' = items q @ take (capacity - length (items q)) xs"
proof (induction xs arbitrary: q)
  case Nil
  then show ?case by simp
next
  case (Cons x xs)
  obtain q1 where q1: "enq x q = Inr q1" "ok q1"
      "items q1 = (if length (items q) < capacity then items q @ [x] else items q)"
    using enq_ok [OF Cons.prems] by blast
  obtain q2 where "foldR enq xs q1 = Inr q2" "ok q2"
      "items q2 = items q1 @ take (capacity - length (items q1)) xs"
    using Cons.IH [OF q1(2)] by blast
  moreover have "capacity - length (items q) = Suc (capacity - Suc (length (items q)))"
    if "length (items q) < capacity" using that by simp
  ultimately show ?case using q1 by (auto simp: take_Cons')
qed

lemma enq_fits:
  "ok q \<Longrightarrow> length (items q) + length xs \<le> capacity \<Longrightarrow>
   \<exists>q'. foldR enq xs q = Inr q' \<and> ok q' \<and> items q' = items q @ xs"
  using enq_list [of q xs] by auto

end

section \<open>The ring is a bounded queue\<close>

definition ring_ok :: "key_ring \<Rightarrow> bool" where
  "ring_ok r \<longleftrightarrow> length (BUFFER r) = 256 \<and> HEAD r < 256 \<and> TAIL r < 256"

definition ring_size :: "key_ring \<Rightarrow> nat" where
  "ring_size r = (TAIL r + 256 - HEAD r) mod 256"

definition ring_items :: "key_ring \<Rightarrow> codepoint list" where
  "ring_items r = map (\<lambda>k. BUFFER r ! ((HEAD r + k) mod 256)) [0 ..< ring_size r]"

lemma length_ring_items [simp]: "length (ring_items r) = ring_size r"
  by (simp add: ring_items_def)

lemma ring_arith:
  fixes h t :: nat
  assumes "h < 256" and "t < 256"
  defines "s \<equiv> (t + 256 - h) mod 256"
  shows "s < 256" and "(h + s) mod 256 = t" and "s = 0 \<longleftrightarrow> h = t"
    and "(t + 1) mod 256 \<noteq> h \<longleftrightarrow> s < 255"
    and "s < 255 \<Longrightarrow> ((t + 1) mod 256 + 256 - h) mod 256 = Suc s"
    and "h \<noteq> t \<Longrightarrow> (t + 256 - (h + 1) mod 256) mod 256 = s - 1"
proof -
  have s: "s = (if h \<le> t then t - h else t + 256 - h)"
    using assms by (auto simp: s_def mod_if)
  show "s < 256" "(h + s) mod 256 = t" "s = 0 \<longleftrightarrow> h = t" "(t + 1) mod 256 \<noteq> h \<longleftrightarrow> s < 255"
    "s < 255 \<Longrightarrow> ((t + 1) mod 256 + 256 - h) mod 256 = Suc s"
    "h \<noteq> t \<Longrightarrow> (t + 256 - (h + 1) mod 256) mod 256 = s - 1"
    using assms(1,2) by (auto simp: s mod_if)
qed

lemma ring_index_distinct:
  "h < 256 \<Longrightarrow> j < k \<Longrightarrow> k < 256 \<Longrightarrow> (h + j) mod 256 \<noteq> (h + k) mod (256 :: nat)"
  by (auto simp: mod_if split: if_splits)

lemma push_key_ok:
  assumes "ring_ok r"
  shows "\<exists>r'. push_key c r = Inr r' \<and> ring_ok r'
    \<and> ring_items r' = (if length (ring_items r) < 255 then ring_items r @ [c] else ring_items r)"
proof -
  have b: "HEAD r < 256" "TAIL r < 256" "length (BUFFER r) = 256" using assms by (auto simp: ring_ok_def)
  note a = ring_arith [OF b(1,2), folded ring_size_def]
  show ?thesis
  proof (cases "ring_size r < 255")
    case False
    then have "(TAIL r + 1) mod 256 = HEAD r" using a(4) by blast
    then show ?thesis
      using assms False b by (simp add: push_key_def Let_def BUF_SIZE_def add_w_def)
  next
    case True
    let ?r' = "r\<lparr>BUFFER := (BUFFER r)[TAIL r := c], TAIL := (TAIL r + 1) mod 256\<rparr>"
    have p: "push_key c r = Inr ?r'"
      using a(4) True b by (simp add: push_key_def Let_def BUF_SIZE_def add_w_def)
    have s: "ring_size ?r' = Suc (ring_size r)"
      using a(5) [OF True] by (simp add: ring_size_def)
    have nt: "TAIL r \<noteq> (HEAD r + k) mod 256" if "k < ring_size r" for k
      using ring_index_distinct [OF b(1) that a(1)] a(2) by simp
    then have "ring_items ?r' = ring_items r @ [c]"
      unfolding ring_items_def s using a(2) b by (simp add: nth_list_update_neq)
    then show ?thesis using p True b by (simp add: ring_ok_def)
  qed
qed

lemma pop_key_ok:
  assumes "ring_ok r"
  shows "\<exists>r'. pop_key r = Inr (case ring_items r of [] \<Rightarrow> None | c # _ \<Rightarrow> Some c, r')
    \<and> ring_ok r' \<and> ring_items r' = tl (ring_items r)"
proof -
  have b: "HEAD r < 256" "TAIL r < 256" "length (BUFFER r) = 256" using assms by (auto simp: ring_ok_def)
  note a = ring_arith [OF b(1,2), folded ring_size_def]
  show ?thesis
  proof (cases "HEAD r = TAIL r")
    case True
    then have "ring_items r = []" using a(3) by (simp add: ring_items_def)
    with True assms show ?thesis by (simp add: pop_key_def Let_def)
  next
    case False
    let ?r' = "r\<lparr>HEAD := (HEAD r + 1) mod 256\<rparr>"
    have p: "pop_key r = Inr (Some (BUFFER r ! HEAD r), ?r')"
      using False b by (simp add: pop_key_def Let_def BUF_SIZE_def add_w_def)
    have s: "ring_size r = Suc (ring_size ?r')"
      using a(3,6) False by (simp add: ring_size_def)
    have "ring_items r = BUFFER r ! HEAD r # ring_items ?r'"
      unfolding ring_items_def s using b
      by (simp add: upt_conv_Cons map_Suc_upt [symmetric] mod_simps del: upt_Suc)
    then show ?thesis using p b by (simp add: ring_ok_def)
  qed
qed

interpretation key_queue: bounded_queue push_key pop_key ring_items ring_ok 255
proof unfold_locales
  fix r :: key_ring and c
  assume "ring_ok r"
  show "\<exists>q'. push_key c r = Inr q' \<and> ring_ok q'
      \<and> ring_items q' = (if length (ring_items r) < 255 then ring_items r @ [c] else ring_items r)"
    using push_key_ok [OF \<open>ring_ok r\<close>] .
  show "\<exists>q'. pop_key r = Inr (case ring_items r of [] \<Rightarrow> None | a # _ \<Rightarrow> Some a, q')
      \<and> ring_ok q' \<and> ring_items q' = tl (ring_items r)"
    using pop_key_ok [OF \<open>ring_ok r\<close>] .
  show "length (ring_items r) \<le> 255"
    by (simp add: ring_size_def)
qed

section \<open>Interleaved producer and consumer\<close>

text \<open>
  The interrupt handler and a reader share the ring without a lock. Each step below is one
  atomic access of \<^verbatim>\<open>push_key\<close> or \<^verbatim>\<open>pop_key\<close>; the program counters hold the local values
  read so far. \<open>stored\<close> and \<open>taken\<close> record the keys whose \<^verbatim>\<open>TAIL\<close> and \<^verbatim>\<open>HEAD\<close> updates have
  been published.
\<close>

datatype producer = PIdle | PTail codepoint nat | PStore codepoint nat | PPublish codepoint nat

datatype consumer = CIdle | CHead nat | CRead nat | CAdvance nat codepoint

record ring_race =
  rring :: key_ring
  prod :: producer
  cons :: consumer
  stored :: "codepoint list"
  taken :: "codepoint list"

inductive ring_step :: "ring_race \<Rightarrow> ring_race \<Rightarrow> bool" where
  load_tail: "prod s = PIdle \<Longrightarrow> ring_step s (s\<lparr>prod := PTail c (TAIL (rring s))\<rparr>)"
| not_full: "prod s = PTail c t \<Longrightarrow> (t + 1) mod BUF_SIZE \<noteq> HEAD (rring s) \<Longrightarrow>
    ring_step s (s\<lparr>prod := PStore c t\<rparr>)"
| full: "prod s = PTail c t \<Longrightarrow> (t + 1) mod BUF_SIZE = HEAD (rring s) \<Longrightarrow>
    ring_step s (s\<lparr>prod := PIdle\<rparr>)"
| store: "prod s = PStore c t \<Longrightarrow>
    ring_step s (s\<lparr>rring := (rring s)\<lparr>BUFFER := (BUFFER (rring s))[t := c]\<rparr>, prod := PPublish c t\<rparr>)"
| publish: "prod s = PPublish c t \<Longrightarrow>
    ring_step s (s\<lparr>rring := (rring s)\<lparr>TAIL := (t + 1) mod BUF_SIZE\<rparr>, prod := PIdle,
                   stored := stored s @ [c]\<rparr>)"
| load_head: "cons s = CIdle \<Longrightarrow> ring_step s (s\<lparr>cons := CHead (HEAD (rring s))\<rparr>)"
| empty: "cons s = CHead h \<Longrightarrow> h = TAIL (rring s) \<Longrightarrow> ring_step s (s\<lparr>cons := CIdle\<rparr>)"
| not_empty: "cons s = CHead h \<Longrightarrow> h \<noteq> TAIL (rring s) \<Longrightarrow> ring_step s (s\<lparr>cons := CRead h\<rparr>)"
| read: "cons s = CRead h \<Longrightarrow> ring_step s (s\<lparr>cons := CAdvance h (BUFFER (rring s) ! h)\<rparr>)"
| advance: "cons s = CAdvance h c \<Longrightarrow>
    ring_step s (s\<lparr>rring := (rring s)\<lparr>HEAD := (h + 1) mod BUF_SIZE\<rparr>, cons := CIdle,
                   taken := taken s @ [c]\<rparr>)"

inductive ring_reachable :: "ring_race \<Rightarrow> bool" where
  boot: "ring_reachable \<lparr>rring = empty_ring, prod = PIdle, cons = CIdle, stored = [], taken = []\<rparr>"
| step: "ring_reachable s \<Longrightarrow> ring_step s s' \<Longrightarrow> ring_reachable s'"

fun producer_ok :: "producer \<Rightarrow> key_ring \<Rightarrow> bool" where
  "producer_ok PIdle r \<longleftrightarrow> True"
| "producer_ok (PTail c t) r \<longleftrightarrow> t = TAIL r"
| "producer_ok (PStore c t) r \<longleftrightarrow> t = TAIL r \<and> ring_size r < 255"
| "producer_ok (PPublish c t) r \<longleftrightarrow> t = TAIL r \<and> ring_size r < 255 \<and> BUFFER r ! t = c"

fun consumer_ok :: "consumer \<Rightarrow> key_ring \<Rightarrow> bool" where
  "consumer_ok CIdle r \<longleftrightarrow> True"
| "consumer_ok (CHead h) r \<longleftrightarrow> h = HEAD r"
| "consumer_ok (CRead h) r \<longleftrightarrow> h = HEAD r \<and> h \<noteq> TAIL r"
| "consumer_ok (CAdvance h c) r \<longleftrightarrow> h = HEAD r \<and> h \<noteq> TAIL r \<and> BUFFER r ! h = c"

text \<open>What was stored is what was taken, followed by what the ring still holds.\<close>

definition race_inv :: "ring_race \<Rightarrow> bool" where
  "race_inv s \<longleftrightarrow> ring_ok (rring s) \<and> producer_ok (prod s) (rring s) \<and> consumer_ok (cons s) (rring s)
     \<and> stored s = taken s @ ring_items (rring s)"

lemma ring_store_beyond:
  fixes c :: codepoint
  assumes "ring_ok r"
  defines "r' \<equiv> r\<lparr>BUFFER := (BUFFER r)[TAIL r := c]\<rparr>"
  shows "ring_ok r'" and "ring_items r' = ring_items r" and "ring_size r' = ring_size r"
    and "HEAD r \<noteq> TAIL r \<Longrightarrow> BUFFER r' ! HEAD r = BUFFER r ! HEAD r"
    and "BUFFER r' ! TAIL r = c"
proof -
  have b: "HEAD r < 256" "TAIL r < 256" "length (BUFFER r) = 256" using assms by (auto simp: ring_ok_def)
  note a = ring_arith [OF b(1,2), folded ring_size_def]
  have "TAIL r \<noteq> (HEAD r + k) mod 256" if "k < ring_size r" for k
    using ring_index_distinct [OF b(1) that a(1)] a(2) by simp
  then show "ring_items r' = ring_items r"
    by (simp add: r'_def ring_items_def ring_size_def nth_list_update_neq)
qed (use assms in \<open>auto simp: r'_def ring_ok_def ring_size_def\<close>)

lemma ring_publish:
  assumes "ring_ok r" and "ring_size r < 255"
  defines "r' \<equiv> r\<lparr>TAIL := (TAIL r + 1) mod 256\<rparr>"
  shows "ring_ok r'" and "ring_items r' = ring_items r @ [BUFFER r ! TAIL r]"
    and "HEAD r \<noteq> TAIL r \<Longrightarrow> HEAD r \<noteq> TAIL r'"
proof -
  have b: "HEAD r < 256" "TAIL r < 256" using assms by (auto simp: ring_ok_def)
  note a = ring_arith [OF b, folded ring_size_def]
  have s: "ring_size r' = Suc (ring_size r)" using a(5) assms(2) by (simp add: r'_def ring_size_def)
  show "ring_items r' = ring_items r @ [BUFFER r ! TAIL r]"
    unfolding ring_items_def s using a(2) by (simp add: r'_def)
  show "HEAD r \<noteq> TAIL r'" using a(4) assms(2) by (auto simp: r'_def)
  show "ring_ok r'" using assms by (simp add: r'_def ring_ok_def)
qed

lemma ring_advance:
  assumes "ring_ok r" and "HEAD r \<noteq> TAIL r"
  defines "r' \<equiv> r\<lparr>HEAD := (HEAD r + 1) mod 256\<rparr>"
  shows "ring_ok r'" and "ring_items r = BUFFER r ! HEAD r # ring_items r'"
    and "ring_size r < 255 \<Longrightarrow> ring_size r' < 255"
proof -
  have "ring_size r = Suc (ring_size r')"
    using ring_arith(3,6) [of "HEAD r" "TAIL r"] assms by (simp add: r'_def ring_size_def ring_ok_def)
  moreover from this have "pop_key r = Inr (Some (BUFFER r ! HEAD r), r')"
    using assms by (simp add: pop_key_def Let_def BUF_SIZE_def add_w_def ring_ok_def)
  ultimately show "ring_ok r'" "ring_items r = BUFFER r ! HEAD r # ring_items r'"
      "ring_size r < 255 \<Longrightarrow> ring_size r' < 255"
    using pop_key_ok [OF assms(1)] by (auto split: list.splits)
qed

lemma ring_step_inv:
  assumes "ring_step s s'" and "race_inv s"
  shows "race_inv s'"
  using assms(1)
proof cases
  case (not_full c t)
  then show ?thesis
    using assms(2) ring_arith(4) [of "HEAD (rring s)" "TAIL (rring s)"]
    by (auto simp: race_inv_def BUF_SIZE_def ring_size_def ring_ok_def)
next
  case (store c t)
  then have r: "ring_ok (rring s)" "t = TAIL (rring s)" using assms(2) by (auto simp: race_inv_def)
  show ?thesis
    using store assms(2) ring_store_beyond [OF r(1), of c] r(2)
    by (cases "cons s") (auto simp: race_inv_def)
next
  case (publish c t)
  then have r: "ring_ok (rring s)" "ring_size (rring s) < 255" "t = TAIL (rring s)"
    using assms(2) by (auto simp: race_inv_def)
  show ?thesis
    using publish assms(2) ring_publish [OF r(1,2)] r(3)
    by (cases "cons s") (auto simp: race_inv_def BUF_SIZE_def)
next
  case (advance h c)
  then have r: "ring_ok (rring s)" "HEAD (rring s) \<noteq> TAIL (rring s)" "h = HEAD (rring s)"
    using assms(2) by (auto simp: race_inv_def)
  show ?thesis
    using advance assms(2) ring_advance [OF r(1,2)] r(3)
    by (cases "prod s") (auto simp: race_inv_def BUF_SIZE_def)
qed (use assms(2) in \<open>auto simp: race_inv_def\<close>)

lemma ring_reachable_inv: "ring_reachable s \<Longrightarrow> race_inv s"
proof (induction rule: ring_reachable.induct)
  case boot
  then show ?case
    by (simp add: race_inv_def empty_ring_def ring_ok_def BUF_SIZE_def ring_items_def ring_size_def)
next
  case (step s s')
  then show ?case using ring_step_inv by blast
qed

section \<open>The handler\<close>

lemma process_key_ring:
  assumes "ring_ok (ring w)"
  shows "\<exists>w'. process_key key w = Inr w' \<and> ring_ok (ring w')
    \<and> (\<exists>codes. ring_items (ring w') = ring_items (ring w) @ codes \<and> 3 \<notin> set codes)"
proof -
  have push: "\<exists>w'. push_keys xs w = Inr w' \<and> ring_ok (ring w')
      \<and> (\<exists>codes. ring_items (ring w') = ring_items (ring w) @ codes \<and> 3 \<notin> set codes)"
    if "3 \<notin> set xs" for xs
    using key_queue.enq_list [OF assms, of xs] that in_set_takeD [of 3 _ xs]
    by (fastforce simp: push_keys_def)
  show ?thesis
  proof (cases key)
    case None
    then show ?thesis using assms by (simp add: process_key_def)
  next
    case (Some k)
    then show ?thesis
      using assms push [of "[c]" for c] push [of "raw_key_codes k" for k]
      by (cases k) (auto simp: process_key_def raw_key_codes_def split: option.splits KeyCode.splits)
  qed
qed

lemma process_key_tasks:
  assumes "process_key key w = Inr w'"
  shows "kmanager w' = kmanager w
    \<or> key = Some (Unicode 3) \<and> (\<exists>i. current_task (kmanager w) = Some i \<and> 1 < i
        \<and> kmanager w' = exit_current_task (kmanager w))"
  using assms
  by (auto simp: process_key_def push_keys_def bindR_Inr_iff
      split: option.splits DecodedKey.splits if_splits)

section \<open>Properties\<close>

lemma ring_ok_empty: "ring_ok empty_ring" "ring_items empty_ring = []"
  by (simp_all add: empty_ring_def ring_ok_def BUF_SIZE_def ring_items_def ring_size_def)

text \<open>
  C32: the ring of 256 cells is a queue of at most 255 keys: pushing a sequence appends as
  many of its keys as there is room for and drops the rest, and popping returns the
  oldest key, or nothing from an empty ring. No index or counter of the ring overflows.
\<close>

theorem key_ring_is_bounded_queue:
  assumes "ring_ok r"
  shows "(\<exists>r'. foldR push_key xs r = Inr r' \<and> ring_ok r'
       \<and> ring_items r' = ring_items r @ take (255 - length (ring_items r)) xs)
    \<and> (\<exists>r'. pop_key r = Inr (case ring_items r of [] \<Rightarrow> None | c # _ \<Rightarrow> Some c, r')
       \<and> ring_ok r' \<and> ring_items r' = tl (ring_items r))"
  using key_queue.enq_list [OF assms] key_queue.deq_ok [OF assms] by blast

theorem key_ring_is_bounded_queue_witness:
  "ring_ok empty_ring \<and> (\<exists>r r'. foldR push_key [0x61, 0x62] empty_ring = Inr r \<and> ring_items r = [0x61, 0x62]
     \<and> pop_key r = Inr (Some 0x61, r') \<and> ring_items r' = [0x62])"
proof -
  obtain r where r: "foldR push_key [0x61, 0x62] empty_ring = Inr r" "ring_ok r" "ring_items r = [0x61, 0x62]"
    using key_ring_is_bounded_queue [OF ring_ok_empty(1), of "[0x61, 0x62]"] by (auto simp: ring_ok_empty)
  then show ?thesis using ring_ok_empty key_ring_is_bounded_queue [OF r(2)] by fastforce
qed

text \<open>
  C24: under every interleaving of the interrupt handler's atomic steps with the reader's, the
  keys stored so far are the keys taken so far followed by the contents of the ring, in
  order: no key is lost, duplicated or reordered once stored.
\<close>

theorem key_ring_race_free:
  assumes "ring_reachable s"
  shows "ring_ok (rring s) \<and> stored s = taken s @ ring_items (rring s)"
  using ring_reachable_inv [OF assms] by (simp add: race_inv_def)

theorem key_ring_race_free_witness:
  "\<exists>s. ring_reachable s \<and> prod s = PTail 0x61 0 \<and> cons s = CHead 0 \<and> stored s = taken s @ ring_items (rring s)"
proof -
  let ?s0 = "\<lparr>rring = empty_ring, prod = PIdle, cons = CIdle, stored = [], taken = []\<rparr>"
  have 1: "ring_reachable (?s0\<lparr>prod := PTail 0x61 (TAIL (rring ?s0))\<rparr>)"
    by (rule ring_reachable.step [OF ring_reachable.boot ring_step.load_tail]) simp
  have 2: "ring_reachable (?s0\<lparr>prod := PTail 0x61 0, cons := CHead 0\<rparr>)"
    using ring_reachable.step [OF 1 ring_step.load_head] by (simp add: empty_ring_def)
  show ?thesis using key_ring_race_free [OF 2] 2 by fastforce
qed

end
