(* ===== verification/Block_Device.thy ===== *)
theory Block_Device
  imports Kernel_Error
begin

text \<open>
  The \<^verbatim>\<open>BlockDevice\<close> trait of \<^verbatim>\<open>src/fs/mod.rs\<close> as a record of operations over a device state,
  the locale \<open>sector_store\<close> with the laws of a healthy device, and codecs for packed
  on-disk structures shared by the partition and file system drivers.
\<close>

section \<open>The trait\<close>

text \<open>\<open>rd lba n\<close> fills a buffer of \<open>n\<close> bytes and returns its new contents.\<close>

record 's block_device =
  rd :: "nat \<Rightarrow> nat \<Rightarrow> ('s, DriverError, u8 list) kop"
  wr :: "nat \<Rightarrow> u8 list \<Rightarrow> ('s, DriverError, unit) kop"

text \<open>The call pattern of the drivers: any driver error becomes a fixed file system error.\<close>

definition rd_sector :: "'s block_device \<Rightarrow> nat \<Rightarrow> ('s, FsError, u8 list) kop" where
  "rd_sector dev lba = map_errK (\<lambda>_. BlockRead) (rd dev lba 512)"

definition wr_sector :: "'s block_device \<Rightarrow> nat \<Rightarrow> u8 list \<Rightarrow> ('s, FsError, unit) kop" where
  "wr_sector dev lba bs = map_errK (\<lambda>_. BlockWrite) (wr dev lba bs)"

section \<open>Healthy devices\<close>

locale sector_store =
  fixes dev :: "'s block_device"
    and ok :: "'s \<Rightarrow> bool"
    and sectors :: "'s \<Rightarrow> nat \<Rightarrow> u8 list"
    and limit :: nat
  assumes read_law: "ok s \<Longrightarrow> lba < limit \<Longrightarrow>
      \<exists>s'. rd dev lba 512 s = Inr (Inr (sectors s lba), s') \<and> ok s' \<and> sectors s' = sectors s"
    and write_law: "ok s \<Longrightarrow> lba < limit \<Longrightarrow> length bs = 512 \<Longrightarrow>
      \<exists>s'. wr dev lba bs s = Inr (Inr (), s') \<and> ok s' \<and> sectors s' = (sectors s)(lba := bs)"
    and sector_length: "ok s \<Longrightarrow> lba < limit \<Longrightarrow> length (sectors s lba) = 512"
begin

lemma rd_sector_ok:
  "ok s \<Longrightarrow> lba < limit \<Longrightarrow>
   \<exists>s'. rd_sector dev lba s = Inr (Inr (sectors s lba), s') \<and> ok s' \<and> sectors s' = sectors s"
  using read_law by (fastforce simp: rd_sector_def intro: map_errK_ok)

lemma wr_sector_ok:
  "ok s \<Longrightarrow> lba < limit \<Longrightarrow> length bs = 512 \<Longrightarrow>
   \<exists>s'. wr_sector dev lba bs s = Inr (Inr (), s') \<and> ok s' \<and> sectors s' = (sectors s)(lba := bs)"
  using write_law by (fastforce simp: wr_sector_def intro: map_errK_ok)

text \<open>What is written is what the next read returns, and other sectors keep their bytes.\<close>

lemma read_after_write:
  assumes "ok s" and "lba < limit" and "length bs = 512" and "other < limit"
  shows "\<exists>s' s''. wr_sector dev lba bs s = Inr (Inr (), s')
    \<and> rd_sector dev other s' = Inr (Inr (if other = lba then bs else sectors s other), s'') \<and> ok s''"
proof -
  obtain s' where s': "wr_sector dev lba bs s = Inr (Inr (), s')" "ok s'"
      "sectors s' = (sectors s)(lba := bs)"
    using wr_sector_ok [OF assms(1-3)] by blast
  then show ?thesis using rd_sector_ok [OF s'(2) assms(4)] by auto
qed

end

section \<open>A device in memory\<close>

text \<open>A disk image: the sectors themselves are the state.\<close>

definition image_device :: "nat \<Rightarrow> (nat \<Rightarrow> u8 list) block_device" where
  "image_device cap =
     \<lparr>rd = (\<lambda>lba n s. if lba < cap \<and> n = 512 then Inr (Inr (s lba), s) else Inr (Inl DrvIoFailure, s)),
      wr = (\<lambda>lba bs s. if lba < cap \<and> length bs = 512 then Inr (Inr (), s(lba := bs))
                       else Inr (Inl DrvIoFailure, s))\<rparr>"

definition image_ok :: "nat \<Rightarrow> (nat \<Rightarrow> u8 list) \<Rightarrow> bool" where
  "image_ok cap s \<longleftrightarrow> (\<forall>lba < cap. length (s lba) = 512)"

interpretation image: sector_store "image_device cap" "image_ok cap" "\<lambda>s. s" cap
  by unfold_locales (auto simp: image_device_def image_ok_def)

section \<open>Packed structures\<close>

lemma bslice_append_skip: "length xs \<le> i \<Longrightarrow> bslice (xs @ ys) i n = bslice ys (i - length xs) n"
  by (simp add: bslice_def)

lemma bslice_append_here: "length xs = n \<Longrightarrow> bslice (xs @ ys) 0 n = xs"
  by (simp add: bslice_def)

lemma get_skip [simp]:
  "length xs \<le> i \<Longrightarrow> get_u16 (xs @ ys) i = get_u16 ys (i - length xs)"
  "length xs \<le> i \<Longrightarrow> get_u32 (xs @ ys) i = get_u32 ys (i - length xs)"
  "length xs \<le> i \<Longrightarrow> get_u64 (xs @ ys) i = get_u64 ys (i - length xs)"
  "length xs \<le> i \<Longrightarrow> get_u8 (xs @ ys) i = get_u8 ys (i - length xs)"
  by (simp_all add: get_u16_def get_u32_def get_u64_def get_u8_def bslice_append_skip nth_append) arith

lemma get_here [simp]:
  "get_u16 (u16_bytes a @ ys) 0 = a"
  "get_u32 (u32_bytes b @ ys) 0 = b"
  "get_u64 (u64_bytes c @ ys) 0 = c"
  "get_u8 (d # ys) 0 = d"
  using get_u16_bytes [of a] get_u32_bytes [of b] get_u64_bytes [of c]
  by (simp_all add: get_u16_def get_u32_def get_u64_def get_u8_def bslice_def)

lemma get_cons [simp]:
  "0 < i \<Longrightarrow> get_u16 (x # ys) i = get_u16 ys (i - 1)"
  "0 < i \<Longrightarrow> get_u32 (x # ys) i = get_u32 ys (i - 1)"
  "0 < i \<Longrightarrow> get_u64 (x # ys) i = get_u64 ys (i - 1)"
  "0 < i \<Longrightarrow> get_u8 (x # ys) i = get_u8 ys (i - 1)"
  using get_skip [of "[x]" i ys] by simp_all

text \<open>Reading a field out of a buffer into which a structure was copied.\<close>

lemma get_bslice:
  "i + 2 \<le> n \<Longrightarrow> get_u16 (bslice bs p n) i = get_u16 bs (p + i)"
  "i + 4 \<le> n \<Longrightarrow> get_u32 (bslice bs p n) i = get_u32 bs (p + i)"
  by (simp_all add: get_u16_def get_u32_def bslice_def take_drop min_def add.commute)

end
