(* ===== verification/Mbr.thy ===== *)
theory Mbr
  imports Block_Device
begin

text \<open>
  The partition table of \<^verbatim>\<open>src/fs/partition/mbr.rs\<close>: the packed entry, the classification
  predicates and \<^verbatim>\<open>Mbr::read_from\<close>. The lemmas give the outcome on every branch, and that a
  table written in the on-disk layout is decoded to the same entries.
\<close>

definition PART_TYPE_EMPTY :: u8 where "PART_TYPE_EMPTY = 0x00"
definition PART_TYPE_FAT16_CHS :: u8 where "PART_TYPE_FAT16_CHS = 0x06"
definition PART_TYPE_FAT32_CHS :: u8 where "PART_TYPE_FAT32_CHS = 0x0B"
definition PART_TYPE_FAT32_LBA :: u8 where "PART_TYPE_FAT32_LBA = 0x0C"
definition PART_TYPE_FAT16 :: u8 where "PART_TYPE_FAT16 = 0x0E"
definition PART_TYPE_LINUX :: u8 where "PART_TYPE_LINUX = 0x83"
definition PART_TYPE_GPT_PROTECTIVE :: u8 where "PART_TYPE_GPT_PROTECTIVE = 0xEE"

lemmas part_types = PART_TYPE_EMPTY_def PART_TYPE_FAT16_CHS_def PART_TYPE_FAT32_CHS_def
  PART_TYPE_FAT32_LBA_def PART_TYPE_FAT16_def PART_TYPE_LINUX_def PART_TYPE_GPT_PROTECTIVE_def

record PartitionEntry =
  bootable :: u8
  start_chs :: "u8 list"
  partition_type :: u8
  end_chs :: "u8 list"
  start_lba :: u32
  total_sectors :: u32

definition is_empty :: "PartitionEntry \<Rightarrow> bool" where
  "is_empty p \<longleftrightarrow> partition_type p = PART_TYPE_EMPTY"

definition is_fat :: "PartitionEntry \<Rightarrow> bool" where
  "is_fat p \<longleftrightarrow> partition_type p = PART_TYPE_FAT32_CHS \<or> partition_type p = PART_TYPE_FAT32_LBA
     \<or> partition_type p = PART_TYPE_FAT16_CHS \<or> partition_type p = PART_TYPE_FAT16"

definition is_linux :: "PartitionEntry \<Rightarrow> bool" where
  "is_linux p \<longleftrightarrow> partition_type p = PART_TYPE_LINUX"

text \<open>The 16 packed bytes of an entry, read in place.\<close>

definition decode_partition :: "u8 list \<Rightarrow> PartitionEntry" where
  "decode_partition bs =
     \<lparr>bootable = get_u8 bs 0, start_chs = bslice bs 1 3, partition_type = get_u8 bs 4,
      end_chs = bslice bs 5 3, start_lba = get_u32 bs 8, total_sectors = get_u32 bs 12\<rparr>"

type_synonym Mbr = "PartitionEntry list"

definition Mbr_read_from :: "'s block_device \<Rightarrow> ('s, FsError, Mbr) kop" where
  "Mbr_read_from disk =
     bindK (rd_sector disk 0) (\<lambda>buffer.
     if get_u8 buffer 510 \<noteq> 0x55 \<or> get_u8 buffer 511 \<noteq> 0xAA
     then failK (BadMagic 0xAA55 (get_u16 buffer 510))
     else retK (map (\<lambda>i. decode_partition (bslice buffer (446 + i * 16) 16)) [0 ..< 4]))"

definition is_gpt_protective :: "Mbr \<Rightarrow> bool" where
  "is_gpt_protective mbr \<longleftrightarrow>
     \<not> is_empty (mbr ! 0) \<and> partition_type (mbr ! 0) = PART_TYPE_GPT_PROTECTIVE"

section \<open>The on-disk layout\<close>

definition encode_partition :: "PartitionEntry \<Rightarrow> u8 list" where
  "encode_partition p =
     bootable p # start_chs p @ partition_type p # end_chs p @ u32_bytes (start_lba p)
     @ u32_bytes (total_sectors p)"

definition entry_ok :: "PartitionEntry \<Rightarrow> bool" where
  "entry_ok p \<longleftrightarrow> length (start_chs p) = 3 \<and> length (end_chs p) = 3"

definition encode_mbr :: "u8 list \<Rightarrow> Mbr \<Rightarrow> u8 list" where
  "encode_mbr boot mbr = boot @ concat (map encode_partition mbr) @ [0x55, 0xAA]"

lemma length_encode_partition: "entry_ok p \<Longrightarrow> length (encode_partition p) = 16"
  by (simp add: encode_partition_def entry_ok_def)

lemma decode_encode_partition:
  assumes "entry_ok p"
  shows "decode_partition (encode_partition p) = p"
proof -
  obtain a b c where s: "start_chs p = [a, b, c]"
    using assms by (auto simp: entry_ok_def length_Suc_conv numeral_3_eq_3)
  obtain d e f where t: "end_chs p = [d, e, f]"
    using assms by (auto simp: entry_ok_def length_Suc_conv numeral_3_eq_3)
  have "get_u32 (u32_bytes x) 0 = x" for x by simp
  then show ?thesis
    by (simp add: decode_partition_def encode_partition_def s t bslice_def numeral_eq_Suc)
qed

lemma mbr_round_trip:
  assumes "length boot = 446" and "length mbr = 4" and "list_all entry_ok mbr"
  defines "sector \<equiv> encode_mbr boot mbr"
  shows "length sector = 512" and "get_u8 sector 510 = 0x55" and "get_u8 sector 511 = 0xAA"
    and "map (\<lambda>i. decode_partition (bslice sector (446 + i * 16) 16)) [0 ..< 4] = mbr"
proof -
  obtain p q r t where m: "mbr = [p, q, r, t]"
    using assms(2) by (auto simp: length_Suc_conv numeral_eq_Suc)
  note l = length_encode_partition
  have ok: "entry_ok p" "entry_ok q" "entry_ok r" "entry_ok t" using assms(3) m by auto
  show "length sector = 512" using assms(1) ok by (simp add: sector_def encode_mbr_def m l)
  show "get_u8 sector 510 = 0x55" "get_u8 sector 511 = 0xAA"
    using assms(1) ok by (simp_all add: sector_def encode_mbr_def m l)
  have "bslice sector 446 16 = encode_partition p" "bslice sector 462 16 = encode_partition q"
    "bslice sector 478 16 = encode_partition r" "bslice sector 494 16 = encode_partition t"
    using assms(1) ok
    by (simp_all add: sector_def encode_mbr_def m l bslice_append_skip bslice_append_here)
  then show "map (\<lambda>i. decode_partition (bslice sector (446 + i * 16) 16)) [0 ..< 4] = mbr"
    using ok by (simp add: m upt_rec decode_encode_partition)
qed

context sector_store
begin

lemma mbr_read_ok:
  assumes "ok s" and "0 < limit" and "length boot = 446" and "length mbr = 4" and "list_all entry_ok mbr"
    and "sectors s 0 = encode_mbr boot mbr"
  shows "\<exists>s'. Mbr_read_from dev s = Inr (Inr mbr, s') \<and> ok s' \<and> sectors s' = sectors s"
proof -
  obtain s' where "rd_sector dev 0 s = Inr (Inr (sectors s 0), s')" "ok s'" "sectors s' = sectors s"
    using rd_sector_ok [OF assms(1,2)] by blast
  then show ?thesis
    using mbr_round_trip [OF assms(3,4,5)] assms(6) by (simp add: Mbr_read_from_def bindK_ok)
qed

end

lemma mbr_read_error:
  assumes "rd disk 0 512 s = Inr (Inl e, s')"
  shows "Mbr_read_from disk s = Inr (Inl BlockRead, s')"
  using assms by (simp add: Mbr_read_from_def rd_sector_def bindK_err map_errK_err)

section \<open>Properties\<close>

text \<open>
  C33: on a healthy device, the table a partitioning tool wrote to sector 0 is the table that
  is read, entry by entry; a sector 0 without the signature gives \<^verbatim>\<open>BadMagic\<close> with the two
  bytes found. Reading changes nothing on the disk.
\<close>

theorem mbr_is_read_as_written:
  assumes dev: "sector_store dev ok sectors limit" and s: "ok s" and l: "0 < limit"
  shows "(\<forall>boot mbr. length boot = 446 \<longrightarrow> length mbr = 4 \<longrightarrow> list_all entry_ok mbr \<longrightarrow>
        sectors s 0 = encode_mbr boot mbr \<longrightarrow>
        (\<exists>s'. Mbr_read_from dev s = Inr (Inr mbr, s') \<and> ok s' \<and> sectors s' = sectors s))
    \<and> (get_u8 (sectors s 0) 510 \<noteq> 0x55 \<or> get_u8 (sectors s 0) 511 \<noteq> 0xAA \<longrightarrow>
        (\<exists>s'. Mbr_read_from dev s = Inr (Inl (BadMagic 0xAA55 (get_u16 (sectors s 0) 510)), s') \<and> sectors s' = sectors s))"
proof -
  obtain s' where "rd_sector dev 0 s = Inr (Inr (sectors s 0), s')" "ok s'" "sectors s' = sectors s"
    using sector_store.rd_sector_ok [OF dev s l] by blast
  then have "get_u8 (sectors s 0) 510 \<noteq> 0x55 \<or> get_u8 (sectors s 0) 511 \<noteq> 0xAA \<longrightarrow>
        (\<exists>s'. Mbr_read_from dev s = Inr (Inl (BadMagic 0xAA55 (get_u16 (sectors s 0) 510)), s') \<and> sectors s' = sectors s)"
    by (auto simp: Mbr_read_from_def bindK_ok failK_def)
  then show ?thesis using sector_store.mbr_read_ok [OF dev s l] by blast
qed

definition demo_mbr :: Mbr where
  "demo_mbr = \<lparr>bootable = 0x80, start_chs = [0, 1, 1], partition_type = PART_TYPE_LINUX, end_chs = [0, 2, 2],
      start_lba = 2048, total_sectors = 4096\<rparr>
    # replicate 3 \<lparr>bootable = 0, start_chs = [0, 0, 0], partition_type = 0, end_chs = [0, 0, 0], start_lba = 0, total_sectors = 0\<rparr>"

theorem mbr_is_read_as_written_witness:
  "\<exists>s'. Mbr_read_from (image_device 1) (\<lambda>_. encode_mbr (replicate 446 0) demo_mbr) = Inr (Inr demo_mbr, s')"
proof -
  let ?s = "\<lambda>_ :: nat. encode_mbr (replicate 446 0) demo_mbr"
  have m: "length demo_mbr = 4" "list_all entry_ok demo_mbr"
    by (simp_all add: demo_mbr_def entry_ok_def numeral_3_eq_3)
  have ok: "image_ok 1 ?s"
    using mbr_round_trip(1) [of "replicate 446 0", OF _ m] by (simp add: image_ok_def)
  have "sector_store (image_device 1) (image_ok 1) (\<lambda>s. s) 1" by (rule image.sector_store_axioms)
  from mbr_is_read_as_written [where s = ?s and ok = "image_ok 1" and sectors = "\<lambda>s. s", OF this ok] m
  show ?thesis by fastforce
qed

end
