(* ===== verification/Ext4_Layout.thy ===== *)
theory Ext4_Layout
  imports Block_Device
begin

text \<open>
  The on-disk structures of \<^verbatim>\<open>src/fs/ext4\<close> (super block, block group descriptor, inode,
  extent header and extent, directory entry header) as records, and the byte copies by
  which the driver moves them in and out of buffers. The lemmas are the round trips of the
  inode and of the extent tree root.
\<close>

section \<open>Super block\<close>

record Ext4SuperBlock =
  s_inodes_count :: u32
  s_blocks_count_lo :: u32
  s_r_blocks_count_lo :: u32
  s_free_blocks_count_lo :: u32
  s_free_inodes_count :: u32
  s_first_data_block :: u32
  s_log_block_size :: u32
  s_log_cluster_size :: u32
  s_blocks_per_group :: u32
  s_clusters_per_group :: u32
  s_inodes_per_group :: u32
  s_mtime :: u32
  s_wtime :: u32
  s_mnt_count :: u16
  s_max_mnt_count :: u16
  s_magic :: u16
  s_state :: u16
  s_errors :: u16
  s_minor_rev_level :: u16
  s_lastcheck :: u32
  s_checkinterval :: u32
  s_creator_os :: u32
  s_rev_level :: u32
  s_def_resuid :: u16
  s_def_resgid :: u16

definition decode_super_block :: "u8 list \<Rightarrow> Ext4SuperBlock" where
  "decode_super_block bs =
     \<lparr>s_inodes_count = get_u32 bs 0, s_blocks_count_lo = get_u32 bs 4,
      s_r_blocks_count_lo = get_u32 bs 8, s_free_blocks_count_lo = get_u32 bs 12,
      s_free_inodes_count = get_u32 bs 16, s_first_data_block = get_u32 bs 20,
      s_log_block_size = get_u32 bs 24, s_log_cluster_size = get_u32 bs 28,
      s_blocks_per_group = get_u32 bs 32, s_clusters_per_group = get_u32 bs 36,
      s_inodes_per_group = get_u32 bs 40, s_mtime = get_u32 bs 44, s_wtime = get_u32 bs 48,
      s_mnt_count = get_u16 bs 52, s_max_mnt_count = get_u16 bs 54, s_magic = get_u16 bs 56,
      s_state = get_u16 bs 58, s_errors = get_u16 bs 60, s_minor_rev_level = get_u16 bs 62,
      s_lastcheck = get_u32 bs 64, s_checkinterval = get_u32 bs 68, s_creator_os = get_u32 bs 72,
      s_rev_level = get_u32 bs 76, s_def_resuid = get_u16 bs 80, s_def_resgid = get_u16 bs 82\<rparr>"

text \<open>\<^verbatim>\<open>1024 << s_log_block_size\<close>: a shift of 64 or more panics, bits beyond the word are lost.\<close>

definition sb_block_size :: "Ext4SuperBlock \<Rightarrow> nat run" where
  "sb_block_size sb = shl_w 64 1024 (unat (s_log_block_size sb))"

section \<open>Block group descriptor\<close>

record Ext4BlockGroupDescriptor =
  bg_block_bitmap_lo :: u32
  bg_inode_bitmap_lo :: u32
  bg_inode_table_lo :: u32
  bg_free_blocks_count_lo :: u16
  bg_free_inodes_count_lo :: u16
  bg_used_dirs_count_lo :: u16
  bg_flags :: u16
  bg_exclude_bitmap_lo :: u32
  bg_block_bitmap_csum_lo :: u16
  bg_inode_bitmap_csum_lo :: u16
  bg_itable_unused_lo :: u16
  bg_checksum :: u16

definition decode_bgd :: "u8 list \<Rightarrow> nat \<Rightarrow> Ext4BlockGroupDescriptor" where
  "decode_bgd bs p =
     \<lparr>bg_block_bitmap_lo = get_u32 bs p, bg_inode_bitmap_lo = get_u32 bs (p + 4),
      bg_inode_table_lo = get_u32 bs (p + 8), bg_free_blocks_count_lo = get_u16 bs (p + 12),
      bg_free_inodes_count_lo = get_u16 bs (p + 14), bg_used_dirs_count_lo = get_u16 bs (p + 16),
      bg_flags = get_u16 bs (p + 18), bg_exclude_bitmap_lo = get_u32 bs (p + 20),
      bg_block_bitmap_csum_lo = get_u16 bs (p + 24), bg_inode_bitmap_csum_lo = get_u16 bs (p + 26),
      bg_itable_unused_lo = get_u16 bs (p + 28), bg_checksum = get_u16 bs (p + 30)\<rparr>"

section \<open>Inode\<close>

record Ext4Inode =
  i_mode :: u16
  i_uid :: u16
  i_size_lo :: u32
  i_atime :: u32
  i_ctime :: u32
  i_mtime :: u32
  i_dtime :: u32
  i_gid :: u16
  i_links_count :: u16
  i_blocks_lo :: u32
  i_flags :: u32
  i_osd1 :: u32
  i_block :: "u8 list"
  i_generation :: u32
  i_file_acl_lo :: u32
  i_size_hi :: u32
  i_obso_faddr :: u32

definition INODE_STRUCT :: nat where
  "INODE_STRUCT = 116"

definition decode_inode :: "u8 list \<Rightarrow> Ext4Inode" where
  "decode_inode bs =
     \<lparr>i_mode = get_u16 bs 0, i_uid = get_u16 bs 2, i_size_lo = get_u32 bs 4, i_atime = get_u32 bs 8,
      i_ctime = get_u32 bs 12, i_mtime = get_u32 bs 16, i_dtime = get_u32 bs 20,
      i_gid = get_u16 bs 24, i_links_count = get_u16 bs 26, i_blocks_lo = get_u32 bs 28,
      i_flags = get_u32 bs 32, i_osd1 = get_u32 bs 36, i_block = bslice bs 40 60,
      i_generation = get_u32 bs 100, i_file_acl_lo = get_u32 bs 104, i_size_hi = get_u32 bs 108,
      i_obso_faddr = get_u32 bs 112\<rparr>"

definition encode_inode :: "Ext4Inode \<Rightarrow> u8 list" where
  "encode_inode i =
     u16_bytes (i_mode i) @ u16_bytes (i_uid i) @ u32_bytes (i_size_lo i) @ u32_bytes (i_atime i)
     @ u32_bytes (i_ctime i) @ u32_bytes (i_mtime i) @ u32_bytes (i_dtime i) @ u16_bytes (i_gid i)
     @ u16_bytes (i_links_count i) @ u32_bytes (i_blocks_lo i) @ u32_bytes (i_flags i)
     @ u32_bytes (i_osd1 i) @ i_block i @ u32_bytes (i_generation i) @ u32_bytes (i_file_acl_lo i)
     @ u32_bytes (i_size_hi i) @ u32_bytes (i_obso_faddr i)"

definition inode_wf :: "Ext4Inode \<Rightarrow> bool" where
  "inode_wf i \<longleftrightarrow> length (i_block i) = 60"

definition zeroed_inode :: Ext4Inode where
  "zeroed_inode =
     \<lparr>i_mode = 0, i_uid = 0, i_size_lo = 0, i_atime = 0, i_ctime = 0, i_mtime = 0, i_dtime = 0,
      i_gid = 0, i_links_count = 0, i_blocks_lo = 0, i_flags = 0, i_osd1 = 0,
      i_block = replicate 60 0, i_generation = 0, i_file_acl_lo = 0, i_size_hi = 0,
      i_obso_faddr = 0\<rparr>"

definition inode_is_directory :: "Ext4Inode \<Rightarrow> bool" where
  "inode_is_directory i \<longleftrightarrow> i_mode i AND 0xF000 = 0x4000"

definition inode_size :: "Ext4Inode \<Rightarrow> nat" where
  "inode_size i = unat (i_size_hi i) * 2 ^ 32 + unat (i_size_lo i)"

section \<open>Extents and directory entries\<close>

record Ext4ExtentHeader =
  eh_magic :: u16
  eh_entries :: u16
  eh_max :: u16
  eh_depth :: u16
  eh_generation :: u32

record Ext4Extent =
  ee_block :: u32
  ee_len :: u16
  ee_start_hi :: u16
  ee_start_lo :: u32

definition decode_extent_header :: "u8 list \<Rightarrow> Ext4ExtentHeader" where
  "decode_extent_header bs =
     \<lparr>eh_magic = get_u16 bs 0, eh_entries = get_u16 bs 2, eh_max = get_u16 bs 4,
      eh_depth = get_u16 bs 6, eh_generation = get_u32 bs 8\<rparr>"

definition encode_extent_header :: "Ext4ExtentHeader \<Rightarrow> u8 list" where
  "encode_extent_header h =
     u16_bytes (eh_magic h) @ u16_bytes (eh_entries h) @ u16_bytes (eh_max h)
     @ u16_bytes (eh_depth h) @ u32_bytes (eh_generation h)"

definition decode_extent :: "u8 list \<Rightarrow> nat \<Rightarrow> Ext4Extent" where
  "decode_extent bs p =
     \<lparr>ee_block = get_u32 bs p, ee_len = get_u16 bs (p + 4), ee_start_hi = get_u16 bs (p + 6),
      ee_start_lo = get_u32 bs (p + 8)\<rparr>"

definition encode_extent :: "Ext4Extent \<Rightarrow> u8 list" where
  "encode_extent e =
     u32_bytes (ee_block e) @ u16_bytes (ee_len e) @ u16_bytes (ee_start_hi e) @ u32_bytes (ee_start_lo e)"

record Ext4DirEntryHeader =
  de_inode :: u32
  de_rec_len :: u16
  de_name_len :: u8
  de_file_type :: u8

definition decode_dir_entry :: "u8 list \<Rightarrow> nat \<Rightarrow> Ext4DirEntryHeader" where
  "decode_dir_entry bs p =
     \<lparr>de_inode = get_u32 bs p, de_rec_len = get_u16 bs (p + 4), de_name_len = get_u8 bs (p + 6),
      de_file_type = get_u8 bs (p + 7)\<rparr>"

section \<open>Round trips\<close>

lemma length_encode_inode: "inode_wf i \<Longrightarrow> length (encode_inode i) = 116"
  by (simp add: encode_inode_def inode_wf_def)

lemma decode_encode_inode:
  assumes "inode_wf i"
  shows "decode_inode (encode_inode i) = i"
proof -
  have "get_u32 (u32_bytes x) 0 = x" for x by simp
  then show ?thesis
    using assms
    by (simp add: decode_inode_def encode_inode_def inode_wf_def bslice_append_skip bslice_append_here)
qed

lemma decode_inode_wf: "116 \<le> length bs \<Longrightarrow> inode_wf (decode_inode bs)"
  by (simp add: inode_wf_def decode_inode_def bslice_def)

text \<open>A copied inode is found again at the place it was copied to.\<close>

lemma decode_inode_bsplice:
  assumes "inode_wf i" and "p + 116 \<le> length bs"
  shows "decode_inode (bslice (bsplice bs p (encode_inode i)) p 116) = i"
  using bslice_bsplice_same [of p "encode_inode i" bs] assms length_encode_inode [OF assms(1)]
  by (simp add: decode_encode_inode)

lemma length_extent [simp]:
  "length (encode_extent_header h) = 12" "length (encode_extent e) = 12"
  by (simp_all add: encode_extent_header_def encode_extent_def)

lemma decode_encode_extent_header: "decode_extent_header (encode_extent_header h @ ys) = h"
  by (simp add: decode_extent_header_def encode_extent_header_def)

lemma decode_encode_extent: "length xs = p \<Longrightarrow> decode_extent (xs @ encode_extent e @ ys) p = e"
  by (simp add: decode_extent_def encode_extent_def)

end
