(* ===== verification/Ext4_Volume.thy ===== *)
theory Ext4_Volume
  imports Ext4_Layout
begin

text \<open>
  The volume operations of \<^verbatim>\<open>src/fs/ext4/volume.rs\<close> over an arbitrary block device: mount,
  the two bitmap allocators, inode read and read-modify-write, block writes, and the
  translation of a logical block through the extent tree root. Arithmetic on values that
  come from the disk is checked, so the panics a corrupted volume can cause are visible.
  The lemmas show what each operation does on a healthy device.
\<close>

section \<open>Mounting\<close>

record Ext4Volume =
  vol_start_lba :: nat
  super_block :: Ext4SuperBlock

definition ext4_mount :: "'s block_device \<Rightarrow> nat \<Rightarrow> ('s, FsError, Ext4Volume) kop" where
  "ext4_mount dev lba =
     bindK (liftR (add64 lba 2)) (\<lambda>super_block_sector.
     bindK (rd_sector dev super_block_sector) (\<lambda>b0.
     bindK (liftR (add64 super_block_sector 1)) (\<lambda>second.
     bindK (rd_sector dev second) (\<lambda>b1.
     let sb = decode_super_block (b0 @ b1) in
     if s_magic sb \<noteq> 0xEF53 then failK (BadMagic 0xEF53 (s_magic sb))
     else retK \<lparr>vol_start_lba = lba, super_block = sb\<rparr>))))"

definition vol_block_size :: "Ext4Volume \<Rightarrow> nat run" where
  "vol_block_size v = sb_block_size (super_block v)"

definition bgd_block :: "Ext4Volume \<Rightarrow> nat run" where
  "bgd_block v = bindR (vol_block_size v) (\<lambda>bs. Inr (if bs = 1024 then 2 else 1))"

text \<open>\<^verbatim>\<open>self.start_lba + block * (block_size / 512)\<close>\<close>

definition block_sector :: "Ext4Volume \<Rightarrow> nat \<Rightarrow> nat \<Rightarrow> nat run" where
  "block_sector v block_size block =
     bindR (mul64 block (block_size div 512)) (\<lambda>n. add64 (vol_start_lba v) n)"

text \<open>The descriptor of a group, as every operation reads it: from the first table sector.\<close>

definition read_bgd :: "'s block_device \<Rightarrow> Ext4Volume \<Rightarrow> nat \<Rightarrow> ('s, FsError, Ext4BlockGroupDescriptor) kop" where
  "read_bgd dev v group_index =
     bindK (liftR (vol_block_size v)) (\<lambda>block_size.
     bindK (liftR (bgd_block v)) (\<lambda>bgd_block_logic.
     bindK (liftR (block_sector v block_size bgd_block_logic)) (\<lambda>bgd_sector_start.
     bindK (rd_sector dev bgd_sector_start) (\<lambda>bgd_buffer.
     retK (decode_bgd bgd_buffer (group_index * 32 mod 512))))))"

section \<open>Bitmap allocation\<close>

definition scan_byte :: "u8 \<Rightarrow> nat option" where
  "scan_byte byte = find (\<lambda>bit_index. byte AND push_bit bit_index 1 = 0) [0 ..< 8]"

fun scan_bitmap :: "nat \<Rightarrow> u8 list \<Rightarrow> (nat \<times> nat) option" where
  "scan_bitmap byte_index [] = None"
| "scan_bitmap byte_index (byte # bytes) =
     (if byte \<noteq> 0xFF
      then (case scan_byte byte of
              Some bit_index \<Rightarrow> Some (byte_index, bit_index)
            | None \<Rightarrow> scan_bitmap (byte_index + 1) bytes)
      else scan_bitmap (byte_index + 1) bytes)"

definition mark_bit :: "u8 list \<Rightarrow> nat \<Rightarrow> nat \<Rightarrow> u8 list" where
  "mark_bit bytes byte_index bit_index =
     bytes[byte_index := bytes ! byte_index OR push_bit bit_index 1]"

definition allocate_inode :: "'s block_device \<Rightarrow> Ext4Volume \<Rightarrow> ('s, FsError, u32) kop" where
  "allocate_inode dev v =
     bindK (liftR (vol_block_size v)) (\<lambda>block_size.
     bindK (read_bgd dev v 0) (\<lambda>bgd.
     bindK (liftR (block_sector v block_size (unat (bg_inode_bitmap_lo bgd)))) (\<lambda>bitmap_sector.
     bindK (rd_sector dev bitmap_sector) (\<lambda>bitmap_buffer.
     case scan_bitmap 0 bitmap_buffer of
       Some (byte_index, bit_index) \<Rightarrow>
         bindK (wr_sector dev bitmap_sector (mark_bit bitmap_buffer byte_index bit_index)) (\<lambda>_.
         retK (word_of_nat (byte_index * 8 + bit_index + 1)))
     | None \<Rightarrow> failK OutOfInodes))))"

definition allocate_block :: "'s block_device \<Rightarrow> Ext4Volume \<Rightarrow> ('s, FsError, u32) kop" where
  "allocate_block dev v =
     bindK (liftR (vol_block_size v)) (\<lambda>block_size.
     bindK (read_bgd dev v 0) (\<lambda>bgd.
     bindK (liftR (block_sector v block_size (unat (bg_block_bitmap_lo bgd)))) (\<lambda>bitmap_sector.
     bindK (rd_sector dev bitmap_sector) (\<lambda>bitmap_buffer.
     case scan_bitmap 0 bitmap_buffer of
       Some (byte_index, bit_index) \<Rightarrow>
         bindK (wr_sector dev bitmap_sector (mark_bit bitmap_buffer byte_index bit_index)) (\<lambda>_.
         retK (word_of_nat (byte_index * 8 + bit_index)))
     | None \<Rightarrow> failK OutOfBlocks))))"

section \<open>Inodes\<close>

text \<open>The sector that holds an inode and its offset there.\<close>

definition locate_inode :: "'s block_device \<Rightarrow> Ext4Volume \<Rightarrow> u32 \<Rightarrow> ('s, FsError, nat \<times> nat) kop" where
  "locate_inode dev v inode_num =
     bindK (liftR (vol_block_size v)) (\<lambda>block_size.
     let inodes_per_group = unat (s_inodes_per_group (super_block v)); inode_size = 256 in
     bindK (liftR (div_w (unat inode_num - 1) inodes_per_group)) (\<lambda>group_index.
     bindK (liftR (mod_w (unat inode_num - 1) inodes_per_group)) (\<lambda>inode_index_in_group.
     bindK (read_bgd dev v group_index) (\<lambda>bgd.
     bindK (liftR (mul64 (unat (bg_inode_table_lo bgd)) block_size)) (\<lambda>table.
     bindK (liftR (add64 table (inode_index_in_group * inode_size))) (\<lambda>absolute_byte_offset.
     bindK (liftR (add64 (vol_start_lba v) (absolute_byte_offset div 512))) (\<lambda>target_sector.
     retK (target_sector, absolute_byte_offset mod 512))))))))"

definition inode_in_range :: "Ext4Volume \<Rightarrow> u32 \<Rightarrow> bool" where
  "inode_in_range v n \<longleftrightarrow> 1 \<le> n \<and> n \<le> s_inodes_count (super_block v)"

definition read_inode :: "'s block_device \<Rightarrow> Ext4Volume \<Rightarrow> u32 \<Rightarrow> ('s, FsError, Ext4Inode) kop" where
  "read_inode dev v inode_num =
     (if \<not> inode_in_range v inode_num then failK CorruptedDirectory
      else bindK (locate_inode dev v inode_num) (\<lambda>(target_sector, offset_in_sector).
           bindK (rd_sector dev target_sector) (\<lambda>inode_buffer.
           retK (decode_inode (bslice inode_buffer offset_in_sector INODE_STRUCT)))))"

definition write_inode :: "'s block_device \<Rightarrow> Ext4Volume \<Rightarrow> u32 \<Rightarrow> Ext4Inode \<Rightarrow> ('s, FsError, unit) kop" where
  "write_inode dev v inode_num inode =
     (if \<not> inode_in_range v inode_num then failK CorruptedDirectory
      else bindK (locate_inode dev v inode_num) (\<lambda>(target_sector, offset_in_sector).
           bindK (rd_sector dev target_sector) (\<lambda>sector_buffer.
           wr_sector dev target_sector (bsplice sector_buffer offset_in_sector (encode_inode inode)))))"

section \<open>Data blocks and extents\<close>

definition write_data_to_block :: "'s block_device \<Rightarrow> Ext4Volume \<Rightarrow> u32 \<Rightarrow> u8 list \<Rightarrow> ('s, FsError, unit) kop" where
  "write_data_to_block dev v block_num data =
     bindK (liftR (vol_block_size v)) (\<lambda>block_size.
     if block_size < length data then failK CorruptedDirectory
     else bindK (liftR (block_sector v block_size (unat block_num))) (\<lambda>start_sector.
          let block_buffer = bsplice (replicate block_size 0) 0 data in
          foldK (\<lambda>i _.
            bindK (liftR (add64 start_sector i)) (\<lambda>sector_lba.
            wr_sector dev sector_lba (bslice block_buffer (i * 512) 512)))
          [0 ..< block_size div 512] ()))"

fun find_extent :: "Ext4Volume \<Rightarrow> nat \<Rightarrow> u32 \<Rightarrow> Ext4Extent list \<Rightarrow> nat option run" where
  "find_extent v block_size logical_block [] = Inr None"
| "find_extent v block_size logical_block (e # es) =
     (if ee_block e \<le> logical_block
      then bindR (add32 (unat (ee_block e)) (unat (ee_len e))) (\<lambda>extent_end.
           if unat logical_block < extent_end
           then let offset_in_extent = unat logical_block - unat (ee_block e);
                    physical_block = unat (ee_start_hi e) * 2 ^ 32 + unat (ee_start_lo e) in
                bindR (add64 physical_block offset_in_extent) (\<lambda>target_physical_block.
                bindR (block_sector v block_size target_physical_block) (\<lambda>sector. Inr (Some sector)))
           else find_extent v block_size logical_block es)
      else find_extent v block_size logical_block es)"

text \<open>
  \<^verbatim>\<open>logical_to_physical_sector\<close>. The entries are a raw slice over \<^verbatim>\<open>i_block\<close>, so a header
  that announces more than the four entries the array has room for is undefined behaviour.
\<close>

definition logical_to_physical_sector :: "Ext4Volume \<Rightarrow> Ext4Inode \<Rightarrow> u32 \<Rightarrow> nat option run" where
  "logical_to_physical_sector v inode logical_block =
     bindR (vol_block_size v) (\<lambda>block_size.
     let header = decode_extent_header (i_block inode); n = unat (eh_entries header) in
     if eh_magic header \<noteq> 0xF30A then Inr None
     else if eh_depth header = 0
     then bindR (assertR (12 + n * 12 \<le> 60) UndefinedBehaviour) (\<lambda>_.
          find_extent v block_size logical_block
            (map (\<lambda>k. decode_extent (i_block inode) (12 + k * 12)) [0 ..< n]))
     else Inr None)"

definition build_file_inode :: "u32 \<Rightarrow> u32 \<Rightarrow> Ext4Inode" where
  "build_file_inode file_size physical_block =
     (let header = \<lparr>eh_magic = 0xF30A, eh_entries = 1, eh_max = 4, eh_depth = 0, eh_generation = 0\<rparr>;
          extent = \<lparr>ee_block = 0, ee_len = 1, ee_start_hi = 0, ee_start_lo = physical_block\<rparr> in
      zeroed_inode\<lparr>i_mode := 0x81A4, i_uid := 0, i_size_lo := file_size, i_links_count := 1,
                   i_blocks_lo := 8, i_flags := 0x80000,
                   i_block := bsplice (bsplice (replicate 60 0) 0 (encode_extent_header header)) 12
                                (encode_extent extent)\<rparr>)"

text \<open>The allocation and write probe that \<^verbatim>\<open>debug_info\<close> runs on every mounted volume.\<close>

definition debug_probe :: "'s block_device \<Rightarrow> Ext4Volume \<Rightarrow> u8 list \<Rightarrow> ('s, FsError, unit) kop" where
  "debug_probe dev v text =
     bindK (matchK (allocate_inode dev v)) (\<lambda>r.
     case r of
       Inl _ \<Rightarrow> retK ()
     | Inr _ \<Rightarrow> bindK (matchK (allocate_block dev v)) (\<lambda>b.
         case b of
           Inl _ \<Rightarrow> retK ()
         | Inr block \<Rightarrow> bindK (matchK (write_data_to_block dev v block text)) (\<lambda>_. retK ())))"

section \<open>Bitmaps\<close>

definition bit_at :: "u8 list \<Rightarrow> nat \<Rightarrow> bool" where
  "bit_at bytes k \<longleftrightarrow> bit (bytes ! (k div 8)) (k mod 8)"

text \<open>The reference definition: the lowest clear bit of the whole bitmap.\<close>

definition first_clear :: "u8 list \<Rightarrow> nat option" where
  "first_clear bytes = find (\<lambda>k. \<not> bit_at bytes k) [0 ..< 8 * length bytes]"

lemma scan_byte_eq: "scan_byte b = find (\<lambda>j. \<not> bit b j) [0 ..< 8]"
  unfolding scan_byte_def by (rule find_cong) (auto simp: and_exp_eq_0_iff_not_bit)

lemma byte_full: "b = (0xFF :: u8) \<longleftrightarrow> (\<forall>j < 8. bit b j)"
proof -
  have m: "(0xFF :: u8) = mask 8" by (simp add: mask_eq_exp_minus_1)
  show ?thesis unfolding m by (auto simp: bit_eq_iff bit_mask_iff)
qed

lemma find_map_shift: "find P (map f xs) = map_option f (find (P \<circ> f) xs)"
  by (induction xs) auto

lemma upt_split8: "[0 ..< 8 * Suc n] = [0 ..< 8] @ map (\<lambda>k. k + 8) [0 ..< 8 * n]"
proof -
  have "[0 ..< 8 * Suc n] = [0 ..< 8] @ [8 ..< 8 + 8 * n]"
    using upt_add_eq_append [of 0 8 "8 * n"] by simp
  also have "[8 ..< 8 + 8 * n] = map (\<lambda>k. k + 8) [0 ..< 8 * n]"
    using map_add_upt [of 8 "8 * n"] by (simp add: add.commute)
  finally show ?thesis .
qed

lemma find_append2: "find P (xs @ ys) = (case find P xs of None \<Rightarrow> find P ys | Some x \<Rightarrow> Some x)"
  by (induction xs) auto

lemma div8_Suc: "(k + 8) div 8 = Suc (k div (8 :: nat))"
  by presburger

lemma first_clear_Cons:
  "first_clear (b # bytes) = (case scan_byte b of Some j \<Rightarrow> Some j
     | None \<Rightarrow> map_option (\<lambda>k. k + 8) (first_clear bytes))"
proof -
  have "find (\<lambda>k. \<not> bit_at (b # bytes) k) [0 ..< 8] = scan_byte b"
    unfolding scan_byte_eq by (rule find_cong) (auto simp: bit_at_def)
  moreover have "((\<lambda>k. \<not> bit_at (b # bytes) k) \<circ> (\<lambda>k. k + 8)) = (\<lambda>k. \<not> bit_at bytes k)"
    by (rule ext) (simp add: bit_at_def div8_Suc)
  ultimately show ?thesis
    unfolding first_clear_def length_Cons upt_split8
    by (simp add: find_append2 find_map_shift split: option.splits)
qed

lemma scan_byte_None: "scan_byte b = None \<longleftrightarrow> b = 0xFF"
  unfolding scan_byte_eq find_None_iff byte_full by auto

lemma scan_bitmap_first_clear:
  "map_option (\<lambda>(i, j). i * 8 + j) (scan_bitmap n bytes) = map_option (\<lambda>k. n * 8 + k) (first_clear bytes)"
proof (induction n bytes rule: scan_bitmap.induct)
  case (1 n)
  then show ?case by (simp add: first_clear_def)
next
  case (2 n b bytes)
  show ?case
  proof (cases "scan_byte b")
    case None
    then have "b = 0xFF" by (simp add: scan_byte_None)
    with 2 None show ?thesis
      by (simp add: first_clear_Cons option.map_comp comp_def algebra_simps)
  next
    case (Some j)
    then have "b \<noteq> 0xFF" using scan_byte_None [of b] by auto
    with Some show ?thesis by (simp add: first_clear_Cons)
  qed
qed

lemma scan_bitmap_bounds:
  "scan_bitmap n bytes = Some (i, j) \<Longrightarrow> n \<le> i \<and> i < n + length bytes \<and> j < 8"
proof (induction n bytes rule: scan_bitmap.induct)
  case (2 n b bytes)
  have "scan_byte b = Some k \<Longrightarrow> k < 8" for k by (auto simp: scan_byte_def find_Some_iff)
  with 2 show ?case by (fastforce split: if_splits option.splits)
qed simp

lemma mark_bit_at:
  assumes "j < 8" and "i < length bytes" and "k < 8 * length bytes"
  shows "bit_at (mark_bit bytes i j) k \<longleftrightarrow> k = i * 8 + j \<or> bit_at bytes k"
proof (cases "k div 8 = i")
  case True
  then have "k = i * 8 + j \<longleftrightarrow> k mod 8 = j" using assms(1) by presburger
  with True assms show ?thesis by (auto simp: bit_at_def mark_bit_def bit_or_iff bit_exp_iff)
next
  case False
  then have "k \<noteq> i * 8 + j" using assms(1) by auto
  with False show ?thesis by (simp add: bit_at_def mark_bit_def)
qed

lemma scan_bitmap_cases:
  assumes "length bytes = 512"
  obtains (full) "scan_bitmap 0 bytes = None" "first_clear bytes = None"
  | (free) i j where "scan_bitmap 0 bytes = Some (i, j)" "first_clear bytes = Some (i * 8 + j)"
      "i < 512" "j < 8"
proof (cases "scan_bitmap 0 bytes")
  case None
  then show thesis using scan_bitmap_first_clear [of 0 bytes] full by (simp add: option.map_ident)
next
  case (Some p)
  obtain i j where p: "p = (i, j)" by (cases p)
  then show thesis
    using Some scan_bitmap_first_clear [of 0 bytes] scan_bitmap_bounds [of 0 bytes i j] assms free
    by (simp add: option.map_ident)
qed

section \<open>Geometry\<close>

text \<open>A volume with block size \<open>bs\<close>, and the sector of its descriptor table.\<close>

definition bgd_sector :: "Ext4Volume \<Rightarrow> nat \<Rightarrow> nat" where
  "bgd_sector v bs = vol_start_lba v + (if bs = 1024 then 2 else 1) * (bs div 512)"

lemma block_size_512:
  assumes "vol_block_size v = Inr bs"
  shows "512 dvd bs" and "bs < 2 ^ 64"
proof -
  let ?n = "unat (s_log_block_size (super_block v))"
  from assms have b: "bs = 1024 * 2 ^ ?n mod 2 ^ 64"
    by (auto simp: vol_block_size_def sb_block_size_def shl_w_def split: if_splits)
  have "(512 :: nat) dvd 1024 * 2 ^ ?n" by (simp add: dvd_mult2)
  moreover have "(512 :: nat) dvd 2 ^ 64" by simp
  ultimately show "512 dvd bs" unfolding b by (rule dvd_mod)
  show "bs < 2 ^ 64" unfolding b by simp
qed

lemma block_sector_ok:
  "vol_start_lba v + b * (bs div 512) < 2 ^ 64 \<Longrightarrow> block_sector v bs b = Inr (vol_start_lba v + b * (bs div 512))"
  by (simp add: block_sector_def mul_w_def add_w_def)

definition inode_place :: "Ext4Volume \<Rightarrow> nat \<Rightarrow> u8 list \<Rightarrow> u32 \<Rightarrow> nat \<times> nat" where
  "inode_place v bs bgd_bytes n =
     (let ipg = unat (s_inodes_per_group (super_block v));
          bgd = decode_bgd bgd_bytes ((unat n - 1) div ipg * 32 mod 512);
          a = unat (bg_inode_table_lo bgd) * bs + (unat n - 1) mod ipg * 256 in
      (vol_start_lba v + a div 512, a mod 512))"

lemma inode_place_offset:
  assumes "512 dvd bs"
  shows "snd (inode_place v bs bytes n) \<in> {0, 256}"
proof -
  obtain k where k: "bs = 512 * k" using assms by (elim dvdE)
  have "(t * (512 * k) + x * 256) mod 512 = x * 256 mod 512" for t x :: nat
    by (metis mod_mult_self4 mult.assoc mult.commute)
  moreover have "x * 256 mod 512 = x mod 2 * 256" for x :: nat
    using mult_mod_right [of 256 x 2] by (simp add: mult.commute)
  moreover have "x mod 2 * 256 \<in> {0, 256 :: nat}" for x :: nat by (cases "x mod 2 = 0") auto
  ultimately show ?thesis by (simp add: inode_place_def Let_def k)
qed

text \<open>What an inode number needs on a volume for the driver to reach it.\<close>

definition inode_reachable :: "Ext4Volume \<Rightarrow> nat \<Rightarrow> u8 list \<Rightarrow> nat \<Rightarrow> u32 \<Rightarrow> bool" where
  "inode_reachable v bs bytes limit n \<longleftrightarrow> inode_in_range v n \<and> s_inodes_per_group (super_block v) \<noteq> 0
     \<and> (let ipg = unat (s_inodes_per_group (super_block v));
           bgd = decode_bgd bytes ((unat n - 1) div ipg * 32 mod 512) in
        unat (bg_inode_table_lo bgd) * bs + (unat n - 1) mod ipg * 256 < 2 ^ 64)
     \<and> fst (inode_place v bs bytes n) < limit \<and> fst (inode_place v bs bytes n) < 2 ^ 64"

section \<open>A healthy device\<close>

definition allocate_bit ::
    "'s block_device \<Rightarrow> Ext4Volume \<Rightarrow> (Ext4BlockGroupDescriptor \<Rightarrow> u32) \<Rightarrow> FsError \<Rightarrow> nat \<Rightarrow> ('s, FsError, u32) kop" where
  "allocate_bit dev v field err base =
     bindK (liftR (vol_block_size v)) (\<lambda>block_size.
     bindK (read_bgd dev v 0) (\<lambda>bgd.
     bindK (liftR (block_sector v block_size (unat (field bgd)))) (\<lambda>bitmap_sector.
     bindK (rd_sector dev bitmap_sector) (\<lambda>bitmap_buffer.
     case scan_bitmap 0 bitmap_buffer of
       Some (byte_index, bit_index) \<Rightarrow>
         bindK (wr_sector dev bitmap_sector (mark_bit bitmap_buffer byte_index bit_index)) (\<lambda>_.
         retK (word_of_nat (byte_index * 8 + bit_index + base)))
     | None \<Rightarrow> failK err))))"

lemma allocators_generic:
  "allocate_inode dev v = allocate_bit dev v bg_inode_bitmap_lo OutOfInodes 1"
  "allocate_block dev v = allocate_bit dev v bg_block_bitmap_lo OutOfBlocks 0"
  unfolding allocate_inode_def allocate_block_def allocate_bit_def add_0_right by (rule refl)+

definition bitmap_sector :: "Ext4Volume \<Rightarrow> nat \<Rightarrow> u32 \<Rightarrow> nat" where
  "bitmap_sector v bs block = vol_start_lba v + unat block * (bs div 512)"

definition set_bits :: "u8 list \<Rightarrow> nat \<Rightarrow> u8 list" where
  "set_bits bytes k = mark_bit bytes (k div 8) (k mod 8)"

context sector_store
begin

lemma read_bgd_ok:
  assumes "ok s" and "vol_block_size v = Inr bs" and "bgd_sector v bs < limit" and "bgd_sector v bs < 2 ^ 64"
  shows "\<exists>s'. read_bgd dev v g s = Inr (Inr (decode_bgd (sectors s (bgd_sector v bs)) (g * 32 mod 512)), s')
    \<and> ok s' \<and> sectors s' = sectors s"
proof -
  obtain s' where s': "rd_sector dev (bgd_sector v bs) s = Inr (Inr (sectors s (bgd_sector v bs)), s')"
      "ok s'" "sectors s' = sectors s"
    using rd_sector_ok [OF assms(1,3)] by blast
  have "block_sector v bs (if bs = 1024 then 2 else 1) = Inr (bgd_sector v bs)"
    using assms(4) block_sector_ok [of v "if bs = 1024 then 2 else 1" bs] by (simp add: bgd_sector_def)
  then show ?thesis
    using s' assms(2) by (simp add: read_bgd_def bgd_block_def bindK_ok)
qed

lemma allocate_bit_ok:
  fixes field :: "Ext4BlockGroupDescriptor \<Rightarrow> u32"
  assumes "ok s" and bs: "vol_block_size v = Inr bs" and b: "bgd_sector v bs < limit" "bgd_sector v bs < 2 ^ 64"
  defines "m \<equiv> bitmap_sector v bs (field (decode_bgd (sectors s (bgd_sector v bs)) 0))"
  assumes m: "m < limit" "m < 2 ^ 64"
  shows "case first_clear (sectors s m) of
      None \<Rightarrow> \<exists>s'. allocate_bit dev v field err base s = Inr (Inl err, s') \<and> ok s' \<and> sectors s' = sectors s
    | Some k \<Rightarrow> \<exists>s'. allocate_bit dev v field err base s = Inr (Inr (word_of_nat (k + base)), s') \<and> ok s'
        \<and> sectors s' = (sectors s)(m := set_bits (sectors s m) k)"
proof -
  obtain s1 where s1: "read_bgd dev v 0 s = Inr (Inr (decode_bgd (sectors s (bgd_sector v bs)) 0), s1)"
      "ok s1" "sectors s1 = sectors s"
    using read_bgd_ok [OF assms(1) bs b, of 0] by auto
  obtain s2 where s2: "rd_sector dev m s1 = Inr (Inr (sectors s m), s2)" "ok s2" "sectors s2 = sectors s"
    using rd_sector_ok [OF s1(2) m(1)] s1(3) by auto
  have bm: "block_sector v bs (unat (field (decode_bgd (sectors s (bgd_sector v bs)) 0))) = Inr m"
    using m(2) block_sector_ok by (simp add: m_def bitmap_sector_def)
  have len: "length (sectors s m) = 512" using sector_length [OF assms(1) m(1)] .
  from len show ?thesis
  proof (cases rule: scan_bitmap_cases)
    case full
    then show ?thesis using s1 s2 bm bs by (simp add: allocate_bit_def bindK_ok)
  next
    case (free i j)
    have sb: "set_bits (sectors s m) (i * 8 + j) = mark_bit (sectors s m) i j"
      using free(4) by (simp add: set_bits_def)
    have "length (mark_bit (sectors s m) i j) = 512" using len by (simp add: mark_bit_def)
    then obtain s3 where "wr_sector dev m (mark_bit (sectors s m) i j) s2 = Inr (Inr (), s3)" "ok s3"
        "sectors s3 = (sectors s)(m := mark_bit (sectors s m) i j)"
      using wr_sector_ok [OF s2(2) m(1)] s2(3) by metis
    then show ?thesis using free s1 s2 bm bs by (simp add: allocate_bit_def bindK_ok sb)
  qed
qed

end

context sector_store
begin

lemma locate_inode_ok:
  assumes "ok s" and bs: "vol_block_size v = Inr bs" and b: "bgd_sector v bs < limit" "bgd_sector v bs < 2 ^ 64"
    and r: "inode_reachable v bs (sectors s (bgd_sector v bs)) limit n"
  shows "\<exists>s'. locate_inode dev v n s = Inr (Inr (inode_place v bs (sectors s (bgd_sector v bs)) n), s')
    \<and> ok s' \<and> sectors s' = sectors s"
proof -
  let ?ipg = "unat (s_inodes_per_group (super_block v))"
  let ?g = "(unat n - 1) div ?ipg"
  obtain s1 where s1: "read_bgd dev v ?g s
      = Inr (Inr (decode_bgd (sectors s (bgd_sector v bs)) (?g * 32 mod 512)), s1)"
      "ok s1" "sectors s1 = sectors s"
    using read_bgd_ok [OF assms(1) bs b] by blast
  have "?ipg \<noteq> 0" using r by (simp add: inode_reachable_def unat_eq_0)
  then show ?thesis
    using r bs s1 unfolding inode_reachable_def
    by (simp add: locate_inode_def Let_def div_w_def mod_w_def mul_w_def add_w_def inode_place_def bindK_ok)
qed

lemma read_inode_ok:
  assumes "ok s" and bs: "vol_block_size v = Inr bs" and b: "bgd_sector v bs < limit" "bgd_sector v bs < 2 ^ 64"
    and r: "inode_reachable v bs (sectors s (bgd_sector v bs)) limit n"
    and p: "inode_place v bs (sectors s (bgd_sector v bs)) n = (t, off)"
  shows "\<exists>s'. read_inode dev v n s = Inr (Inr (decode_inode (bslice (sectors s t) off 116)), s')
    \<and> ok s' \<and> sectors s' = sectors s"
proof -
  obtain s1 where s1: "locate_inode dev v n s = Inr (Inr (t, off), s1)" "ok s1" "sectors s1 = sectors s"
    using locate_inode_ok [OF assms(1) bs b r] p by auto
  have t: "t < limit" using r p by (simp add: inode_reachable_def)
  obtain s2 where "rd_sector dev t s1 = Inr (Inr (sectors s t), s2)" "ok s2" "sectors s2 = sectors s"
    using rd_sector_ok [OF s1(2) t] s1(3) by auto
  then show ?thesis
    using s1 r by (simp add: read_inode_def inode_reachable_def INODE_STRUCT_def bindK_ok)
qed

lemma write_inode_ok:
  assumes "ok s" and bs: "vol_block_size v = Inr bs" and b: "bgd_sector v bs < limit" "bgd_sector v bs < 2 ^ 64"
    and r: "inode_reachable v bs (sectors s (bgd_sector v bs)) limit n"
    and p: "inode_place v bs (sectors s (bgd_sector v bs)) n = (t, off)" and wf: "inode_wf i"
  shows "\<exists>s'. write_inode dev v n i s = Inr (Inr (), s')
    \<and> ok s' \<and> sectors s' = (sectors s)(t := bsplice (sectors s t) off (encode_inode i))"
proof -
  obtain s1 where s1: "locate_inode dev v n s = Inr (Inr (t, off), s1)" "ok s1" "sectors s1 = sectors s"
    using locate_inode_ok [OF assms(1) bs b r] p by auto
  have t: "t < limit" using r p by (simp add: inode_reachable_def)
  obtain s2 where s2: "rd_sector dev t s1 = Inr (Inr (sectors s t), s2)" "ok s2" "sectors s2 = sectors s"
    using rd_sector_ok [OF s1(2) t] s1(3) by auto
  have "off \<in> {0, 256}" using inode_place_offset [OF block_size_512(1) [OF bs]] p by (metis snd_conv)
  then have "length (bsplice (sectors s t) off (encode_inode i)) = 512"
    using sector_length [OF assms(1) t] length_encode_inode [OF wf] by auto
  then obtain s3 where "wr_sector dev t (bsplice (sectors s t) off (encode_inode i)) s2 = Inr (Inr (), s3)"
      "ok s3" "sectors s3 = (sectors s)(t := bsplice (sectors s t) off (encode_inode i))"
    using wr_sector_ok [OF s2(2) t] s2(3) by metis
  then show ?thesis
    using s1 s2 r by (simp add: write_inode_def inode_reachable_def bindK_ok)
qed

text \<open>An inode that was written is read back; the others are as before.\<close>

lemma write_read_inode:
  assumes "ok s" and bs: "vol_block_size v = Inr bs" and b: "bgd_sector v bs < limit" "bgd_sector v bs < 2 ^ 64"
  defines "D \<equiv> sectors s (bgd_sector v bs)"
  assumes n: "inode_reachable v bs D limit n" and m: "inode_reachable v bs D limit m"
    and sep: "fst (inode_place v bs D n) \<noteq> bgd_sector v bs" and wf: "inode_wf i"
  shows "\<exists>s1 s2 j s3. write_inode dev v n i s = Inr (Inr (), s1)
    \<and> read_inode dev v m s = Inr (Inr j, s3)
    \<and> read_inode dev v m s1 = Inr (Inr (if inode_place v bs D m = inode_place v bs D n then i else j), s2)"
proof -
  obtain t off where p: "inode_place v bs D n = (t, off)" by (cases "inode_place v bs D n") auto
  obtain u off' where q: "inode_place v bs D m = (u, off')" by (cases "inode_place v bs D m") auto
  obtain s1 where s1: "write_inode dev v n i s = Inr (Inr (), s1)" "ok s1"
      "sectors s1 = (sectors s)(t := bsplice (sectors s t) off (encode_inode i))"
    using write_inode_ok [OF assms(1) bs b n [unfolded D_def] p [unfolded D_def] wf] by blast
  have D1: "sectors s1 (bgd_sector v bs) = D" using s1(3) sep p by (auto simp: D_def)
  obtain s2 where s2: "read_inode dev v m s1 = Inr (Inr (decode_inode (bslice (sectors s1 u) off' 116)), s2)"
    using read_inode_ok [OF s1(2) bs b] m q D1 by metis
  obtain s3 where s3: "read_inode dev v m s = Inr (Inr (decode_inode (bslice (sectors s u) off' 116)), s3)"
    using read_inode_ok [OF assms(1) bs b] m q D_def by metis
  have o: "off \<in> {0, 256}" "off' \<in> {0, 256}"
    using inode_place_offset [OF block_size_512(1) [OF bs]] p q by (metis snd_conv)+
  have t: "t < limit" using n p by (simp add: inode_reachable_def)
  then have len: "length (sectors s t) = 512" using sector_length assms(1) by blast
  note le = length_encode_inode [OF wf]
  have "bslice (sectors s1 u) off' 116 = bslice (sectors s u) off' 116" if "(u, off') \<noteq> (t, off)"
  proof (cases "u = t")
    case True
    with that have "off' \<noteq> off" by simp
    then have "off' + 116 \<le> off \<or> off + length (encode_inode i) \<le> off'" using o le by auto
    then show ?thesis
      using True s1(3) o len le bslice_bsplice_other [of off "encode_inode i" "sectors s t" off' 116]
      by auto
  next
    case False
    then show ?thesis using s1(3) by simp
  qed
  moreover have "decode_inode (bslice (sectors s1 u) off' 116) = i" if "(u, off') = (t, off)"
    using that s1(3) decode_inode_bsplice [OF wf, of off "sectors s t"] len o by auto
  ultimately show ?thesis
    using s1(1) s2 s3 p q by (cases "(u, off') = (t, off)") auto
qed

text \<open>A data block write changes exactly the sectors of that block.\<close>

lemma write_sectors_ok:
  assumes "ok s" and "\<forall>i \<in> set is. base + i < limit" and "\<forall>i \<in> set is. base + i < 2 ^ 64"
    and "\<forall>i \<in> set is. length (f i) = 512" and "distinct is"
  shows "\<exists>s'. foldK (\<lambda>i _. bindK (liftR (add64 base i)) (\<lambda>l. wr_sector dev l (f i))) is () s = Inr (Inr (), s')
    \<and> ok s' \<and> sectors s' = (\<lambda>x. if base \<le> x \<and> x - base \<in> set is then f (x - base) else sectors s x)"
  using assms
proof (induction "is" arbitrary: s)
  case Nil
  then show ?case by simp
next
  case (Cons i "is")
  obtain s1 where s1: "wr_sector dev (base + i) (f i) s = Inr (Inr (), s1)" "ok s1"
      "sectors s1 = (sectors s)(base + i := f i)"
    using wr_sector_ok [OF Cons.prems(1), of "base + i" "f i"] Cons.prems by auto
  obtain s2 where s2: "foldK (\<lambda>i _. bindK (liftR (add64 base i)) (\<lambda>l. wr_sector dev l (f i))) is () s1 = Inr (Inr (), s2)"
      "ok s2" "sectors s2 = (\<lambda>x. if base \<le> x \<and> x - base \<in> set is then f (x - base) else sectors s1 x)"
    using Cons.IH [OF s1(2)] Cons.prems by auto
  have "add64 base i = Inr (base + i)" using Cons.prems(3) by (simp add: add_w_def)
  then show ?case
    using s1 s2 Cons.prems(5) by (auto simp: bindK_ok fun_eq_iff)
qed

lemma write_data_to_block_ok:
  fixes b :: u32
  assumes "ok s" and bs: "vol_block_size v = Inr bs" and len: "length data \<le> bs"
  defines "base \<equiv> vol_start_lba v + unat b * (bs div 512)"
  assumes lim: "base + bs div 512 \<le> limit" "base + bs div 512 < 2 ^ 64"
  shows "\<exists>s'. write_data_to_block dev v b data s = Inr (Inr (), s') \<and> ok s'
    \<and> sectors s' = (\<lambda>x. if base \<le> x \<and> x < base + bs div 512
         then bslice (data @ replicate (bs - length data) 0) ((x - base) * 512) 512 else sectors s x)"
proof -
  let ?buf = "bsplice (replicate bs 0) 0 data"
  have buf: "?buf = data @ replicate (bs - length data) 0" using len by (simp add: bsplice_def)
  have dv: "512 dvd bs" using block_size_512(1) [OF bs] .
  have "length (bslice ?buf (i * 512) 512) = 512" if "i < bs div 512" for i
  proof (rule length_bslice)
    from that have "Suc i * 512 \<le> bs" using less_eq_div_iff_mult_less_eq [of 512 "Suc i" bs] by simp
    then show "i * 512 + 512 \<le> length ?buf" unfolding buf using len by simp
  qed
  then obtain s' where "foldK (\<lambda>i _. bindK (liftR (add64 base i)) (\<lambda>l. wr_sector dev l (bslice ?buf (i * 512) 512)))
        [0 ..< bs div 512] () s = Inr (Inr (), s')" "ok s'"
      "sectors s' = (\<lambda>x. if base \<le> x \<and> x - base \<in> set [0 ..< bs div 512]
          then bslice ?buf ((x - base) * 512) 512 else sectors s x)"
    using write_sectors_ok [OF assms(1), of "[0 ..< bs div 512]" base "\<lambda>i. bslice ?buf (i * 512) 512"] lim
    by auto
  moreover have "block_sector v bs (unat b) = Inr base"
    using lim(2) block_sector_ok by (simp add: base_def)
  moreover have "(\<lambda>x. if base \<le> x \<and> x - base \<in> set [0 ..< bs div 512] then bslice ?buf ((x - base) * 512) 512 else sectors s x)
      = (\<lambda>x. if base \<le> x \<and> x < base + bs div 512
         then bslice (data @ replicate (bs - length data) 0) ((x - base) * 512) 512 else sectors s x)"
    unfolding buf by (auto simp: fun_eq_iff)
  ultimately show ?thesis
    using bs len by (simp add: write_data_to_block_def Let_def not_less)
qed

end

section \<open>The inode of a new file\<close>

lemma build_file_inode_block:
  "i_block (build_file_inode n b) =
     encode_extent_header \<lparr>eh_magic = 0xF30A, eh_entries = 1, eh_max = 4, eh_depth = 0, eh_generation = 0\<rparr>
     @ encode_extent \<lparr>ee_block = 0, ee_len = 1, ee_start_hi = 0, ee_start_lo = b\<rparr> @ replicate 36 0"
  by (simp add: build_file_inode_def Let_def bsplice_def)

lemma build_file_inode_wf:
  "inode_wf (build_file_inode n b)" "inode_size (build_file_inode n b) = unat n"
  "\<not> inode_is_directory (build_file_inode n b)"
  by (simp add: inode_wf_def build_file_inode_block)
    (simp_all add: build_file_inode_def Let_def inode_size_def zeroed_inode_def inode_is_directory_def)

lemma build_file_inode_extent:
  assumes bs: "vol_block_size v = Inr bs" and fit: "vol_start_lba v + unat b * (bs div 512) < 2 ^ 64"
  shows "logical_to_physical_sector v (build_file_inode n b) l =
    Inr (if l = 0 then Some (vol_start_lba v + unat b * (bs div 512)) else None)"
proof -
  let ?h = "\<lparr>eh_magic = 0xF30A, eh_entries = 1, eh_max = 4, eh_depth = 0, eh_generation = 0\<rparr> :: Ext4ExtentHeader"
  let ?e = "\<lparr>ee_block = 0, ee_len = 1, ee_start_hi = 0, ee_start_lo = b\<rparr> :: Ext4Extent"
  have h: "decode_extent_header (i_block (build_file_inode n b)) = ?h"
    unfolding build_file_inode_block by (rule decode_encode_extent_header)
  have e: "decode_extent (i_block (build_file_inode n b)) 12 = ?e"
    unfolding build_file_inode_block by (rule decode_encode_extent) simp
  have l: "unat l < 1 \<longleftrightarrow> l = 0" by (simp add: unat_eq_0)
  have "unat b < 2 ^ 64" using unsigned_less [of b, where ?'a = nat] by simp
  then show ?thesis
    using fit block_sector_ok [OF fit]
    by (simp add: logical_to_physical_sector_def bs Let_def h e add_w_def l [simplified])
qed

end
