(* ===== verification/Ext4_Node.thy ===== *)
theory Ext4_Node
  imports Ext4_Volume
begin

text \<open>
  The ext4 node of \<^verbatim>\<open>src/fs/ext4/mod.rs\<close>: the root node, reads through the extent tree,
  directory lookup and the insertion of a directory entry into the padding of the last
  record. Raw pointer reads of a record header are guarded by the bound of the buffer they
  point into. The lemmas show that reads return the bytes of the mapped sectors, that an
  inserted entry extends the list of entries of a well-formed directory block, and that a
  lookup returns the first entry with the name.
\<close>

section \<open>Nodes and reads\<close>

record Ext4Node =
  node_inode_num :: u32
  node_inode :: Ext4Inode
  node_is_directory :: bool
  node_size :: nat

definition make_node :: "u32 \<Rightarrow> Ext4Inode \<Rightarrow> Ext4Node" where
  "make_node n i = \<lparr>node_inode_num = n, node_inode = i, node_is_directory = inode_is_directory i,
                    node_size = inode_size i\<rparr>"

definition new_root :: "'s block_device \<Rightarrow> Ext4Volume \<Rightarrow> ('s, FsError, Ext4Node) kop" where
  "new_root dev v =
     bindK (matchK (read_inode dev v 2)) (\<lambda>r.
     retK (make_node 2 (case r of Inr i \<Rightarrow> i | Inl _ \<Rightarrow> zeroed_inode)))"

text \<open>The copy loop of \<^verbatim>\<open>read\<close>; it returns the number of bytes copied and the buffer.\<close>

function ext4_read_loop ::
    "'s block_device \<Rightarrow> Ext4Volume \<Rightarrow> Ext4Inode \<Rightarrow> nat \<Rightarrow> nat \<Rightarrow> nat \<Rightarrow> u8 list \<Rightarrow> ('s, FsError, nat \<times> u8 list) kop" where
  "ext4_read_loop dev v inode bytes_to_read bytes_copied current_offset buf s =
     (if bytes_copied < bytes_to_read
      then bindK (liftR (vol_block_size v)) (\<lambda>block_size.
           bindK (liftR (div_w current_offset block_size)) (\<lambda>logical_block.
           bindK (liftR (logical_to_physical_sector v inode (word_of_nat logical_block))) (\<lambda>base t.
           case base of
             None \<Rightarrow> retK (bytes_copied, buf) t
           | Some base_lba \<Rightarrow>
               bindK (liftR (add64 base_lba (current_offset mod block_size div 512))) (\<lambda>target_sector.
               bindK (matchK (rd dev target_sector 512)) (\<lambda>r t.
               case r of
                 Inl _ \<Rightarrow> retK (bytes_copied, buf) t
               | Inr sector_buffer \<Rightarrow>
                   let offset_in_sector = current_offset mod 512;
                       chunk_size = min (512 - offset_in_sector) (bytes_to_read - bytes_copied) in
                   ext4_read_loop dev v inode bytes_to_read (bytes_copied + chunk_size)
                     (current_offset + chunk_size)
                     (bsplice buf bytes_copied (bslice sector_buffer offset_in_sector chunk_size)) t)) t))) s
      else Inr (Inr (bytes_copied, buf), s))"
  by pat_completeness auto
termination
  by (relation "measure (\<lambda>(dev, v, i, n, c, off, buf, s). n - c)") auto

declare ext4_read_loop.simps [simp del]

definition ext4_read :: "'s block_device \<Rightarrow> Ext4Volume \<Rightarrow> Ext4Node \<Rightarrow> nat \<Rightarrow> u8 list \<Rightarrow> ('s, FsError, nat \<times> u8 list) kop" where
  "ext4_read dev v node offset buf =
     (if node_size node \<le> offset \<or> buf = [] then retK (0, buf)
      else ext4_read_loop dev v (node_inode node) (min (length buf) (node_size node - offset)) 0 offset buf)"

section \<open>Lookup\<close>

function lookup_loop ::
    "'s block_device \<Rightarrow> Ext4Volume \<Rightarrow> u8 list \<Rightarrow> nat \<Rightarrow> u8 list \<Rightarrow> nat \<Rightarrow> ('s, FsError, Ext4Node option) kop" where
  "lookup_loop dev v buffer bytes_read name local_offset s =
     (if local_offset < bytes_read
      then bindK (liftR (assertR (local_offset + 8 \<le> length buffer) UndefinedBehaviour)) (\<lambda>_ t.
           let e = decode_dir_entry buffer local_offset;
               rec_len = unat (de_rec_len e); name_len = unat (de_name_len e) in
           if rec_len = 0 then retK None t
           else if de_inode e \<noteq> 0
           then (if bytes_read < local_offset + 8 + name_len then retK None t
                 else if bslice buffer (local_offset + 8) name_len = name
                 then bindK (matchK (read_inode dev v (de_inode e))) (\<lambda>r t.
                      case r of
                        Inr child_inode \<Rightarrow> retK (Some (make_node (de_inode e) child_inode)) t
                      | Inl _ \<Rightarrow> lookup_loop dev v buffer bytes_read name (local_offset + rec_len) t) t
                 else lookup_loop dev v buffer bytes_read name (local_offset + rec_len) t)
           else lookup_loop dev v buffer bytes_read name (local_offset + rec_len) t) s
      else Inr (Inr None, s))"
  by pat_completeness auto
termination
  by (relation "measure (\<lambda>(dev, v, b, n, name, off, s). n - off)") auto

declare lookup_loop.simps [simp del]

definition ext4_lookup :: "'s block_device \<Rightarrow> Ext4Volume \<Rightarrow> Ext4Node \<Rightarrow> u8 list \<Rightarrow> ('s, FsError, Ext4Node option) kop" where
  "ext4_lookup dev v node name =
     (if \<not> node_is_directory node then retK None
      else bindK (ext4_read dev v node 0 (replicate (node_size node) 0)) (\<lambda>(bytes_read, buffer).
           if bytes_read = 0 then retK None
           else lookup_loop dev v buffer bytes_read name 0))"

section \<open>Adding an entry\<close>

definition align4 :: "nat \<Rightarrow> nat" where
  "align4 n = align_down 4 (n + 3)"

text \<open>The walk to the record that reaches the end of the block.\<close>

function entry_walk :: "u8 list \<Rightarrow> nat \<Rightarrow> nat \<Rightarrow> (FsError + nat) run" where
  "entry_walk buffer block_size offset =
     bindR (assertR (offset + 7 \<le> length buffer) UndefinedBehaviour) (\<lambda>_.
     let rec_len = unat (de_rec_len (decode_dir_entry buffer offset)) in
     if offset + rec_len = block_size then Inr (Inr offset)
     else if block_size \<le> offset + rec_len \<or> rec_len = 0 then Inr (Inl CorruptedDirectory)
     else entry_walk buffer block_size (offset + rec_len))"
  by pat_completeness auto
termination
  by (relation "measure (\<lambda>(b, n, off). n - off)") auto

declare entry_walk.simps [simp del]

definition entry_insert :: "u8 list \<Rightarrow> nat \<Rightarrow> u8 list \<Rightarrow> u32 \<Rightarrow> (FsError + u8 list) run" where
  "entry_insert buffer offset name inode_num =
     (let e = decode_dir_entry buffer offset;
          aligned_len = align4 (8 + unat (de_name_len e)) in
      bindR (sub64 (unat (de_rec_len e)) aligned_len) (\<lambda>space_left.
      if space_left < align4 (8 + length name) then Inr (Inl NoSpace)
      else
        let new_offset = offset + aligned_len;
            b1 = bsplice buffer (offset + 4) (u16_bytes (word_of_nat aligned_len));
            b2 = bsplice b1 new_offset (u32_bytes inode_num);
            b3 = bsplice b2 (new_offset + 4) (u16_bytes (word_of_nat space_left));
            b4 = bsplice b3 (new_offset + 6) [word_of_nat (length name)];
            b5 = bsplice b4 (new_offset + 7) [1] in
        Inr (Inr (bsplice b5 (new_offset + 8) name))))"

definition read_dir_block :: "'s block_device \<Rightarrow> nat \<Rightarrow> nat \<Rightarrow> ('s, FsError, u8 list) kop" where
  "read_dir_block dev block_size physical_sector =
     foldK (\<lambda>i buffer.
       bindK (liftR (add64 physical_sector i)) (\<lambda>lba.
       bindK (rd_sector dev lba) (\<lambda>sector. retK (bsplice buffer (i * 512) sector))))
     [0 ..< block_size div 512] (replicate block_size 0)"

definition write_dir_block :: "'s block_device \<Rightarrow> nat \<Rightarrow> nat \<Rightarrow> u8 list \<Rightarrow> ('s, FsError, unit) kop" where
  "write_dir_block dev block_size physical_sector buffer =
     foldK (\<lambda>i _.
       bindK (liftR (add64 physical_sector i)) (\<lambda>lba.
       wr_sector dev lba (bslice buffer (i * 512) 512)))
     [0 ..< block_size div 512] ()"

definition add_entry :: "'s block_device \<Rightarrow> Ext4Volume \<Rightarrow> Ext4Node \<Rightarrow> u8 list \<Rightarrow> u32 \<Rightarrow> ('s, FsError, unit) kop" where
  "add_entry dev v node name inode_num =
     (if \<not> node_is_directory node then failK CorruptedDirectory
      else bindK (liftR (vol_block_size v)) (\<lambda>block_size.
           bindK (liftR (logical_to_physical_sector v (node_inode node) 0)) (\<lambda>p.
           case p of
             None \<Rightarrow> failK CorruptedDirectory
           | Some physical_sector \<Rightarrow>
               bindK (read_dir_block dev block_size physical_sector) (\<lambda>buffer.
               bindK (liftR (entry_walk buffer block_size 0)) (\<lambda>w.
               case w of
                 Inl e \<Rightarrow> failK e
               | Inr offset \<Rightarrow>
                   bindK (liftR (entry_insert buffer offset name inode_num)) (\<lambda>r.
                   case r of
                     Inl e \<Rightarrow> failK e
                   | Inr buffer' \<Rightarrow> write_dir_block dev block_size physical_sector buffer'))))))"

section \<open>Fields of a spliced buffer\<close>

lemma get_bsplice_same:
  "p + 2 \<le> length b \<Longrightarrow> get_u16 (bsplice b p (u16_bytes x)) p = x"
  "p + 4 \<le> length b \<Longrightarrow> get_u32 (bsplice b p (u32_bytes y)) p = y"
  "p + 1 \<le> length b \<Longrightarrow> get_u8 (bsplice b p [z]) p = z"
proof -
  have "get_u16 (u16_bytes x) 0 = x" "get_u32 (u32_bytes y) 0 = y" by simp_all
  then show "p + 2 \<le> length b \<Longrightarrow> get_u16 (bsplice b p (u16_bytes x)) p = x"
    "p + 4 \<le> length b \<Longrightarrow> get_u32 (bsplice b p (u32_bytes y)) p = y"
    using bslice_bsplice_same [of p "u16_bytes x" b] bslice_bsplice_same [of p "u32_bytes y" b]
    by (simp_all add: get_u16_def get_u32_def bslice_def)
  show "p + 1 \<le> length b \<Longrightarrow> get_u8 (bsplice b p [z]) p = z"
    by (simp add: get_u8_def nth_bsplice)
qed

lemma bslice_bsplice_after:
  "p + length ys \<le> length b \<Longrightarrow> p + length ys \<le> q \<Longrightarrow> bslice (bsplice b p ys) q n = bslice b q n"
  by (simp add: bslice_def bsplice_def)

lemma get_bsplice_other:
  assumes "p + length ys \<le> length b"
  shows "q + 2 \<le> p \<or> p + length ys \<le> q \<Longrightarrow> get_u16 (bsplice b p ys) q = get_u16 b q"
    and "q + 4 \<le> p \<or> p + length ys \<le> q \<Longrightarrow> get_u32 (bsplice b p ys) q = get_u32 b q"
    and "q + 1 \<le> p \<or> p + length ys \<le> q \<Longrightarrow> get_u8 (bsplice b p ys) q = get_u8 b q"
  using assms bslice_bsplice_other [of p ys b q] bslice_bsplice_after [of p ys b q]
  by (auto simp: get_u16_def get_u32_def get_u8_def nth_bsplice)

lemma take_bsplice: "n \<le> p \<Longrightarrow> p \<le> length b \<Longrightarrow> take n (bsplice b p ys) = take n b"
  by (simp add: bsplice_def min_def)

lemma get_take:
  "q + 2 \<le> n \<Longrightarrow> get_u16 (take n b) q = get_u16 b q"
  "q + 4 \<le> n \<Longrightarrow> get_u32 (take n b) q = get_u32 b q"
  "q + 1 \<le> n \<Longrightarrow> get_u8 (take n b) q = get_u8 b q"
  by (simp_all add: get_u16_def get_u32_def get_u8_def bslice_def drop_take min_def)

lemma bslice_take: "q + k \<le> n \<Longrightarrow> bslice (take n b) q k = bslice b q k"
  by (simp add: bslice_def drop_take min_def)

lemma get_take_eq:
  assumes "take n b = take n b'"
  shows "q + 2 \<le> n \<Longrightarrow> get_u16 b q = get_u16 b' q" and "q + 4 \<le> n \<Longrightarrow> get_u32 b q = get_u32 b' q"
    and "q + 1 \<le> n \<Longrightarrow> get_u8 b q = get_u8 b' q"
  using assms get_take [of q n b] get_take [of q n b'] by simp_all

lemma decode_dir_entry_take:
  "q + 8 \<le> n \<Longrightarrow> take n b = take n b' \<Longrightarrow> decode_dir_entry b q = decode_dir_entry b' q"
proof -
  assume a: "q + 8 \<le> n" "take n b = take n b'"
  have "get_u32 b q = get_u32 b' q" "get_u16 b (q + 4) = get_u16 b' (q + 4)"
    "get_u8 b (q + 6) = get_u8 b' (q + 6)" "get_u8 b (q + 7) = get_u8 b' (q + 7)"
    using a get_take [of _ n b] get_take [of _ n b'] by simp_all
  then show ?thesis by (simp add: decode_dir_entry_def)
qed

section \<open>Directory blocks\<close>

lemma align4_bounds: "n \<le> align4 n" "align4 n < n + 4" "4 dvd align4 n"
  using less_align_down_add [of 4 "n + 3"] align_down_le [of 4 "n + 3"]
  by (auto simp: align4_def align_down_dvd)

lemma align4_ge: "8 \<le> align4 (8 + k)"
  using align4_bounds(1) [of "8 + k"] by simp

text \<open>The entries of a well-formed block from an offset on; \<open>None\<close> when a record is malformed.\<close>

function dir_list :: "u8 list \<Rightarrow> nat \<Rightarrow> nat \<Rightarrow> (u32 \<times> u8 list) list option" where
  "dir_list buffer n offset =
     (if n \<le> offset then (if offset = n then Some [] else None)
      else
        let e = decode_dir_entry buffer offset;
            rec_len = unat (de_rec_len e); name_len = unat (de_name_len e) in
        if offset + 8 \<le> n \<and> align4 (8 + name_len) \<le> rec_len \<and> offset + rec_len \<le> n
        then map_option (\<lambda>es. (de_inode e, bslice buffer (offset + 8) name_len) # es)
               (dir_list buffer n (offset + rec_len))
        else None)"
  by pat_completeness auto
termination
proof (relation "measure (\<lambda>(b, n, off). n - off)")
  fix buffer :: "u8 list" and n offset :: nat and x xa xb
  assume a: "\<not> n \<le> offset" "xb = unat (de_name_len x)" "offset + 8 \<le> n \<and> align4 (8 + xb) \<le> xa \<and> offset + xa \<le> n"
  have "8 \<le> align4 (8 + xb)"
    by (rule align4_ge)
  with a have "0 < xa" by linarith
  with a show "((buffer, n, offset + xa), buffer, n, offset) \<in> measure (\<lambda>(b, n, off). n - off)"
    by auto
qed simp

declare dir_list.simps [simp del]


text \<open>The record at an offset, when the block is well-formed there.\<close>

lemma dir_list_Some:
  assumes "dir_list b n off = Some es" and "off < n"
  obtains e rest where "e = decode_dir_entry b off" "off + 8 \<le> n"
    "align4 (8 + unat (de_name_len e)) \<le> unat (de_rec_len e)" "off + unat (de_rec_len e) \<le> n"
    "es = (de_inode e, bslice b (off + 8) (unat (de_name_len e))) # rest"
    "dir_list b n (off + unat (de_rec_len e)) = Some rest"
  using assms by (subst (asm) dir_list.simps) (auto simp: Let_def split: if_splits)

lemma dir_list_step:
  assumes "off + 8 \<le> n" and "align4 (8 + unat (de_name_len e)) \<le> unat (de_rec_len e)"
    and "off + unat (de_rec_len e) \<le> n" and "e = decode_dir_entry b off"
    and "dir_list b n (off + unat (de_rec_len e)) = Some rest"
  shows "dir_list b n off = Some ((de_inode e, bslice b (off + 8) (unat (de_name_len e))) # rest)"
  using assms by (subst dir_list.simps) (simp add: Let_def)

lemma dir_list_end: "dir_list b n n = Some []"
  by (subst dir_list.simps) simp

text \<open>
  The walk finds the last record, and replacing the bytes from there on replaces the last
  entry of the list.
\<close>

lemma entry_walk_ok:
  assumes "dir_list b n off = Some es" and "off < n" and "length b = n"
  shows "\<exists>lst. entry_walk b n off = Inr (Inr lst) \<and> off \<le> lst \<and> lst < n
    \<and> lst + unat (de_rec_len (decode_dir_entry b lst)) = n
    \<and> dir_list b n lst = Some [last es]
    \<and> (\<forall>b' es'. take lst b' = take lst b \<longrightarrow> dir_list b' n lst = Some es' \<longrightarrow>
         dir_list b' n off = Some (butlast es @ es'))"
  using assms
proof (induction b n off arbitrary: es rule: entry_walk.induct)
  case (1 b n off)
  obtain e rest where e: "e = decode_dir_entry b off" "off + 8 \<le> n"
    "align4 (8 + unat (de_name_len e)) \<le> unat (de_rec_len e)" "off + unat (de_rec_len e) \<le> n"
    "es = (de_inode e, bslice b (off + 8) (unat (de_name_len e))) # rest"
    "dir_list b n (off + unat (de_rec_len e)) = Some rest"
    using dir_list_Some [OF 1(2,3)] by blast
  let ?r = "unat (de_rec_len e)"
  have r8: "8 + unat (de_name_len e) \<le> ?r" using align4_bounds(1) [of "8 + unat (de_name_len e)"] e(3) by simp
  have w: "entry_walk b n off = (if off + ?r = n then Inr (Inr off) else entry_walk b n (off + ?r))"
    using 1(4) e r8 by (subst entry_walk.simps) (auto simp: Let_def)
  show ?case
  proof (cases "off + ?r = n")
    case True
    then have "rest = []" using e(6) by (simp add: dir_list_end)
    then show ?thesis using True w e(1,5) 1(2,3) by (auto intro!: exI [of _ off])
  next
    case False
    then have lt: "off + ?r < n" using e(4) by simp
    have ne: "rest \<noteq> []" using dir_list_Some [OF e(6) lt] by blast
    obtain lst where l: "entry_walk b n (off + ?r) = Inr (Inr lst)" "off + ?r \<le> lst" "lst < n"
        "lst + unat (de_rec_len (decode_dir_entry b lst)) = n" "dir_list b n lst = Some [last rest]"
        "\<forall>b' es'. take lst b' = take lst b \<longrightarrow> dir_list b' n lst = Some es' \<longrightarrow>
           dir_list b' n (off + ?r) = Some (butlast rest @ es')"
      using 1(1) [of "()" ?r rest] 1(4) e r8 False lt by auto
    have "dir_list b' n off = Some (butlast es @ es')"
      if t: "take lst b' = take lst b" and d: "dir_list b' n lst = Some es'" for b' es'
    proof -
      have de: "decode_dir_entry b' off = e"
        using decode_dir_entry_take [of off lst b' b] t l(2) r8 e(1) by simp
      have nm: "bslice b' (off + 8) (unat (de_name_len e)) = bslice b (off + 8) (unat (de_name_len e))"
        using bslice_take [of "off + 8" "unat (de_name_len e)" lst b]
          bslice_take [of "off + 8" "unat (de_name_len e)" lst b'] t l(2) r8 by simp
      have "dir_list b' n (off + ?r) = Some (butlast rest @ es')" using l(6) t d by blast
      then show ?thesis
        using dir_list_step [OF e(2,3,4) de [symmetric]] nm e(5) ne by simp
    qed
    then show ?thesis using w False l e(5) ne by (intro exI [of _ lst]) simp
  qed
qed

text \<open>Inserting at the last record appends the new entry, when its name fits a byte.\<close>

text \<open>The bytes of a record that its own header and name do not need.\<close>

definition record_slack :: "u8 list \<Rightarrow> nat \<Rightarrow> nat" where
  "record_slack b off =
     unat (de_rec_len (decode_dir_entry b off)) - align4 (8 + unat (de_name_len (decode_dir_entry b off)))"

lemma entry_insert_ok:
  assumes d: "dir_list b n lst = Some [x]" and len: "length b = n" and lt: "lst < n"
    and r: "lst + unat (de_rec_len (decode_dir_entry b lst)) = n"
    and nm: "length name < 256"
  shows "if record_slack b lst < align4 (8 + length name)
    then entry_insert b lst name i = Inr (Inl NoSpace)
    else \<exists>b'. entry_insert b lst name i = Inr (Inr b') \<and> length b' = n \<and> take lst b' = take lst b
         \<and> dir_list b' n lst = Some [x, (i, name)]"
proof -
  obtain e rest where e: "e = decode_dir_entry b lst" "lst + 8 \<le> n"
    "align4 (8 + unat (de_name_len e)) \<le> unat (de_rec_len e)" "lst + unat (de_rec_len e) \<le> n"
    "[x] = (de_inode e, bslice b (lst + 8) (unat (de_name_len e))) # rest"
    using dir_list_Some [OF d lt] by blast
  define k where "k = unat (de_name_len e)"
  define a where "a = align4 (8 + k)"
  define sp where "sp = unat (de_rec_len e) - a"
  have ka: "8 + k \<le> a" "a < k + 12" using align4_bounds [of "8 + k"] by (auto simp: a_def)
  have k256: "k < 256" using unsigned_less [of "de_name_len e", where ?'a = nat] by (simp add: k_def)
  have asp: "a + sp = unat (de_rec_len e)" using e(3) by (simp add: sp_def a_def k_def)
  have ua: "unat (word_of_nat a :: u16) = a" using ka k256 by (simp add: unsigned_of_nat take_bit_nat_eq_self_iff)
  have "unat (de_rec_len e) < 65536" using unsigned_less [of "de_rec_len e", where ?'a = nat] by simp
  then have us: "unat (word_of_nat sp :: u16) = sp"
    using asp by (simp add: unsigned_of_nat take_bit_nat_eq_self_iff)
  have ul: "unat (word_of_nat (length name) :: u8) = length name"
    using nm by (simp add: unsigned_of_nat take_bit_nat_eq_self_iff)
  have sub: "sub64 (unat (de_rec_len e)) a = Inr sp" using asp by (simp add: sub_w_def sp_def)
  have sl: "record_slack b lst = sp" by (simp add: record_slack_def e(1) sp_def a_def k_def)
  show ?thesis
  proof (cases "sp < align4 (8 + length name)")
    case True
    then show ?thesis using sub sl by (simp add: entry_insert_def Let_def e(1) [symmetric] k_def [symmetric] a_def [symmetric])
  next
    case False
    have fit: "lst + a + 8 + length name \<le> n"
      using False align4_bounds(1) [of "8 + length name"] asp r e(1) by simp
    define p where "p = lst + a"
    define b1 where "b1 = bsplice b (lst + 4) (u16_bytes (word_of_nat a))"
    define b2 where "b2 = bsplice b1 p (u32_bytes i)"
    define b3 where "b3 = bsplice b2 (p + 4) (u16_bytes (word_of_nat sp))"
    define b4 where "b4 = bsplice b3 (p + 6) [word_of_nat (length name)]"
    define b5 where "b5 = bsplice b4 (p + 7) [1]"
    define b6 where "b6 = bsplice b5 (p + 8) name"
    have pf: "p + 8 + length name \<le> n" "lst + 8 + k \<le> p" using fit ka by (auto simp: p_def)
    have l1: "length b1 = n" using len pf by (simp add: b1_def)
    have l2: "length b2 = n" using l1 pf by (simp add: b2_def)
    have l3: "length b3 = n" using l2 pf by (simp add: b3_def)
    have l4: "length b4 = n" using l3 pf by (simp add: b4_def)
    have l5: "length b5 = n" using l4 pf by (simp add: b5_def)
    have l6: "length b6 = n" using l5 pf by (simp add: b6_def)
    have ins: "entry_insert b lst name i = Inr (Inr b6)"
      using False sub
      by (simp add: entry_insert_def Let_def e(1) [symmetric] k_def [symmetric] a_def [symmetric]
          p_def [symmetric] b1_def [symmetric] b2_def [symmetric] b3_def [symmetric]
          b4_def [symmetric] b5_def [symmetric] b6_def [symmetric])
    have t5: "take m b6 = take m b5" if "m \<le> p + 8" for m
      using that l5 pf by (simp add: b6_def take_bsplice)
    have t4: "take m b6 = take m b4" if "m \<le> p + 7" for m
      using that l4 pf t5 by (simp add: b5_def take_bsplice)
    have t3: "take m b6 = take m b3" if "m \<le> p + 6" for m
      using that l3 pf t4 by (simp add: b4_def take_bsplice)
    have t2: "take m b6 = take m b2" if "m \<le> p + 4" for m
      using that l2 pf t3 by (simp add: b3_def take_bsplice)
    have t1: "take m b6 = take m b1" if "m \<le> p" for m
      using that l1 pf t2 by (simp add: b2_def take_bsplice)
    have tk: "take lst b6 = take lst b"
      using t1 [of lst] len pf by (simp add: b1_def take_bsplice)
    have "decode_dir_entry b6 lst = decode_dir_entry b1 lst"
      using decode_dir_entry_take [of lst p b6 b1] t1 [of p] pf by simp
    moreover have "decode_dir_entry b1 lst = e\<lparr>de_rec_len := word_of_nat a\<rparr>"
    proof -
      let ?w = "u16_bytes (word_of_nat a)"
      have "get_u32 b1 lst = get_u32 b lst"
        using get_bsplice_other(2) [of "lst + 4" ?w b lst] len pf by (simp add: b1_def)
      moreover have "get_u16 b1 (lst + 4) = word_of_nat a"
        using get_bsplice_same(1) [of "lst + 4" b] len pf by (simp add: b1_def)
      moreover have "get_u8 b1 (lst + 6) = get_u8 b (lst + 6)" "get_u8 b1 (lst + 7) = get_u8 b (lst + 7)"
        using get_bsplice_other(3) [of "lst + 4" ?w b "lst + 6"]
          get_bsplice_other(3) [of "lst + 4" ?w b "lst + 7"] len pf by (simp_all add: b1_def)
      ultimately show ?thesis by (simp add: e(1) decode_dir_entry_def)
    qed
    ultimately have e': "decode_dir_entry b6 lst = e\<lparr>de_rec_len := word_of_nat a\<rparr>" by simp
    have f': "decode_dir_entry b6 p = \<lparr>de_inode = i, de_rec_len = word_of_nat sp,
        de_name_len = word_of_nat (length name), de_file_type = 1\<rparr>"
    proof -
      have "get_u32 b6 p = i"
        using get_take_eq(2) [OF t2, of "p + 4" p] get_bsplice_same(2) [of p b1 i] l1 pf by (simp add: b2_def)
      moreover have "get_u16 b6 (p + 4) = word_of_nat sp"
        using get_take_eq(1) [OF t3, of "p + 6" "p + 4"] get_bsplice_same(1) [of "p + 4" b2 "word_of_nat sp"] l2 pf
        by (simp add: b3_def)
      moreover have "get_u8 b6 (p + 6) = word_of_nat (length name)"
        using get_take_eq(3) [OF t4, of "p + 7" "p + 6"] get_bsplice_same(3) [of "p + 6" b3] l3 pf
        by (simp add: b4_def)
      moreover have "get_u8 b6 (p + 7) = 1"
        using get_take_eq(3) [OF t5, of "p + 8" "p + 7"] get_bsplice_same(3) [of "p + 7" b4] l4 pf
        by (simp add: b5_def)
      ultimately show ?thesis by (simp add: decode_dir_entry_def)
    qed
    have nm': "bslice b6 (p + 8) (length name) = name"
      using bslice_bsplice_same [of "p + 8" name b5] l5 pf by (simp add: b6_def)
    have old: "bslice b6 (lst + 8) k = bslice b (lst + 8) k"
    proof -
      have "bslice b6 (lst + 8) k = bslice b1 (lst + 8) k"
        using bslice_take [of "lst + 8" k p b6] bslice_take [of "lst + 8" k p b1] t1 [of p] pf by simp
      also have "\<dots> = bslice b (lst + 8) k"
        using bslice_bsplice_after [of "lst + 4" "u16_bytes (word_of_nat a)" b "lst + 8"] len pf
        by (simp add: b1_def)
      finally show ?thesis .
    qed
    have "p + sp = n" using asp r e(1) by (simp add: p_def)
    then have "dir_list b6 n p = Some [(i, name)]"
      using dir_list_step [of p n "decode_dir_entry b6 p" b6 "[]"] False us ul pf
      by (simp add: f' nm' dir_list_end)
    then have "dir_list b6 n lst = Some [x, (i, name)]"
      using dir_list_step [of lst n "decode_dir_entry b6 lst" b6 "[(i, name)]"] e(2,5) ua \<open>p + sp = n\<close>
      by (simp add: e' p_def [symmetric] old k_def [symmetric] a_def [symmetric] old [unfolded k_def])
    then show ?thesis using ins l6 tk sl False by auto
  qed
qed

section \<open>Lookup in a well-formed directory\<close>

lemma lookup_loop_ok:
  assumes "dir_list b n off = Some es" and "off \<le> n" and "length b = n"
  shows "(find (\<lambda>(i, nm). i \<noteq> 0 \<and> nm = name) es = None \<longrightarrow>
            lookup_loop dev v b n name off s = Inr (Inr None, s))
    \<and> (\<forall>i nm ci s'. find (\<lambda>(i, nm). i \<noteq> 0 \<and> nm = name) es = Some (i, nm) \<longrightarrow>
            read_inode dev v i s = Inr (Inr ci, s') \<longrightarrow>
            lookup_loop dev v b n name off s = Inr (Inr (Some (make_node i ci)), s'))"
  using assms
proof (induction "n - off" arbitrary: off es rule: less_induct)
  case less
  show ?case
  proof (cases "off < n")
    case False
    then have "off = n" using less.prems by simp
    then have "es = []" using less.prems(1) by (simp add: dir_list_end)
    then show ?thesis using False by (simp add: lookup_loop.simps [of dev v b n name off s])
  next
    case True
    obtain e rest where e: "e = decode_dir_entry b off" "off + 8 \<le> n"
      "align4 (8 + unat (de_name_len e)) \<le> unat (de_rec_len e)" "off + unat (de_rec_len e) \<le> n"
      "es = (de_inode e, bslice b (off + 8) (unat (de_name_len e))) # rest"
      "dir_list b n (off + unat (de_rec_len e)) = Some rest"
      using dir_list_Some [OF less.prems(1) True] by blast
    let ?r = "unat (de_rec_len e)"
    have r8: "8 + unat (de_name_len e) \<le> ?r"
      using align4_bounds(1) [of "8 + unat (de_name_len e)"] e(3) by simp
    note IH = less.hyps [of "off + ?r" rest, OF _ e(6) e(4) less.prems(3)]
    have l: "lookup_loop dev v b n name off s =
        (if de_inode e \<noteq> 0 \<and> bslice b (off + 8) (unat (de_name_len e)) = name
         then bindK (matchK (read_inode dev v (de_inode e))) (\<lambda>r t.
                case r of
                  Inr child_inode \<Rightarrow> retK (Some (make_node (de_inode e) child_inode)) t
                | Inl _ \<Rightarrow> lookup_loop dev v b n name (off + ?r) t) s
         else lookup_loop dev v b n name (off + ?r) s)"
      using True e(1,2,4) r8 less.prems(3)
      by (subst lookup_loop.simps) (auto simp: Let_def)
    show ?thesis
    proof (cases "de_inode e \<noteq> 0 \<and> bslice b (off + 8) (unat (de_name_len e)) = name")
      case True
      then show ?thesis unfolding l e(5) by (auto simp: matchK_def bindK_def)
    next
      case False
      then have f: "find (\<lambda>(i, nm). i \<noteq> 0 \<and> nm = name) es = find (\<lambda>(i, nm). i \<noteq> 0 \<and> nm = name) rest"
        using e(5) by auto
      show ?thesis
        unfolding f using IH r8 True l False by auto
    qed
  qed
qed

section \<open>Reads from a healthy device\<close>

text \<open>The byte of a file at an offset, when logical block \<open>b\<close> starts at sector \<open>P b\<close>.\<close>

definition file_byte :: "(nat \<Rightarrow> u8 list) \<Rightarrow> nat \<Rightarrow> (nat \<Rightarrow> nat) \<Rightarrow> nat \<Rightarrow> u8" where
  "file_byte sec bs P k = sec (P (k div bs) + k mod bs div 512) ! (k mod 512)"

definition mapped :: "Ext4Volume \<Rightarrow> Ext4Inode \<Rightarrow> nat \<Rightarrow> (nat \<Rightarrow> nat) \<Rightarrow> nat \<Rightarrow> nat \<Rightarrow> bool" where
  "mapped v inode bs P limit blocks \<longleftrightarrow>
     (\<forall>b < blocks. logical_to_physical_sector v inode (word_of_nat b) = Inr (Some (P b))
        \<and> P b + bs div 512 \<le> limit \<and> P b + bs div 512 < 2 ^ 64)"

lemma file_byte_sector:
  assumes "bs = 512 * m"
  shows "file_byte sec bs P k = sec (P (k div 512 div m) + k div 512 mod m) ! (k mod 512)"
  unfolding file_byte_def assms by (simp add: div_mult2_eq mod_mult2_eq)

lemma file_byte_chunk:
  assumes "bs = 512 * m" and "k mod 512 + j < 512"
  shows "file_byte sec bs P (k + j) = sec (P (k div bs) + k mod bs div 512) ! (k mod 512 + j)"
proof -
  have kd: "k + j = (k mod 512 + j) + k div 512 * 512" by simp
  have "(k + j) div 512 = k div 512" unfolding kd using assms(2) by (subst div_mult_self1) auto
  moreover have "(k + j) mod 512 = k mod 512 + j" unfolding kd using assms(2) by (subst mod_mult_self1) simp
  moreover have "k div bs = k div 512 div m" "k mod bs div 512 = k div 512 mod m"
    using assms(1) by (simp_all add: div_mult2_eq mod_mult2_eq)
  ultimately show ?thesis by (simp add: file_byte_sector [OF assms(1)])
qed

context sector_store
begin

lemma read_loop_ok:
  assumes "ok s" and bs: "vol_block_size v = Inr bs" and m: "mapped v inode bs P limit blocks"
    and "copied \<le> n" and "n \<le> length buf" and "cur + (n - copied) \<le> blocks * bs"
  shows "\<exists>s' buf'. ext4_read_loop dev v inode n copied cur buf s = Inr (Inr (n, buf'), s')
    \<and> ok s' \<and> sectors s' = sectors s \<and> length buf' = length buf
    \<and> (\<forall>i < length buf. buf' ! i = (if copied \<le> i \<and> i < n then file_byte (sectors s) bs P (cur + (i - copied))
                                     else buf ! i))"
  using assms(1,4,5,6)
proof (induction "n - copied" arbitrary: copied cur buf s rule: less_induct)
  case less
  show ?case
  proof (cases "copied < n")
    case False
    then have "copied = n" using less.prems by simp
    then show ?thesis using less.prems by (auto simp: ext4_read_loop.simps [of dev v inode n n cur buf s])
  next
    case True
    then have pos: "cur < blocks * bs" "0 < bs" using less.prems(4) by (auto intro: Nat.gr0I)
    obtain k where k: "bs = 512 * k" using block_size_512(1) [OF bs] by (elim dvdE)
    let ?b = "cur div bs"
    define o' where "o' = cur mod 512"
    define c where "c = min (512 - o') (n - copied)"
    define t where "t = P ?b + cur mod bs div 512"
    have c: "o' + c \<le> 512" "copied + c \<le> n" "0 < c" using True by (auto simp: c_def o'_def)
    have bl: "?b < blocks" using pos by (simp add: div_less_iff_less_mult)
    have so: "cur mod bs div 512 < bs div 512"
      using pos(2) unfolding k by (simp add: mod_mult2_eq)
    have mp: "logical_to_physical_sector v inode (word_of_nat ?b) = Inr (Some (P ?b))"
        "P ?b + bs div 512 \<le> limit" "P ?b + bs div 512 < 2 ^ 64"
      using m bl by (auto simp: mapped_def)
    have tl: "t < limit" using mp(2) so by (simp add: t_def)
    have ad: "add64 (P ?b) (cur mod bs div 512) = Inr t" using mp(3) so by (simp add: add_w_def t_def)
    obtain s1 where s1: "rd dev t 512 s = Inr (Inr (sectors s t), s1)" "ok s1" "sectors s1 = sectors s"
      using read_law [OF less.prems(1) tl] by blast
    define chunk where "chunk = bslice (sectors s t) o' c"
    have len: "length (sectors s t) = 512" using sector_length [OF less.prems(1) tl] .
    have lc: "length chunk = c" using len c(1) by (simp add: chunk_def)
    have fit: "copied + length chunk \<le> length buf" using lc c(2) less.prems(3) by linarith
    define buf1 where "buf1 = bsplice buf copied chunk"
    have lb: "length buf1 = length buf" unfolding buf1_def using fit by (rule length_bsplice)
    have ml: "matchK (rd dev t 512) s = Inr (Inr (Inr (sectors s t)), s1)"
      using s1(1) by (simp add: matchK_def)
    have l: "ext4_read_loop dev v inode n copied cur buf s
        = ext4_read_loop dev v inode n (copied + c) (cur + c) buf1 s1"
      using True mp(1) ad pos(2)
      by (simp add: ext4_read_loop.simps [of dev v inode n copied cur buf s] bs div_w_def
          bindK_ok [where m = "matchK (rd dev t 512)" and s = s, OF ml] Let_def
          o'_def [symmetric] c_def [symmetric] chunk_def [symmetric] buf1_def [symmetric])
    have nb: "n \<le> length buf1" and nc: "cur + c + (n - (copied + c)) \<le> blocks * bs"
      using less.prems(3,4) lb c(2) by auto
    have "n - (copied + c) < n - copied" using c(3) True by linarith
    from less.hyps [OF this s1(2) c(2) nb nc] obtain s' buf' where
      r: "ext4_read_loop dev v inode n (copied + c) (cur + c) buf1 s1 = Inr (Inr (n, buf'), s')"
      "ok s'" "sectors s' = sectors s1" "length buf' = length buf1"
      "\<forall>i < length buf1. buf' ! i = (if copied + c \<le> i \<and> i < n
          then file_byte (sectors s1) bs P (cur + c + (i - (copied + c))) else buf1 ! i)"
      by blast
    have "buf' ! i = (if copied \<le> i \<and> i < n then file_byte (sectors s) bs P (cur + (i - copied)) else buf ! i)"
      if i: "i < length buf" for i
    proof (cases "copied \<le> i \<and> i < copied + c")
      case True
      then have j: "cur mod 512 + (i - copied) < 512" using c(1) unfolding o'_def by linarith
      have "buf1 ! i = chunk ! (i - copied)"
        unfolding buf1_def using True lc fit by (subst nth_bsplice) auto
      also have "\<dots> = sectors s t ! (o' + (i - copied))"
        unfolding chunk_def using True len c(1) by (intro nth_bslice) auto
      also have "\<dots> = file_byte (sectors s) bs P (cur + (i - copied))"
        using file_byte_chunk [OF k j] by (simp add: t_def o'_def)
      finally show ?thesis using r(5) i lb True c(2) by auto
    next
      case False
      have "buf1 ! i = buf ! i" unfolding buf1_def using False lc fit i by (subst nth_bsplice) auto
      moreover have "cur + c + (i - (copied + c)) = cur + (i - copied)" if "copied + c \<le> i"
        using that by simp
      ultimately show ?thesis using r(5) i lb False s1(3) by auto
    qed
    then show ?thesis using l r(1-4) s1(3) lb by (intro exI [of _ s'] exI [of _ buf']) simp
  qed
qed

text \<open>\<^verbatim>\<open>read\<close> fills the buffer with the file's bytes up to the end of the file.\<close>

lemma ext4_read_ok:
  fixes off :: nat and buf :: "u8 list"
  assumes "ok s" and bs: "vol_block_size v = Inr bs" and m: "mapped v (node_inode node) bs P limit blocks"
    and sz: "node_size node \<le> blocks * bs"
  defines "n \<equiv> min (length buf) (node_size node - off)"
  shows "\<exists>s' buf'. ext4_read dev v node off buf s = Inr (Inr (n, buf'), s')
    \<and> ok s' \<and> sectors s' = sectors s \<and> length buf' = length buf
    \<and> (\<forall>i < length buf. buf' ! i = (if i < n then file_byte (sectors s) bs P (off + i) else buf ! i))"
proof (cases "node_size node \<le> off \<or> buf = []")
  case True
  then show ?thesis using assms(1) by (auto simp: ext4_read_def n_def)
next
  case False
  then have "off + (n - 0) \<le> blocks * bs" using sz unfolding n_def by linarith
  from read_loop_ok [OF assms(1) bs m le0 _ this, of buf] obtain s' buf' where
    "ext4_read_loop dev v (node_inode node) n 0 off buf s = Inr (Inr (n, buf'), s')" "ok s'"
    "sectors s' = sectors s" "length buf' = length buf"
    "\<forall>i < length buf. buf' ! i = (if 0 \<le> i \<and> i < n then file_byte (sectors s) bs P (off + (i - 0)) else buf ! i)"
    by (auto simp: n_def)
  then show ?thesis
    using False by (intro exI [of _ s'] exI [of _ buf']) (simp add: ext4_read_def n_def [symmetric])
qed

end

section \<open>Directory updates on a healthy device\<close>

text \<open>The bytes of the block that starts at a sector.\<close>

definition block_bytes :: "(nat \<Rightarrow> u8 list) \<Rightarrow> nat \<Rightarrow> nat \<Rightarrow> u8 list" where
  "block_bytes sec bs p = map (\<lambda>k. sec (p + k div 512) ! (k mod 512)) [0 ..< bs]"

lemma length_block_bytes [simp]: "length (block_bytes sec bs p) = bs"
  by (simp add: block_bytes_def)

lemma block_bytes_sectors:
  assumes "length b = bs" and "512 dvd bs"
    and "\<And>i. i < bs div 512 \<Longrightarrow> sec (p + i) = bslice b (i * 512) 512"
  shows "block_bytes sec bs p = b"
proof (rule nth_equalityI)
  show "length (block_bytes sec bs p) = length b" using assms(1) by simp
  fix k assume "k < length (block_bytes sec bs p)"
  then have k: "k < bs" by simp
  then have i: "k div 512 < bs div 512"
    using assms(2) by (metis dvd_div_mult_self less_mult_imp_div_less)
  then have "Suc (k div 512) * 512 \<le> bs"
    using less_eq_div_iff_mult_less_eq [of 512 "Suc (k div 512)" bs] by simp
  then have "bslice b (k div 512 * 512) 512 ! (k mod 512) = b ! (k div 512 * 512 + k mod 512)"
    using assms(1) by (intro nth_bslice) auto
  with k i show "block_bytes sec bs p ! k = b ! k" by (simp add: block_bytes_def assms(3))
qed

lemma block_bytes_cong:
  assumes "\<And>i. i < bs div 512 \<Longrightarrow> sec (p + i) = sec' (p + i)" and "512 dvd bs"
  shows "block_bytes sec bs p = block_bytes sec' bs p"
proof -
  have "k div 512 < bs div 512" if "k < bs" for k
    using assms(2) that by (metis dvd_div_mult_self less_mult_imp_div_less)
  then show ?thesis using assms(1) by (simp add: block_bytes_def)
qed

context sector_store
begin

lemma read_sectors_ok:
  assumes "ok s" and "\<forall>i \<in> set is. p + i < limit \<and> p + i < 2 ^ 64 \<and> (i + 1) * 512 \<le> length buf"
  shows "\<exists>s' buf'. foldK (\<lambda>i buffer. bindK (liftR (add64 p i)) (\<lambda>lba. bindK (rd_sector dev lba)
            (\<lambda>sector. retK (bsplice buffer (i * 512) sector)))) is buf s = Inr (Inr buf', s')
    \<and> ok s' \<and> sectors s' = sectors s \<and> length buf' = length buf
    \<and> (\<forall>k < length buf. buf' ! k = (if k div 512 \<in> set is then sectors s (p + k div 512) ! (k mod 512) else buf ! k))"
  using assms
proof (induction "is" arbitrary: s buf)
  case Nil
  then show ?case by simp
next
  case (Cons i "is")
  have i: "p + i < limit" "p + i < 2 ^ 64" "(i + 1) * 512 \<le> length buf" using Cons.prems(2) by auto
  obtain s1 where s1: "rd_sector dev (p + i) s = Inr (Inr (sectors s (p + i)), s1)" "ok s1" "sectors s1 = sectors s"
    using rd_sector_ok [OF Cons.prems(1) i(1)] by blast
  define b1 where "b1 = bsplice buf (i * 512) (sectors s (p + i))"
  have len: "length (sectors s (p + i)) = 512" using sector_length [OF Cons.prems(1) i(1)] .
  have l1: "length b1 = length buf" unfolding b1_def by (rule length_bsplice) (use len i(3) in simp)
  have pr: "\<forall>i \<in> set is. p + i < limit \<and> p + i < 2 ^ 64 \<and> (i + 1) * 512 \<le> length b1"
    using Cons.prems(2) l1 by simp
  obtain s2 buf' where s2: "foldK (\<lambda>i buffer. bindK (liftR (add64 p i)) (\<lambda>lba. bindK (rd_sector dev lba)
            (\<lambda>sector. retK (bsplice buffer (i * 512) sector)))) is b1 s1 = Inr (Inr buf', s2)"
      "ok s2" "sectors s2 = sectors s1" "length buf' = length b1"
      "\<forall>k < length b1. buf' ! k = (if k div 512 \<in> set is then sectors s1 (p + k div 512) ! (k mod 512) else b1 ! k)"
    using Cons.IH [OF s1(2) pr] by blast
  have st: "b1 ! k = (if k div 512 = i then sectors s (p + i) ! (k mod 512) else buf ! k)" if "k < length buf" for k
  proof (cases "k div 512 = i")
    case True
    have "i * 512 \<le> k" "k < i * 512 + 512" "k - i * 512 = k mod 512"
      unfolding True [symmetric] by (auto simp: minus_div_mult_eq_mod)
    then show ?thesis unfolding b1_def using True len i(3) that by (subst nth_bsplice) auto
  next
    case False
    then have "\<not> (i * 512 \<le> k \<and> k < i * 512 + 512)" by auto
    then show ?thesis unfolding b1_def using False len i(3) that by (subst nth_bsplice) auto
  qed
  have "add64 p i = Inr (p + i)" using i(2) by (simp add: add_w_def)
  then have "foldK (\<lambda>i buffer. bindK (liftR (add64 p i)) (\<lambda>lba. bindK (rd_sector dev lba)
            (\<lambda>sector. retK (bsplice buffer (i * 512) sector)))) (i # is) buf s = Inr (Inr buf', s2)"
    using s1(1) s2(1) by (simp add: bindK_ok b1_def [symmetric])
  moreover have "sectors s2 = sectors s" "length buf' = length buf" using s2(3,4) s1(3) l1 by simp_all
  moreover have "\<forall>k < length buf. buf' ! k
      = (if k div 512 \<in> set (i # is) then sectors s (p + k div 512) ! (k mod 512) else buf ! k)"
    using s2(5) s1(3) l1 st by auto
  ultimately show ?case using s2(2) by blast
qed

lemma read_dir_block_ok:
  assumes "ok s" and "512 dvd bs" and "p + bs div 512 \<le> limit" and "p + bs div 512 < 2 ^ 64"
  shows "\<exists>s'. read_dir_block dev bs p s = Inr (Inr (block_bytes (sectors s) bs p), s') \<and> ok s' \<and> sectors s' = sectors s"
proof -
  have "(i + 1) * 512 \<le> bs" if "i < bs div 512" for i
    using that less_eq_div_iff_mult_less_eq [of 512 "i + 1" bs] by simp
  then obtain s' buf' where r: "read_dir_block dev bs p s = Inr (Inr buf', s')" "ok s'" "sectors s' = sectors s"
      "length buf' = bs"
      "\<forall>k < bs. buf' ! k = (if k div 512 \<in> set [0 ..< bs div 512] then sectors s (p + k div 512) ! (k mod 512)
         else replicate bs 0 ! k)"
    using read_sectors_ok [OF assms(1), of "[0 ..< bs div 512]" p "replicate bs 0"] assms(3,4)
    unfolding read_dir_block_def by auto
  have "k div 512 < bs div 512" if "k < bs" for k
    using assms(2) that by (metis dvd_div_mult_self less_mult_imp_div_less)
  then have "buf' = block_bytes (sectors s) bs p"
    using r(4,5) by (intro nth_equalityI) (auto simp: block_bytes_def)
  with r(1-3) show ?thesis by blast
qed

lemma write_dir_block_ok:
  assumes "ok s" and "512 dvd bs" and "p + bs div 512 \<le> limit" and "p + bs div 512 < 2 ^ 64" and "length b = bs"
  shows "\<exists>s'. write_dir_block dev bs p b s = Inr (Inr (), s') \<and> ok s'
    \<and> block_bytes (sectors s') bs p = b
    \<and> (\<forall>x. x < p \<or> p + bs div 512 \<le> x \<longrightarrow> sectors s' x = sectors s x)"
proof -
  have "length (bslice b (i * 512) 512) = 512" if "i < bs div 512" for i
  proof (rule length_bslice)
    show "i * 512 + 512 \<le> length b"
      using that less_eq_div_iff_mult_less_eq [of 512 "i + 1" bs] assms(5) by simp
  qed
  then obtain s' where s': "write_dir_block dev bs p b s = Inr (Inr (), s')" "ok s'"
      "sectors s' = (\<lambda>x. if p \<le> x \<and> x - p \<in> set [0 ..< bs div 512] then bslice b ((x - p) * 512) 512 else sectors s x)"
    using write_sectors_ok [OF assms(1), of "[0 ..< bs div 512]" p "\<lambda>i. bslice b (i * 512) 512"] assms(3,4)
    unfolding write_dir_block_def by auto
  then have "block_bytes (sectors s') bs p = b"
    using assms(2,5) by (intro block_bytes_sectors) auto
  then show ?thesis using s' by auto
qed

lemma add_entry_ok:
  assumes "ok s" and bs: "vol_block_size v = Inr bs" and dir: "node_is_directory node"
    and p: "logical_to_physical_sector v (node_inode node) 0 = Inr (Some p)"
    and lim: "p + bs div 512 \<le> limit" "p + bs div 512 < 2 ^ 64"
    and d: "dir_list (block_bytes (sectors s) bs p) bs 0 = Some es" and pos: "0 < bs"
    and nm: "length name < 256"
  shows "\<exists>lst. entry_walk (block_bytes (sectors s) bs p) bs 0 = Inr (Inr lst)
    \<and> (if record_slack (block_bytes (sectors s) bs p) lst < align4 (8 + length name)
       then \<exists>s'. add_entry dev v node name i s = Inr (Inl NoSpace, s') \<and> ok s' \<and> sectors s' = sectors s
       else \<exists>s'. add_entry dev v node name i s = Inr (Inr (), s') \<and> ok s'
         \<and> dir_list (block_bytes (sectors s') bs p) bs 0 = Some (es @ [(i, name)])
         \<and> (\<forall>x. x < p \<or> p + bs div 512 \<le> x \<longrightarrow> sectors s' x = sectors s x))"
proof -
  let ?b = "block_bytes (sectors s) bs p"
  have dv: "512 dvd bs" using block_size_512(1) [OF bs] .
  obtain s1 where s1: "read_dir_block dev bs p s = Inr (Inr ?b, s1)" "ok s1" "sectors s1 = sectors s"
    using read_dir_block_ok [OF assms(1) dv lim] by blast
  obtain lst where l: "entry_walk ?b bs 0 = Inr (Inr lst)" "lst < bs"
      "lst + unat (de_rec_len (decode_dir_entry ?b lst)) = bs" "dir_list ?b bs lst = Some [last es]"
      "\<forall>b' es'. take lst b' = take lst ?b \<longrightarrow> dir_list b' bs lst = Some es' \<longrightarrow>
         dir_list b' bs 0 = Some (butlast es @ es')"
    using entry_walk_ok [OF d pos] by auto
  have ne: "es \<noteq> []" using dir_list_Some [OF d pos] by blast
  have "if record_slack ?b lst < align4 (8 + length name)
    then entry_insert ?b lst name i = Inr (Inl NoSpace)
    else \<exists>b'. entry_insert ?b lst name i = Inr (Inr b') \<and> length b' = bs \<and> take lst b' = take lst ?b
         \<and> dir_list b' bs lst = Some [last es, (i, name)]"
    by (rule entry_insert_ok [OF l(4) _ l(2,3) nm]) simp
  then consider
    (full) "record_slack ?b lst < align4 (8 + length name)" "entry_insert ?b lst name i = Inr (Inl NoSpace)"
    | (fits) b' where "\<not> record_slack ?b lst < align4 (8 + length name)"
        "entry_insert ?b lst name i = Inr (Inr b')" "length b' = bs" "take lst b' = take lst ?b"
        "dir_list b' bs lst = Some [last es, (i, name)]" by (auto split: if_splits)
  then show ?thesis
  proof cases
    case full
    then show ?thesis using s1 l(1) bs dir p by (simp add: add_entry_def bindK_ok)
  next
    case fits
    obtain s2 where s2: "write_dir_block dev bs p b' s1 = Inr (Inr (), s2)" "ok s2"
        "block_bytes (sectors s2) bs p = b'"
        "\<forall>x. x < p \<or> p + bs div 512 \<le> x \<longrightarrow> sectors s2 x = sectors s1 x"
      using write_dir_block_ok [OF s1(2) dv lim fits(3)] by blast
    have "dir_list b' bs 0 = Some (es @ [(i, name)])"
      using l(5) fits(4,5) ne by (metis append.assoc append_Cons append_Nil append_butlast_last_id)
    then show ?thesis using s1 s2 l(1) fits bs dir p by (simp add: add_entry_def bindK_ok)
  qed
qed

text \<open>After a successful insertion, a lookup of the name returns the inserted inode.\<close>

lemma lookup_ok:
  assumes "ok s" and bs: "vol_block_size v = Inr bs" and dir: "node_is_directory node" and sz: "node_size node = bs"
    and p: "logical_to_physical_sector v (node_inode node) 0 = Inr (Some p)"
    and lim: "p + bs div 512 \<le> limit" "p + bs div 512 < 2 ^ 64" and pos: "0 < bs"
    and d: "dir_list (block_bytes (sectors s) bs p) bs 0 = Some es"
    and f: "find (\<lambda>(i, nm). i \<noteq> 0 \<and> nm = name) es = Some (i, nm)"
    and b: "bgd_sector v bs < limit" "bgd_sector v bs < 2 ^ 64"
    and r: "inode_reachable v bs (sectors s (bgd_sector v bs)) limit i"
    and pl: "inode_place v bs (sectors s (bgd_sector v bs)) i = (t, off)"
  shows "\<exists>s'. ext4_lookup dev v node name s
    = Inr (Inr (Some (make_node i (decode_inode (bslice (sectors s t) off 116)))), s') \<and> ok s' \<and> sectors s' = sectors s"
proof -
  have m: "mapped v (node_inode node) bs (\<lambda>_. p) limit 1" using p lim by (simp add: mapped_def)
  obtain s1 buf where s1: "ext4_read dev v node 0 (replicate bs 0) s = Inr (Inr (bs, buf), s1)" "ok s1"
      "sectors s1 = sectors s" "length buf = bs"
      "\<forall>k < bs. buf ! k = file_byte (sectors s) bs (\<lambda>_. p) k"
    using ext4_read_ok [OF assms(1) bs m, where off = 0 and buf = "replicate bs 0"] sz by auto
  have "buf = block_bytes (sectors s) bs p"
    using s1(4,5) by (intro nth_equalityI) (auto simp: file_byte_def block_bytes_def)
  with d have d': "dir_list buf bs 0 = Some es" by simp
  obtain s2 where s2: "read_inode dev v i s1 = Inr (Inr (decode_inode (bslice (sectors s t) off 116)), s2)"
      "ok s2" "sectors s2 = sectors s"
    using read_inode_ok [OF s1(2) bs b] r pl s1(3) by metis
  have "lookup_loop dev v buf bs name 0 s1
      = Inr (Inr (Some (make_node i (decode_inode (bslice (sectors s t) off 116)))), s2)"
    using lookup_loop_ok [OF d' le0 s1(4), of name dev v s1] f s2(1) by blast
  then show ?thesis using s1(1) s2(2,3) dir sz pos by (simp add: ext4_lookup_def bindK_ok)
qed

end

section \<open>A file from its data to its reader\<close>

lemma file_byte_block:
  assumes "512 dvd bs" and "length blk = bs" and "k < bs"
    and "\<And>x. p \<le> x \<Longrightarrow> x < p + bs div 512 \<Longrightarrow> sec x = bslice blk ((x - p) * 512) 512"
  shows "file_byte sec bs (\<lambda>_. p) k = blk ! k"
proof -
  have "k div 512 < bs div 512"
    using assms(1,3) by (auto elim!: dvdE simp: div_less_iff_less_mult)
  then have "sec (p + k div 512) = bslice blk (k div 512 * 512) 512"
    using assms(4) [of "p + k div 512"] by simp
  moreover have "k div 512 * 512 + k mod 512 = k" by simp
  ultimately show ?thesis
    using assms(2,3) by (simp add: file_byte_def bslice_def)
qed

context sector_store
begin

lemma written_file_read:
  fixes v :: Ext4Volume and b :: u32 and off :: nat and buf :: "u8 list"
  assumes s: "ok s" and bs: "vol_block_size v = Inr bs" and len: "length data \<le> bs" "length data < 2 ^ 32"
    and lim: "vol_start_lba v + unat b * (bs div 512) + bs div 512 \<le> limit"
      "vol_start_lba v + unat b * (bs div 512) + bs div 512 < 2 ^ 64"
  defines "c \<equiv> min (length buf) (length data - off)"
  shows "\<exists>s' s'' buf'. write_data_to_block dev v b data s = Inr (Inr (), s')
    \<and> ext4_read dev v (make_node n (build_file_inode (word_of_nat (length data)) b)) off buf s'
        = Inr (Inr (c, buf'), s'')
    \<and> length buf' = length buf
    \<and> (\<forall>i < length buf. buf' ! i = (if i < c then data ! (off + i) else buf ! i))
    \<and> ok s'' \<and> sectors s'' = sectors s'"
proof -
  let ?p = "vol_start_lba v + unat b * (bs div 512)"
  let ?node = "make_node n (build_file_inode (word_of_nat (length data)) b)"
  obtain s' where w: "write_data_to_block dev v b data s = Inr (Inr (), s')" "ok s'"
      "sectors s' = (\<lambda>x. if ?p \<le> x \<and> x < ?p + bs div 512
         then bslice (data @ replicate (bs - length data) 0) ((x - ?p) * 512) 512 else sectors s x)"
    using write_data_to_block_ok [OF s bs len(1) lim] by blast
  have m: "mapped v (node_inode ?node) bs (\<lambda>_. ?p) limit 1"
    using build_file_inode_extent [OF bs, of b] lim by (simp add: mapped_def make_node_def)
  have sz: "node_size ?node = length data"
    using len(2) by (simp add: make_node_def build_file_inode_wf unsigned_of_nat take_bit_nat_eq_self)
  have fb: "file_byte (sectors s') bs (\<lambda>_. ?p) k = data ! k" if "k < length data" for k
    using file_byte_block [OF block_size_512(1) [OF bs], of "data @ replicate (bs - length data) 0" k ?p "sectors s'"]
      that len(1) w(3) by (simp add: nth_append)
  obtain s'' buf' where r: "ext4_read dev v ?node off buf s' = Inr (Inr (c, buf'), s'')"
      "ok s''" "sectors s'' = sectors s'" "length buf' = length buf"
      "\<forall>i < length buf. buf' ! i = (if i < c then file_byte (sectors s') bs (\<lambda>_. ?p) (off + i) else buf ! i)"
    using ext4_read_ok [OF w(2) bs m, of off buf] sz len(1) by (auto simp: c_def)
  have "\<forall>i < length buf. buf' ! i = (if i < c then data ! (off + i) else buf ! i)"
    using r(5) fb by (auto simp: c_def)
  with w(1) r show ?thesis by blast
qed

end

section \<open>Properties\<close>

text \<open>
  On a healthy device, block allocation takes the lowest clear bit of the first sector of
  the block bitmap, sets that bit and no other, and returns its number; a bitmap sector
  without a clear bit gives \<^verbatim>\<open>OutOfBlocks\<close> and changes nothing.
\<close>

theorem allocate_block_first_clear:
  fixes v :: Ext4Volume
  assumes dev: "sector_store dev ok sectors limit" and "ok s" and "vol_block_size v = Inr bs"
    and "bgd_sector v bs < limit" and "bgd_sector v bs < 2 ^ 64"
    and "m = bitmap_sector v bs (bg_block_bitmap_lo (decode_bgd (sectors s (bgd_sector v bs)) 0))"
    and "m < limit" and "m < 2 ^ 64"
  shows "case first_clear (sectors s m) of
      None \<Rightarrow> \<exists>s'. allocate_block dev v s = Inr (Inl OutOfBlocks, s') \<and> ok s' \<and> sectors s' = sectors s
    | Some k \<Rightarrow> \<exists>s'. allocate_block dev v s = Inr (Inr (word_of_nat k), s') \<and> ok s'
        \<and> sectors s' = (sectors s)(m := set_bits (sectors s m) k)"
  using sector_store.allocate_bit_ok [OF assms(1-5), of bg_block_bitmap_lo OutOfBlocks 0] assms(6-)
  by (simp add: allocators_generic cong: option.case_cong)

text \<open>
  C28: an inode that is written is the inode that is read back, and an inode stored at another
  place of the table is unaffected.
\<close>

theorem inode_round_trip:
  assumes "sector_store dev ok sectors limit" and "ok s" and "vol_block_size v = Inr bs"
    and "bgd_sector v bs < limit" and "bgd_sector v bs < 2 ^ 64"
    and "inode_reachable v bs (sectors s (bgd_sector v bs)) limit n"
    and "inode_reachable v bs (sectors s (bgd_sector v bs)) limit m"
    and "fst (inode_place v bs (sectors s (bgd_sector v bs)) n) \<noteq> bgd_sector v bs" and "inode_wf i"
  shows "\<exists>s1 s2 j s3. write_inode dev v n i s = Inr (Inr (), s1)
    \<and> read_inode dev v m s = Inr (Inr j, s3)
    \<and> read_inode dev v m s1 = Inr (Inr (if inode_place v bs (sectors s (bgd_sector v bs)) m
          = inode_place v bs (sectors s (bgd_sector v bs)) n then i else j), s2)"
  by (rule sector_store.write_read_inode [OF assms])

text \<open>
  C3: a file whose data was written with \<^verbatim>\<open>write_data_to_block\<close> and whose inode was made by
  \<^verbatim>\<open>build_file_inode\<close> reads back as written: a read at any offset returns the number of bytes
  left, at most the buffer's length, fills exactly that prefix of the buffer with the
  file's bytes, and leaves the rest of the buffer and the disk alone.
\<close>

theorem file_round_trip:
  fixes v :: Ext4Volume and b :: u32
  assumes dev: "sector_store dev ok sectors limit" and s: "ok s" and bs: "vol_block_size v = Inr bs"
    and len: "length data \<le> bs" "length data < 2 ^ 32"
    and lim: "vol_start_lba v + unat b * (bs div 512) + bs div 512 \<le> limit"
      "vol_start_lba v + unat b * (bs div 512) + bs div 512 < 2 ^ 64"
  shows "\<exists>s' s'' buf'. write_data_to_block dev v b data s = Inr (Inr (), s')
    \<and> ext4_read dev v (make_node n (build_file_inode (word_of_nat (length data)) b)) off buf s'
        = Inr (Inr (min (length buf) (length data - off), buf'), s'')
    \<and> length buf' = length buf
    \<and> (\<forall>i < length buf. buf' ! i = (if i < min (length buf) (length data - off) then data ! (off + i) else buf ! i))
    \<and> ok s'' \<and> sectors s'' = sectors s'"
  by (rule sector_store.written_file_read [OF assms])


section \<open>Witnesses\<close>

text \<open>
  A volume of 1024-byte blocks on a disk image of 64 sectors: the group descriptor is in
  sector 4, the block bitmap in block 3, the inode bitmap in block 4, the inode table in
  block 5, and block 7 is a directory with one entry.
\<close>

definition demo_volume :: Ext4Volume where
  "demo_volume = \<lparr>vol_start_lba = 0, super_block = (decode_super_block [])\<lparr>s_log_block_size := 0,
     s_inodes_count := 16, s_inodes_per_group := 16\<rparr>\<rparr>"

definition demo_bgd :: "u8 list" where
  "demo_bgd = u32_bytes 3 @ u32_bytes 4 @ u32_bytes 5 @ replicate 500 0"

definition demo_dir :: "u8 list" where
  "demo_dir = u32_bytes 2 @ u16_bytes 1024 @ [1, 2, 0x2E] @ replicate 1015 0"

definition demo_image :: "nat \<Rightarrow> u8 list" where
  "demo_image = (\<lambda>_. replicate 512 0)(4 := demo_bgd, 14 := take 512 demo_dir, 15 := drop 512 demo_dir)"

definition demo_dir_node :: Ext4Node where
  "demo_dir_node = \<lparr>node_inode_num = 2, node_inode = build_file_inode 1024 7, node_is_directory = True, node_size = 1024\<rparr>"

lemma demo_image_ok: "image_ok 64 demo_image"
  by (simp add: image_ok_def demo_image_def demo_bgd_def demo_dir_def)

lemma demo_volume_values:
  "vol_block_size demo_volume = Inr 1024" "bgd_sector demo_volume 1024 = 4" "demo_image 4 = demo_bgd"
  "vol_start_lba demo_volume = 0" "s_inodes_count (super_block demo_volume) = 16"
  "s_inodes_per_group (super_block demo_volume) = 16"
  by (simp_all add: demo_volume_def vol_block_size_def sb_block_size_def shl_w_def bgd_sector_def demo_image_def)

lemma demo_bgd_values:
  "bg_block_bitmap_lo (decode_bgd demo_bgd 0) = 3" "bg_inode_table_lo (decode_bgd demo_bgd 0) = 5"
  by (simp_all add: demo_bgd_def decode_bgd_def)

lemma image_store: "sector_store (image_device cap) (image_ok cap) (\<lambda>s. s) cap"
  by (rule image.sector_store_axioms)

lemma demo_first_clear: "first_clear (replicate 512 0) = Some 0"
  by (simp add: first_clear_def upt_conv_Cons [of 0 4096] bit_at_def)

theorem allocate_block_first_clear_witness:
  "\<exists>s'. allocate_block (image_device 64) demo_volume demo_image = Inr (Inr 0, s')
     \<and> image_ok 64 s' \<and> s' 6 = 1 # replicate 511 0"
proof -
  have m: "6 = bitmap_sector demo_volume 1024 (bg_block_bitmap_lo (decode_bgd (demo_image (bgd_sector demo_volume 1024)) 0))"
    by (simp add: demo_volume_values demo_bgd_values bitmap_sector_def)
  have "demo_image 6 = replicate 512 0" by (simp add: demo_image_def)
  moreover have "set_bits (replicate 512 0) 0 = 1 # replicate 511 0"
  proof -
    have "replicate 512 (0 :: u8) = 0 # replicate 511 0"
      using replicate_Suc [of 511 "0 :: u8"] by simp
    then show ?thesis by (simp add: set_bits_def mark_bit_def)
  qed
  ultimately show ?thesis
    using allocate_block_first_clear [where ok = "image_ok 64" and sectors = "\<lambda>s. s" and s = demo_image, OF image_store demo_image_ok demo_volume_values(1) _ _ m]
    by (simp add: demo_volume_values demo_first_clear)
qed

lemma demo_place:
  "inode_place demo_volume 1024 demo_bgd 1 = (10, 0)" "inode_place demo_volume 1024 demo_bgd 3 = (11, 0)"
  by (simp_all add: inode_place_def demo_volume_values demo_bgd_values)

lemma demo_reachable:
  "inode_reachable demo_volume 1024 demo_bgd 64 1" "inode_reachable demo_volume 1024 demo_bgd 64 3"
  by (simp_all add: inode_reachable_def inode_in_range_def demo_volume_values demo_place demo_bgd_values)

theorem inode_round_trip_witness:
  "\<exists>s1 s2. write_inode (image_device 64) demo_volume 1 (build_file_inode 5 9) demo_image = Inr (Inr (), s1)
     \<and> read_inode (image_device 64) demo_volume 1 s1 = Inr (Inr (build_file_inode 5 9), s2)"
  using inode_round_trip [where ok = "image_ok 64" and sectors = "\<lambda>s. s" and s = demo_image, OF image_store demo_image_ok demo_volume_values(1), where n = 1 and m = 1 and i = "build_file_inode 5 9"]
  by (auto simp: demo_volume_values demo_reachable demo_place build_file_inode_wf)

theorem file_round_trip_witness:
  "\<exists>s' s'' buf'. write_data_to_block (image_device 64) demo_volume 9 [0x48, 0x69] demo_image = Inr (Inr (), s')
     \<and> ext4_read (image_device 64) demo_volume (make_node 3 (build_file_inode 2 9)) 1 [0, 0] s' = Inr (Inr (1, buf'), s'')
     \<and> buf' = [0x69, 0]"
proof -
  obtain s' s'' buf' where
    "write_data_to_block (image_device 64) demo_volume 9 [0x48, 0x69] demo_image = Inr (Inr (), s')"
    "ext4_read (image_device 64) demo_volume (make_node 3 (build_file_inode 2 9)) 1 [0, 0] s' = Inr (Inr (1, buf'), s'')"
    "length buf' = 2" "\<forall>i < 2. buf' ! i = (if i < 1 then [0x48, 0x69] ! (1 + i) else [0, 0] ! i)"
    using file_round_trip [where ok = "image_ok 64" and sectors = "\<lambda>s. s" and s = demo_image, OF image_store demo_image_ok demo_volume_values(1), where data = "[0x48, 0x69]" and b = 9 and n = 3 and off = 1 and buf = "[0, 0]"]
    by (auto simp: demo_volume_values)
  moreover from this(3,4) have "buf' = [0x69, 0]"
    by (auto simp: length_Suc_conv numeral_2_eq_2 All_less_Suc)
  ultimately show ?thesis by blast
qed

lemma demo_dir_length: "length demo_dir = 1024"
  by (simp add: demo_dir_def)

lemma demo_dir_bytes: "block_bytes demo_image 1024 14 = demo_dir"
proof (rule block_bytes_sectors [OF demo_dir_length])
  fix i :: nat assume "i < 1024 div 512"
  then have "i = 0 \<or> i = 1" by auto
  then show "demo_image (14 + i) = bslice demo_dir (i * 512) 512"
    using demo_dir_length by (auto simp: demo_image_def bslice_def)
qed simp

lemma align4_9: "align4 9 = 12"
  by (simp add: align4_def align_down_def)

lemma demo_dir_entry:
  "decode_dir_entry demo_dir 0 = \<lparr>de_inode = 2, de_rec_len = 1024, de_name_len = 1, de_file_type = 2\<rparr>"
  by (simp add: decode_dir_entry_def demo_dir_def)

lemma demo_dir_list: "dir_list demo_dir 1024 0 = Some [(2, [0x2E])]"
proof -
  have "bslice demo_dir 8 1 = [0x2E]"
    by (simp add: bslice_def demo_dir_def)
  then show ?thesis
    using dir_list_step [of 0 1024 "decode_dir_entry demo_dir 0" demo_dir "[]"]
    by (simp add: demo_dir_entry align4_9 dir_list_end)
qed

lemma demo_dir_walk: "entry_walk demo_dir 1024 0 = Inr (Inr 0)" "record_slack demo_dir 0 = 1012"
  by (subst entry_walk.simps, simp add: demo_dir_entry demo_dir_length)
    (simp add: record_slack_def demo_dir_entry align4_9)

lemma demo_dir_node_values: "node_is_directory demo_dir_node" "node_size demo_dir_node = 1024"
  by (simp_all add: demo_dir_node_def)


end
