(* ===== verification/Rust_Str.thy ===== *)
theory Rust_Str
  imports Kernel_Base
begin

text \<open>
  Strings of the standard library, as far as the kernel uses them. A \<^verbatim>\<open>&str\<close> is the list of its
  UTF-8 bytes and a \<^verbatim>\<open>char\<close> its code point: validation and decoding, the encoding of one
  character, trimming, parsing of octal numbers and splitting of paths.
\<close>

section \<open>UTF-8\<close>

definition continuation :: "u8 \<Rightarrow> bool" where
  "continuation b \<longleftrightarrow> 0x80 \<le> b \<and> b \<le> 0xBF"

text \<open>The second byte a leading byte of a three or four byte form allows.\<close>

definition second_ok :: "u8 \<Rightarrow> u8 \<Rightarrow> bool" where
  "second_ok a b \<longleftrightarrow>
     (if a = 0xE0 then 0xA0 \<le> b \<and> b \<le> 0xBF
      else if a = 0xED then 0x80 \<le> b \<and> b \<le> 0x9F
      else if a = 0xF0 then 0x90 \<le> b \<and> b \<le> 0xBF
      else if a = 0xF4 then 0x80 \<le> b \<and> b \<le> 0x8F
      else continuation b)"

definition tail6 :: "u8 \<Rightarrow> nat" where
  "tail6 b = unat b mod 64"

text \<open>\<^verbatim>\<open>core::str::from_utf8\<close>: the characters, or \<open>None\<close> when the bytes are not well-formed.\<close>

fun from_utf8 :: "u8 list \<Rightarrow> nat list option" where
  "from_utf8 [] = Some []"
| "from_utf8 (a # bs) =
     (if a < 0x80 then map_option ((#) (unat a)) (from_utf8 bs)
      else if 0xC2 \<le> a \<and> a \<le> 0xDF then
        (case bs of
           b # cs \<Rightarrow> if continuation b
                     then map_option ((#) (unat a mod 32 * 64 + tail6 b)) (from_utf8 cs) else None
         | _ \<Rightarrow> None)
      else if 0xE0 \<le> a \<and> a \<le> 0xEF then
        (case bs of
           b # c # cs \<Rightarrow> if second_ok a b \<and> continuation c
                         then map_option ((#) (unat a mod 16 * 4096 + tail6 b * 64 + tail6 c)) (from_utf8 cs)
                         else None
         | _ \<Rightarrow> None)
      else if 0xF0 \<le> a \<and> a \<le> 0xF4 then
        (case bs of
           b # c # d # cs \<Rightarrow>
             if second_ok a b \<and> continuation c \<and> continuation d
             then map_option ((#) (unat a mod 8 * 262144 + tail6 b * 4096 + tail6 c * 64 + tail6 d)) (from_utf8 cs)
             else None
         | _ \<Rightarrow> None)
      else None)"

text \<open>\<^verbatim>\<open>char::encode_utf8\<close>\<close>

definition encode_utf8 :: "nat \<Rightarrow> u8 list" where
  "encode_utf8 c =
     (if c < 0x80 then [word_of_nat c]
      else if c < 0x800 then [word_of_nat (0xC0 + c div 64), word_of_nat (0x80 + c mod 64)]
      else if c < 0x10000 then
        [word_of_nat (0xE0 + c div 4096), word_of_nat (0x80 + c div 64 mod 64), word_of_nat (0x80 + c mod 64)]
      else
        [word_of_nat (0xF0 + c div 262144), word_of_nat (0x80 + c div 4096 mod 64),
         word_of_nat (0x80 + c div 64 mod 64), word_of_nat (0x80 + c mod 64)])"

text \<open>The bytes of a string literal.\<close>

definition ascii :: "string \<Rightarrow> u8 list" where
  "ascii cs = map of_char cs"

text \<open>\<^verbatim>\<open>from_utf8(bytes).unwrap_or("")\<close>\<close>

definition str_or_empty :: "u8 list \<Rightarrow> u8 list" where
  "str_or_empty bs = (if from_utf8 bs = None then [] else bs)"

lemma from_utf8_ascii: "list_all (\<lambda>b. b < 0x80) bs \<Longrightarrow> from_utf8 bs = Some (map unat bs)"
  by (induction bs) auto

lemma length_encode_utf8: "0 < length (encode_utf8 c)" "length (encode_utf8 c) \<le> 4"
  by (auto simp: encode_utf8_def)

section \<open>Bytes as characters\<close>

text \<open>Pushing a byte as a \<^verbatim>\<open>char\<close> onto a string appends the UTF-8 form of that code point.\<close>

definition push_char :: "u8 \<Rightarrow> u8 list" where
  "push_char b = (if b < 0x80 then [b] else [0xC0 OR drop_bit 6 b, 0x80 OR (b AND 0x3F)])"

definition to_ascii_lowercase :: "u8 \<Rightarrow> u8" where
  "to_ascii_lowercase b = (if 0x41 \<le> b \<and> b \<le> 0x5A then b + 0x20 else b)"

definition eq_ignore_ascii_case :: "u8 list \<Rightarrow> u8 list \<Rightarrow> bool" where
  "eq_ignore_ascii_case a b \<longleftrightarrow> map to_ascii_lowercase a = map to_ascii_lowercase b"

section \<open>Numbers\<close>

text \<open>\<^verbatim>\<open>char::is_whitespace\<close>\<close>

definition is_whitespace :: "nat \<Rightarrow> bool" where
  "is_whitespace c \<longleftrightarrow> 0x09 \<le> c \<and> c \<le> 0x0D \<or> c = 0x20 \<or> c = 0x85 \<or> c = 0xA0 \<or> c = 0x1680
     \<or> 0x2000 \<le> c \<and> c \<le> 0x200A \<or> c = 0x2028 \<or> c = 0x2029 \<or> c = 0x202F \<or> c = 0x205F \<or> c = 0x3000"

definition trim :: "nat list \<Rightarrow> nat list" where
  "trim cs = rev (dropWhile is_whitespace (rev (dropWhile is_whitespace cs)))"

fun octal_digits :: "nat \<Rightarrow> nat list \<Rightarrow> nat option" where
  "octal_digits acc [] = Some acc"
| "octal_digits acc (c # cs) =
     (if 0x30 \<le> c \<and> c \<le> 0x37 \<and> acc * 8 + (c - 0x30) < 2 ^ 64
      then octal_digits (acc * 8 + (c - 0x30)) cs else None)"

text \<open>\<^verbatim>\<open>usize::from_str_radix(s, 8)\<close>: an optional plus sign and at least one digit.\<close>

definition from_str_radix8 :: "nat list \<Rightarrow> nat option" where
  "from_str_radix8 cs =
     (case cs of
        [] \<Rightarrow> None
      | c # ds \<Rightarrow> if c = 0x2B then (if ds = [] then None else octal_digits 0 ds) else octal_digits 0 cs)"

text \<open>The eleven octal digits an archive header uses for a size.\<close>

definition octal11 :: "nat \<Rightarrow> u8 list" where
  "octal11 n = map (\<lambda>i. word_of_nat (0x30 + n div 8 ^ i mod 8)) (rev [0 ..< 11])"

lemma octal_digits_value:
  assumes "n < 8 ^ k" and "acc * 8 ^ k + n < 2 ^ 64"
  shows "octal_digits acc (map (\<lambda>i. 0x30 + n div 8 ^ i mod 8) (rev [0 ..< k])) = Some (acc * 8 ^ k + n)"
  using assms
proof (induction k arbitrary: acc n)
  case 0
  then show ?case by simp
next
  case (Suc k)
  let ?d = "n div 8 ^ k" and ?r = "n mod 8 ^ k"
  have d: "?d < 8" using Suc.prems(1) by (simp add: div_less_iff_less_mult)
  have n: "?d * 8 ^ k + ?r = n" by (rule div_mult_mod_eq)
  have e: "(acc * 8 + ?d) * 8 ^ k + ?r = acc * 8 ^ Suc k + n"
    by (subst (3) n [symmetric]) (simp add: algebra_simps)
  have "?r < 8 ^ k" by simp
  then have ih: "octal_digits (acc * 8 + ?d) (map (\<lambda>i. 0x30 + ?r div 8 ^ i mod 8) (rev [0 ..< k]))
      = Some (acc * 8 ^ Suc k + n)"
    using Suc.IH [of ?r "acc * 8 + ?d"] Suc.prems(2) unfolding e by blast
  have m: "?r div 8 ^ i mod 8 = n div 8 ^ i mod 8" if ik: "i < k" for i
  proof -
    obtain j where j: "k = Suc (i + j)" using less_imp_Suc_add [OF ik] by blast
    have "8 ^ k = 8 ^ i * (8 * 8 ^ j :: nat)" unfolding j by (simp add: power_add)
    then have "?r div 8 ^ i = n div 8 ^ i mod (8 * 8 ^ j)" by (simp only: mod_mult2_eq) simp
    then show ?thesis by (simp only: mod_mod_cancel [OF dvd_triv_left])
  qed
  have mp: "map (\<lambda>i. 0x30 + ?r div 8 ^ i mod 8) (rev [0 ..< k]) = map (\<lambda>i. 0x30 + n div 8 ^ i mod 8) (rev [0 ..< k])"
    using m by simp
  have "acc * 8 + ?d < 2 ^ 64"
  proof -
    have "acc * 8 + ?d \<le> (acc * 8 + ?d) * 8 ^ k" by simp
    also have "\<dots> \<le> acc * 8 ^ Suc k + n" unfolding e [symmetric] by simp
    finally show ?thesis using Suc.prems(2) by linarith
  qed
  then show ?case using ih [unfolded mp] d by simp
qed

lemma octal11_ascii: "list_all (\<lambda>b. b < 0x80) (octal11 n)" "map unat (octal11 n) = map (\<lambda>i. 0x30 + n div 8 ^ i mod 8) (rev [0 ..< 11])"
proof -
  have u: "unat (word_of_nat (0x30 + d) :: u8) = 0x30 + d" if "d < 8" for d
    using that by (subst unat_of_nat) simp
  then show "map unat (octal11 n) = map (\<lambda>i. 0x30 + n div 8 ^ i mod 8) (rev [0 ..< 11])"
    by (simp add: octal11_def del: upt_rec_numeral)
  have "(word_of_nat (0x30 + d) :: u8) < 0x80" if "d < 8" for d
    using u [OF that] that by (simp add: word_less_nat_alt)
  then show "list_all (\<lambda>b. b < 0x80) (octal11 n)"
    by (simp add: octal11_def list_all_iff del: upt_rec_numeral)
qed

lemma length_octal11 [simp]: "length (octal11 n) = 11"
  by (simp add: octal11_def del: upt_rec_numeral)

lemma octal11_parse:
  assumes "n < 8 ^ 11"
  shows "map_option (\<lambda>cs. from_str_radix8 (trim cs)) (from_utf8 (octal11 n)) = Some (Some n)"
proof -
  define ds where "ds = map (\<lambda>i. 0x30 + n div 8 ^ i mod 8) (rev [0 ..< 11])"
  have dg: "0x30 \<le> d \<and> d \<le> 0x37" if "d \<in> set ds" for d
    using that unfolding ds_def by (auto simp: le_less_Suc_eq less_Suc_eq_le [symmetric] simp del: upt_rec_numeral)
  have ne: "ds \<noteq> []" by (simp add: ds_def del: upt_rec_numeral)
  have nw: "dropWhile is_whitespace xs = xs" if "set xs \<subseteq> set ds" for xs
  proof (cases xs)
    case (Cons d xs')
    then have "0x30 \<le> d \<and> d \<le> 0x37" using that dg by simp
    then have "\<not> is_whitespace d" unfolding is_whitespace_def by linarith
    then show ?thesis using Cons by simp
  qed simp
  have t: "trim ds = ds" unfolding trim_def using nw [of ds] nw [of "rev ds"] by simp
  have "from_str_radix8 ds = octal_digits 0 ds"
    using ne dg by (cases ds) (auto simp: from_str_radix8_def)
  also have "\<dots> = Some n"
    using octal_digits_value [of n 11 0] assms unfolding ds_def by simp
  finally show ?thesis
    using from_utf8_ascii [OF octal11_ascii(1)] octal11_ascii(2) t by (simp add: ds_def)
qed

section \<open>Paths\<close>

fun split_on :: "'a \<Rightarrow> 'a list \<Rightarrow> 'a list list" where
  "split_on s [] = [[]]"
| "split_on s (c # cs) =
     (if c = s then [] # split_on s cs
      else (case split_on s cs of [] \<Rightarrow> [[c]] | p # ps \<Rightarrow> (c # p) # ps))"

text \<open>\<^verbatim>\<open>path.split('/').filter(|p| !p.is_empty())\<close>\<close>

definition path_parts :: "u8 list \<Rightarrow> u8 list list" where
  "path_parts path = filter (\<lambda>p. p \<noteq> []) (split_on 0x2F path)"

text \<open>\<^verbatim>\<open>trim_start_matches('/')\<close>\<close>

definition trim_start_slashes :: "u8 list \<Rightarrow> u8 list" where
  "trim_start_slashes = dropWhile (\<lambda>c. c = 0x2F)"

lemma split_on_nonempty: "split_on s cs \<noteq> []"
  by (induction cs) (auto split: list.splits)

lemma split_on_absent: "s \<notin> set cs \<Longrightarrow> split_on s cs = [cs]"
  by (induction cs) auto

lemma split_on_append: "s \<notin> set p \<Longrightarrow> split_on s (p @ s # cs) = p # split_on s cs"
  by (induction p) auto

text \<open>Joining components with leading slashes and splitting again gives them back.\<close>

definition join_path :: "u8 list list \<Rightarrow> u8 list" where
  "join_path ps = concat (map ((#) 0x2F) ps)"

lemma path_parts_slash: "path_parts (0x2F # cs) = path_parts cs"
  by (simp add: path_parts_def)

lemma path_parts_join:
  "\<forall>p \<in> set ps. p \<noteq> [] \<and> 0x2F \<notin> set p \<Longrightarrow> path_parts (join_path ps) = ps"
proof (induction ps)
  case Nil
  then show ?case by (simp add: path_parts_def join_path_def)
next
  case (Cons p ps)
  then have p: "p \<noteq> []" "0x2F \<notin> set p" and ih: "path_parts (join_path ps) = ps" by auto
  show ?case
  proof (cases ps)
    case Nil
    then show ?thesis using p by (simp add: join_path_def path_parts_slash path_parts_def split_on_absent)
  next
    case (Cons q qs)
    then have "join_path (p # ps) = 0x2F # p @ 0x2F # (q @ join_path qs)" and "join_path ps = 0x2F # q @ join_path qs"
      by (simp_all add: join_path_def)
    then show ?thesis using p ih by (simp add: path_parts_def split_on_append)
  qed
qed

end
