(* ===== verification/Fat.thy ===== *)
theory Fat
  imports Block_Device Rust_Str
begin

text \<open>
  The FAT driver: the boot sectors and directory entries of \<^verbatim>\<open>src/fs/fat/bpb.rs\<close>, the volume of
  \<^verbatim>\<open>src/fs/fat/volume.rs\<close> and the node of \<^verbatim>\<open>src/fs/fat/mod.rs\<close>. The three geometry routines call each
  other, and on a FAT32 volume they do so forever, so they are one partial function whose
  missing result is the outcome \<open>Diverges\<close>. The lemmas show what a directory lookup returns,
  and that a read of a file on a FAT16 volume returns the bytes its cluster chain holds.
\<close>

section \<open>On-disk structures\<close>

text \<open>The parameter block both variants begin with, and their extensions.\<close>

record Bpb =
  jump_boot :: "u8 list"
  oem_name :: "u8 list"
  bytes_per_sector :: u16
  sectors_per_cluster :: u8
  reserved_sector_count :: u16
  table_count :: u8
  root_entry_count :: u16
  total_sectors_16 :: u16
  media_type :: u8
  table_size_16 :: u16
  sectors_per_track :: u16
  head_side_count :: u16
  hidden_sector_count :: u32
  total_sectors_32 :: u32

record Fat16BootSector = Bpb +
  f16_drive_number :: u8
  f16_reserved_1 :: u8
  f16_boot_signature :: u8
  f16_volume_id :: u32
  f16_volume_label :: "u8 list"
  f16_fat_type_label :: "u8 list"

record Fat32BootSector = Bpb +
  table_size_32 :: u32
  extended_flags :: u16
  fat_version :: u16
  root_cluster :: u32
  fat_info :: u16
  backup_bs_sector :: u16
  reserved_0 :: "u8 list"
  f32_drive_number :: u8
  f32_reserved_1 :: u8
  f32_boot_signature :: u8
  f32_volume_id :: u32
  f32_volume_label :: "u8 list"
  f32_fat_type_label :: "u8 list"

datatype FatType = Fat16 Fat16BootSector | Fat32 Fat32BootSector

definition decode_fat16 :: "u8 list \<Rightarrow> Fat16BootSector" where
  "decode_fat16 b =
     \<lparr>jump_boot = bslice b 0 3, oem_name = bslice b 3 8, bytes_per_sector = get_u16 b 11,
      sectors_per_cluster = get_u8 b 13, reserved_sector_count = get_u16 b 14, table_count = get_u8 b 16,
      root_entry_count = get_u16 b 17, total_sectors_16 = get_u16 b 19, media_type = get_u8 b 21,
      table_size_16 = get_u16 b 22, sectors_per_track = get_u16 b 24, head_side_count = get_u16 b 26,
      hidden_sector_count = get_u32 b 28, total_sectors_32 = get_u32 b 32,
      f16_drive_number = get_u8 b 36, f16_reserved_1 = get_u8 b 37, f16_boot_signature = get_u8 b 38,
      f16_volume_id = get_u32 b 39, f16_volume_label = bslice b 43 11, f16_fat_type_label = bslice b 54 8\<rparr>"

definition decode_fat32 :: "u8 list \<Rightarrow> Fat32BootSector" where
  "decode_fat32 b =
     \<lparr>jump_boot = bslice b 0 3, oem_name = bslice b 3 8, bytes_per_sector = get_u16 b 11,
      sectors_per_cluster = get_u8 b 13, reserved_sector_count = get_u16 b 14, table_count = get_u8 b 16,
      root_entry_count = get_u16 b 17, total_sectors_16 = get_u16 b 19, media_type = get_u8 b 21,
      table_size_16 = get_u16 b 22, sectors_per_track = get_u16 b 24, head_side_count = get_u16 b 26,
      hidden_sector_count = get_u32 b 28, total_sectors_32 = get_u32 b 32,
      table_size_32 = get_u32 b 36, extended_flags = get_u16 b 40, fat_version = get_u16 b 42,
      root_cluster = get_u32 b 44, fat_info = get_u16 b 48, backup_bs_sector = get_u16 b 50,
      reserved_0 = bslice b 52 12, f32_drive_number = get_u8 b 64, f32_reserved_1 = get_u8 b 65,
      f32_boot_signature = get_u8 b 66, f32_volume_id = get_u32 b 67, f32_volume_label = bslice b 71 11,
      f32_fat_type_label = bslice b 82 8\<rparr>"

record DirectoryEntry =
  entry_name :: "u8 list"
  attributes :: u8
  reserved :: u8
  creation_time_tenths :: u8
  creation_time :: u16
  creation_date :: u16
  last_access_date :: u16
  first_cluster_high :: u16
  write_time :: u16
  write_date :: u16
  first_cluster_low :: u16
  file_size :: u32

definition decode_directory_entry :: "u8 list \<Rightarrow> DirectoryEntry" where
  "decode_directory_entry b =
     \<lparr>entry_name = bslice b 0 11, attributes = get_u8 b 11, reserved = get_u8 b 12,
      creation_time_tenths = get_u8 b 13, creation_time = get_u16 b 14, creation_date = get_u16 b 16,
      last_access_date = get_u16 b 18, first_cluster_high = get_u16 b 20, write_time = get_u16 b 22,
      write_date = get_u16 b 24, first_cluster_low = get_u16 b 26, file_size = get_u32 b 28\<rparr>"

text \<open>\<^verbatim>\<open>from_raw_parts(buffer as *const DirectoryEntry, 16)\<close> over a 512 byte sector.\<close>

definition sector_entries :: "u8 list \<Rightarrow> DirectoryEntry list" where
  "sector_entries buffer = map (\<lambda>i. decode_directory_entry (bslice buffer (32 * i) 32)) [0 ..< 16]"

section \<open>The volume\<close>

record FatVolume =
  fat_start_lba :: nat
  fat_type :: FatType

definition fat_mount :: "'s block_device \<Rightarrow> nat \<Rightarrow> ('s, FsError, FatVolume) kop" where
  "fat_mount dev lba =
     bindK (rd_sector dev lba) (\<lambda>buffer.
     if get_u8 buffer 510 \<noteq> 0x55 \<or> get_u8 buffer 511 \<noteq> 0xAA
     then failK (BadMagic 0xAA55 (get_u16 buffer 510))
     else retK \<lparr>fat_start_lba = lba,
                fat_type = (if get_u16 buffer 22 = 0 then Fat32 (decode_fat32 buffer)
                            else Fat16 (decode_fat16 buffer))\<rparr>)"

text \<open>
  \<^verbatim>\<open>root_dir_sector\<close>, \<^verbatim>\<open>first_data_sector\<close> and \<^verbatim>\<open>cluster_to_sector\<close>, told apart by the query: each
  calls one of the others.
\<close>

datatype geometry = RootDirSector | FirstDataSector | ClusterToSector u32

partial_function (option) fat_geometry :: "FatVolume \<Rightarrow> geometry \<Rightarrow> nat run option" where
  "fat_geometry v q =
     (case q of
        RootDirSector \<Rightarrow>
          (case fat_type v of
             Fat16 bs \<Rightarrow>
               Some (bindR (add64 (fat_start_lba v) (unat (reserved_sector_count bs))) (\<lambda>fats.
                     bindR (mul64 (unat (table_count bs)) (unat (table_size_16 bs))) (\<lambda>tables.
                     add64 fats tables)))
           | Fat32 bs \<Rightarrow> fat_geometry v (ClusterToSector (root_cluster bs)))
      | FirstDataSector \<Rightarrow>
          (case fat_type v of
             Fat16 bs \<Rightarrow>
               (case bindR (mul64 (unat (root_entry_count bs)) 32) (\<lambda>bytes.
                     bindR (sub64 (unat (bytes_per_sector bs)) 1) (\<lambda>round.
                     bindR (add64 bytes round) (\<lambda>sum. div_w sum (unat (bytes_per_sector bs))))) of
                  Inl p \<Rightarrow> Some (Inl p)
                | Inr root_dir_sectors \<Rightarrow>
                    Option.bind (fat_geometry v RootDirSector) (\<lambda>root.
                    Some (bindR root (\<lambda>r. add64 r root_dir_sectors))))
           | Fat32 _ \<Rightarrow> fat_geometry v RootDirSector)
      | ClusterToSector cluster \<Rightarrow>
          Option.bind (fat_geometry v FirstDataSector) (\<lambda>data.
          Some (bindR data (\<lambda>data_start.
                bindR (sub64 (unat cluster) 2) (\<lambda>n.
                bindR (mul64 n (case fat_type v of Fat16 bs \<Rightarrow> unat (sectors_per_cluster bs)
                                | Fat32 bs \<Rightarrow> unat (sectors_per_cluster bs))) (\<lambda>cluster_offset.
                add64 data_start cluster_offset))))))"

definition returns :: "'a run option \<Rightarrow> 'a run" where
  "returns r = (case r of None \<Rightarrow> Inl Diverges | Some x \<Rightarrow> x)"

definition root_dir_sector :: "FatVolume \<Rightarrow> nat run" where
  "root_dir_sector v = returns (fat_geometry v RootDirSector)"

definition first_data_sector :: "FatVolume \<Rightarrow> nat run" where
  "first_data_sector v = returns (fat_geometry v FirstDataSector)"

definition cluster_to_sector :: "FatVolume \<Rightarrow> u32 \<Rightarrow> nat run" where
  "cluster_to_sector v cluster = returns (fat_geometry v (ClusterToSector cluster))"

definition next_cluster :: "'s block_device \<Rightarrow> FatVolume \<Rightarrow> u32 \<Rightarrow> ('s, FsError, u32 option) kop" where
  "next_cluster dev v current_cluster =
     (let (reserved, bps, is_fat32) =
            (case fat_type v of
               Fat16 bs \<Rightarrow> (unat (reserved_sector_count bs), unat (bytes_per_sector bs), False)
             | Fat32 bs \<Rightarrow> (unat (reserved_sector_count bs), unat (bytes_per_sector bs), True));
          byte_offset = unat current_cluster * (if is_fat32 then 4 else 2) in
      bindK (liftR (add64 (fat_start_lba v) reserved)) (\<lambda>fat_start_sector.
      bindK (liftR (div_w byte_offset bps)) (\<lambda>sector_offset.
      bindK (liftR (mod_w byte_offset bps)) (\<lambda>byte_in_sector.
      bindK (liftR (add64 fat_start_sector sector_offset)) (\<lambda>target_sector.
      bindK (matchK (rd dev target_sector 512)) (\<lambda>r.
      case r of
        Inl _ \<Rightarrow> retK None
      | Inr buffer \<Rightarrow>
          if is_fat32
          then bindK (liftR (assertR (byte_in_sector + 3 < 512) IndexOutOfBounds)) (\<lambda>_.
               let nxt = get_u32 buffer byte_in_sector AND 0x0FFFFFFF in
               retK (if 0x0FFFFFF8 \<le> nxt then None else Some nxt))
          else bindK (liftR (assertR (byte_in_sector + 1 < 512) IndexOutOfBounds)) (\<lambda>_.
               let nxt = ucast (get_u16 buffer byte_in_sector) in
               retK (if 0xFFF8 \<le> nxt then None else Some nxt))))))))"

section \<open>Names\<close>

definition push_slot :: "u8 list \<Rightarrow> u8 list" where
  "push_slot bs = concat (map (\<lambda>b. if b \<noteq> 0x20 then push_char b else []) bs)"

definition short_name :: "u8 list \<Rightarrow> u8 list" where
  "short_name name =
     push_slot (bslice name 0 8)
     @ (if get_u8 name 8 \<noteq> 0x20 then 0x2E # push_slot (bslice name 8 3) else [])"

definition skipped_entry :: "DirectoryEntry \<Rightarrow> bool" where
  "skipped_entry e \<longleftrightarrow> get_u8 (entry_name e) 0 = 0xE5 \<or> attributes e = 0x0F \<or> attributes e AND 0x08 \<noteq> 0"

definition entry_is_dir :: "DirectoryEntry \<Rightarrow> bool" where
  "entry_is_dir e \<longleftrightarrow> attributes e AND 0x10 \<noteq> 0"

definition entry_cluster :: "DirectoryEntry \<Rightarrow> u32" where
  "entry_cluster e = push_bit 16 (ucast (first_cluster_high e)) OR ucast (first_cluster_low e)"

section \<open>Bring-up dumps\<close>

text \<open>The two values \<^verbatim>\<open>debug_info\<close> computes for its last lines.\<close>

definition fat_debug_info :: "FatVolume \<Rightarrow> (nat \<times> nat) run" where
  "fat_debug_info v = bindR (root_dir_sector v) (\<lambda>r. bindR (first_data_sector v) (\<lambda>d. Inr (r, d)))"

text \<open>The walk that counts the clusters of a file, capped at 20001.\<close>

function count_fragments :: "'s block_device \<Rightarrow> FatVolume \<Rightarrow> u32 \<Rightarrow> nat \<Rightarrow> ('s, FsError, nat) kop" where
  "count_fragments dev v current fragments s =
     bindK (next_cluster dev v current) (\<lambda>r t.
       case r of
         None \<Rightarrow> retK fragments t
       | Some nxt \<Rightarrow>
           if 20000 < fragments + 1 then retK (fragments + 1) t
           else count_fragments dev v nxt (fragments + 1) t) s"
  by pat_completeness auto
termination
  by (relation "measure (\<lambda>(dev, v, c, n, s). 20001 - n)") auto

declare count_fragments.simps [simp del]

datatype listing = ListedDir "u8 list" u32 | ListedFile "u8 list" u32 u32 nat

fun list_entries :: "'s block_device \<Rightarrow> FatVolume \<Rightarrow> DirectoryEntry list \<Rightarrow> ('s, FsError, listing list) kop" where
  "list_entries dev v [] = retK []"
| "list_entries dev v (e # es) =
     (if get_u8 (entry_name e) 0 = 0 then retK []
      else if skipped_entry e then list_entries dev v es
      else bindK (if entry_is_dir e then retK (ListedDir (short_name (entry_name e)) (entry_cluster e))
                  else bindK (count_fragments dev v (entry_cluster e) 1) (\<lambda>fragments.
                       retK (ListedFile (short_name (entry_name e)) (file_size e) (entry_cluster e) fragments)))
             (\<lambda>line. bindK (list_entries dev v es) (\<lambda>lines. retK (line # lines))))"

text \<open>The listing that is printed; \<open>None\<close> when the sector cannot be read.\<close>

definition list_root_dir :: "'s block_device \<Rightarrow> FatVolume \<Rightarrow> ('s, FsError, listing list option) kop" where
  "list_root_dir dev v =
     bindK (liftR (root_dir_sector v)) (\<lambda>root_sector.
     bindK (matchK (rd dev root_sector 512)) (\<lambda>r.
     case r of
       Inl _ \<Rightarrow> retK None
     | Inr buffer \<Rightarrow> bindK (list_entries dev v (sector_entries buffer)) (\<lambda>lines. retK (Some lines))))"

section \<open>Nodes\<close>

record FatNode =
  start_cluster :: u32
  is_directory :: bool
  fat_size :: nat

definition fat_new_root :: FatNode where
  "fat_new_root = \<lparr>start_cluster = 0, is_directory = True, fat_size = 0\<rparr>"

fun find_entry :: "u8 list \<Rightarrow> DirectoryEntry list \<Rightarrow> FatNode option" where
  "find_entry name [] = None"
| "find_entry name (e # es) =
     (if get_u8 (entry_name e) 0 = 0 then None
      else if skipped_entry e then find_entry name es
      else if eq_ignore_ascii_case (short_name (entry_name e)) name
      then Some \<lparr>start_cluster = entry_cluster e, is_directory = entry_is_dir e, fat_size = unat (file_size e)\<rparr>
      else find_entry name es)"

definition fat_lookup :: "'s block_device \<Rightarrow> FatVolume \<Rightarrow> FatNode \<Rightarrow> u8 list \<Rightarrow> ('s, FsError, FatNode option) kop" where
  "fat_lookup dev v node name =
     (if \<not> is_directory node then retK None
      else bindK (liftR (if start_cluster node = 0 then root_dir_sector v
                         else cluster_to_sector v (start_cluster node))) (\<lambda>target_sector.
           bindK (matchK (rd dev target_sector 512)) (\<lambda>r.
           case r of
             Inl _ \<Rightarrow> retK None
           | Inr buffer \<Rightarrow> retK (find_entry name (sector_entries buffer)))))"

fun skip_clusters :: "'s block_device \<Rightarrow> FatVolume \<Rightarrow> nat \<Rightarrow> u32 \<Rightarrow> ('s, FsError, u32 option) kop" where
  "skip_clusters dev v 0 current = retK (Some current)"
| "skip_clusters dev v (Suc n) current =
     bindK (next_cluster dev v current) (\<lambda>r.
     case r of Some nxt \<Rightarrow> skip_clusters dev v n nxt | None \<Rightarrow> retK None)"

lemma chunk_progress:
  "c < n \<Longrightarrow> liftR (assertR (off < b \<and> P) p) s = Inr (Inr r, t) \<Longrightarrow> x = min (b - off) (n - c) \<Longrightarrow> c' = c + x \<Longrightarrow>
   n - c' < n - (c :: nat)"
  by (auto simp: run_simps min_def)

function fat_read_loop ::
    "'s block_device \<Rightarrow> FatVolume \<Rightarrow> nat \<Rightarrow> nat \<Rightarrow> nat \<Rightarrow> nat \<Rightarrow> u32 \<Rightarrow> nat \<Rightarrow> u8 list
     \<Rightarrow> ('s, FsError, nat \<times> u8 list) kop" where
  "fat_read_loop dev v bps bytes_per_cluster bytes_to_read bytes_copied current_cluster offset_in_cluster buf s =
     (if bytes_copied < bytes_to_read
      then bindK (liftR (div_w offset_in_cluster bps)) (\<lambda>sector_in_cluster.
           bindK (liftR (mod_w offset_in_cluster bps)) (\<lambda>offset_in_sector.
           bindK (liftR (cluster_to_sector v current_cluster)) (\<lambda>base.
           bindK (liftR (add64 base sector_in_cluster)) (\<lambda>target_sector.
           bindK (matchK (rd dev target_sector 512)) (\<lambda>r t.
           case r of
             Inl _ \<Rightarrow> retK (bytes_copied, buf) t
           | Inr sector_buffer \<Rightarrow>
               let chunk_size = min (bps - offset_in_sector) (bytes_to_read - bytes_copied) in
               bindK (liftR (assertR (offset_in_sector < bps \<and> offset_in_sector + chunk_size \<le> 512) IndexOutOfBounds)) (\<lambda>_ t.
                 let buf' = bsplice buf bytes_copied (bslice sector_buffer offset_in_sector chunk_size);
                     copied = bytes_copied + chunk_size; offset' = offset_in_cluster + chunk_size in
                 if offset' = bytes_per_cluster
                 then bindK (next_cluster dev v current_cluster) (\<lambda>nxt t.
                        case nxt of
                          Some c \<Rightarrow> fat_read_loop dev v bps bytes_per_cluster bytes_to_read copied c 0 buf' t
                        | None \<Rightarrow> retK (copied, buf') t) t
                 else fat_read_loop dev v bps bytes_per_cluster bytes_to_read copied current_cluster offset' buf' t) t))))) s
      else Inr (Inr (bytes_copied, buf), s))"
  by pat_completeness auto
termination
proof (relation "measure (\<lambda>(dev, v, bps, bpc, n, c, cl, off, buf, s). n - c)")
qed (simp, unfold in_measure case_prod_conv, (erule (3) chunk_progress)+)

declare fat_read_loop.simps [simp del]

definition fat_read :: "'s block_device \<Rightarrow> FatVolume \<Rightarrow> FatNode \<Rightarrow> nat \<Rightarrow> u8 list \<Rightarrow> ('s, FsError, nat \<times> u8 list) kop" where
  "fat_read dev v node offset buf =
     (if is_directory node \<or> fat_size node \<le> offset \<or> start_cluster node = 0 \<or> buf = [] then retK (0, buf)
      else
        let bytes_to_read = min (length buf) (fat_size node - offset);
            (bps, spc) = (case fat_type v of
               Fat16 bs \<Rightarrow> (unat (bytes_per_sector bs), unat (sectors_per_cluster bs))
             | Fat32 bs \<Rightarrow> (unat (bytes_per_sector bs), unat (sectors_per_cluster bs)));
            bytes_per_cluster = bps * spc in
        bindK (liftR (div_w offset bytes_per_cluster)) (\<lambda>clusters_to_skip.
        bindK (liftR (mod_w offset bytes_per_cluster)) (\<lambda>offset_in_cluster.
        bindK (skip_clusters dev v clusters_to_skip (start_cluster node)) (\<lambda>c.
        case c of
          None \<Rightarrow> retK (0, buf)
        | Some current_cluster \<Rightarrow>
            fat_read_loop dev v bps bytes_per_cluster bytes_to_read 0 current_cluster offset_in_cluster buf))))"

section \<open>Geometry\<close>

text \<open>On FAT32 no geometry routine has a result.\<close>

lemma fat_geometry_fat16:
  assumes "fat_geometry v q = Some r"
  shows "\<exists>bs. fat_type v = Fat16 bs"
  by (rule fat_geometry.raw_induct [OF _ assms])
     (force split: geometry.splits FatType.splits sum.splits simp: bind_eq_Some_conv)

lemma fat32_diverges:
  assumes "fat_type v = Fat32 bs"
  shows "root_dir_sector v = Inl Diverges" "first_data_sector v = Inl Diverges" "cluster_to_sector v c = Inl Diverges"
  using assms fat_geometry_fat16 [of v]
  by (auto simp: root_dir_sector_def first_data_sector_def cluster_to_sector_def returns_def split: option.splits)

definition fat16_root :: "nat \<Rightarrow> Fat16BootSector \<Rightarrow> nat" where
  "fat16_root lba bs = lba + unat (reserved_sector_count bs) + unat (table_count bs) * unat (table_size_16 bs)"

definition fat16_data :: "nat \<Rightarrow> Fat16BootSector \<Rightarrow> nat" where
  "fat16_data lba bs =
     fat16_root lba bs + (unat (root_entry_count bs) * 32 + (unat (bytes_per_sector bs) - 1)) div unat (bytes_per_sector bs)"

definition cluster_lba :: "nat \<Rightarrow> Fat16BootSector \<Rightarrow> u32 \<Rightarrow> nat" where
  "cluster_lba lba bs c = fat16_data lba bs + (unat c - 2) * unat (sectors_per_cluster bs)"

lemma root_dir_sector_fat16:
  assumes "fat_type v = Fat16 bs" and "fat16_root (fat_start_lba v) bs < 2 ^ 64"
  shows "root_dir_sector v = Inr (fat16_root (fat_start_lba v) bs)"
proof -
  have "unat (table_count bs) * unat (table_size_16 bs) < 2 ^ 64"
    using unat_less_pow [of "table_count bs"] unat_less_pow [of "table_size_16 bs"]
    by (intro mul_fits [where i = 8 and j = 16]) simp_all
  then show ?thesis
    using assms by (simp add: root_dir_sector_def fat_geometry.simps returns_def fat16_root_def add_w_def mul_w_def)
qed

lemma first_data_sector_fat16:
  assumes t: "fat_type v = Fat16 bs" and "fat16_data (fat_start_lba v) bs < 2 ^ 64" and b: "bytes_per_sector bs \<noteq> 0"
  shows "first_data_sector v = Inr (fat16_data (fat_start_lba v) bs)"
proof -
  have u: "0 < unat (bytes_per_sector bs)" using b by (simp add: unat_gt_0)
  have r: "fat16_root (fat_start_lba v) bs < 2 ^ 64" using assms(2) unfolding fat16_data_def by linarith
  have "fat_geometry v RootDirSector = Some (Inr (fat16_root (fat_start_lba v) bs))"
    using root_dir_sector_fat16 [OF t r] by (auto simp: root_dir_sector_def returns_def split: option.splits)
  moreover have "unat (root_entry_count bs) * 32 < 2 ^ 64"
    "unat (root_entry_count bs) * 32 + (unat (bytes_per_sector bs) - 1) < 2 ^ 64"
    using unat_less_pow [of "root_entry_count bs"] unat_less_pow [of "bytes_per_sector bs"] by simp_all
  ultimately show ?thesis
    using assms u
    by (simp add: first_data_sector_def fat_geometry.simps [of v FirstDataSector] returns_def fat16_data_def
        add_w_def mul_w_def sub_w_def div_w_def)
qed

lemma cluster_to_sector_fat16:
  assumes t: "fat_type v = Fat16 bs" and l: "cluster_lba (fat_start_lba v) bs c < 2 ^ 64"
    and b: "bytes_per_sector bs \<noteq> 0" and c: "2 \<le> unat c"
  shows "cluster_to_sector v c = Inr (cluster_lba (fat_start_lba v) bs c)"
proof -
  have d: "fat16_data (fat_start_lba v) bs < 2 ^ 64" using l unfolding cluster_lba_def by linarith
  have "fat_geometry v FirstDataSector = Some (Inr (fat16_data (fat_start_lba v) bs))"
    using first_data_sector_fat16 [OF t d b] by (auto simp: first_data_sector_def returns_def split: option.splits)
  moreover have "(unat c - 2) * unat (sectors_per_cluster bs) < 2 ^ 64"
    using l unfolding cluster_lba_def by linarith
  ultimately show ?thesis
    using assms
    by (simp add: cluster_to_sector_def fat_geometry.simps [of v "ClusterToSector c"] returns_def cluster_lba_def
        add_w_def mul_w_def sub_w_def)
qed

section \<open>Directory lookup\<close>

text \<open>The entries a sector offers: up to the end marker, without deleted, long name and label entries.\<close>

definition visible_entries :: "DirectoryEntry list \<Rightarrow> DirectoryEntry list" where
  "visible_entries es =
     filter (\<lambda>e. \<not> skipped_entry e) (takeWhile (\<lambda>e. get_u8 (entry_name e) 0 \<noteq> 0) es)"

definition entry_node :: "DirectoryEntry \<Rightarrow> FatNode" where
  "entry_node e =
     \<lparr>start_cluster = entry_cluster e, is_directory = entry_is_dir e, fat_size = unat (file_size e)\<rparr>"

lemma find_entry_visible:
  "find_entry name es =
     map_option entry_node (find (\<lambda>e. eq_ignore_ascii_case (short_name (entry_name e)) name) (visible_entries es))"
  by (induction es) (auto simp: visible_entries_def entry_node_def)

section \<open>Cluster chains\<close>

definition fat16_next :: "(nat \<Rightarrow> u8 list) \<Rightarrow> nat \<Rightarrow> Fat16BootSector \<Rightarrow> u32 \<Rightarrow> u32 option" where
  "fat16_next disk lba bs c =
     (let w = get_u16 (disk (lba + unat (reserved_sector_count bs) + unat c * 2 div 512)) (unat c * 2 mod 512) in
      if 0xFFF8 \<le> w then None else Some (ucast w))"

lemma end_mark_wide: "(0xFFF8 :: u32) \<le> ucast w \<longleftrightarrow> (0xFFF8 :: u16) \<le> w"
proof -
  have "unat w < 2 ^ 32" using unat_less_pow [of w] by simp
  then have "unat (ucast w :: u32) = unat w"
    by (simp add: unsigned_ucast_eq take_bit_nat_eq_self)
  then show ?thesis by (simp add: word_le_nat_alt)
qed

text \<open>A chain: each cluster's table entry names the next one, and the last one ends it.\<close>

fun chain_ok :: "('a \<Rightarrow> 'a option) \<Rightarrow> 'a list \<Rightarrow> bool" where
  "chain_ok nx [] \<longleftrightarrow> False"
| "chain_ok nx [c] \<longleftrightarrow> nx c = None"
| "chain_ok nx (c # d # cs) \<longleftrightarrow> nx c = Some d \<and> chain_ok nx (d # cs)"

lemma chain_ok_next:
  "chain_ok nx cs \<Longrightarrow> i < length cs \<Longrightarrow> nx (cs ! i) = (if Suc i < length cs then Some (cs ! Suc i) else None)"
proof (induction nx cs arbitrary: i rule: chain_ok.induct)
  case (3 nx c d cs)
  then show ?case by (cases i) auto
qed auto

definition cluster_bytes :: "(nat \<Rightarrow> u8 list) \<Rightarrow> nat \<Rightarrow> Fat16BootSector \<Rightarrow> u32 \<Rightarrow> u8 list" where
  "cluster_bytes disk lba bs c =
     concat (map disk [cluster_lba lba bs c ..< cluster_lba lba bs c + unat (sectors_per_cluster bs)])"

text \<open>A chain that lies on the disk, with sectors of 512 bytes.\<close>

definition chain_on_disk :: "nat \<Rightarrow> nat \<Rightarrow> Fat16BootSector \<Rightarrow> u32 list \<Rightarrow> bool" where
  "chain_on_disk limit lba bs cs \<longleftrightarrow>
     limit \<le> 2 ^ 64 \<and> bytes_per_sector bs = 512 \<and> sectors_per_cluster bs \<noteq> 0
     \<and> (\<forall>c \<in> set cs. 2 \<le> unat c \<and> cluster_lba lba bs c + unat (sectors_per_cluster bs) \<le> limit
          \<and> lba + unat (reserved_sector_count bs) + unat c * 2 div 512 < limit)"

context sector_store
begin

lemma next_cluster_fat16:
  assumes s: "ok s" and t: "fat_type v = Fat16 bs" and d: "chain_on_disk limit (fat_start_lba v) bs cs" and c: "c \<in> set cs"
  shows "\<exists>s'. next_cluster dev v c s = Inr (Inr (fat16_next (sectors s) (fat_start_lba v) bs c), s')
    \<and> ok s' \<and> sectors s' = sectors s"
proof -
  define x where "x = fat_start_lba v + unat (reserved_sector_count bs) + unat c * 2 div 512"
  have x: "x < limit" "limit \<le> 2 ^ 64" "unat (bytes_per_sector bs) = 512"
    using d c by (auto simp: x_def chain_on_disk_def)
  obtain s' where s': "rd dev x 512 s = Inr (Inr (sectors s x), s')" "ok s'" "sectors s' = sectors s"
    using read_law [OF s x(1)] by blast
  have a: "add64 (fat_start_lba v) (unat (reserved_sector_count bs)) = Inr (fat_start_lba v + unat (reserved_sector_count bs))"
    "add64 (fat_start_lba v + unat (reserved_sector_count bs)) (unat c * 2 div 512) = Inr x"
    using x(1,2) by (simp_all add: add_w_def x_def)
  have "unat c * 2 mod 512 = unat c mod 256 * 2" using mod_mult_mult2 [of "unat c" 2 256] by simp
  moreover have "unat c mod 256 < 256" by simp
  ultimately have e: "Suc (unat c * 2 mod 512) < 512" by linarith
  have n: "fat16_next (sectors s) (fat_start_lba v) bs c =
      (let w = get_u16 (sectors s x) (unat c * 2 mod 512) in if 0xFFF8 \<le> w then None else Some (ucast w))"
    by (simp only: fat16_next_def x_def)
  have m: "bindK (matchK (rd dev x 512)) f s = f (Inr (sectors s x)) s'"
    for f :: "_ \<Rightarrow> ('s, FsError, u32 option) kop"
    using s'(1) by (simp add: bindK_def matchK_def)
  show ?thesis
    unfolding n using s'(2,3) a e t x(3)
    by (intro exI [of _ s'])
       (simp add: next_cluster_def div_w_def mod_w_def m Let_def end_mark_wide)
qed

lemma skip_clusters_fat16:
  assumes t: "fat_type v = Fat16 bs" and d: "chain_on_disk limit (fat_start_lba v) bs cs"
    and ch: "chain_ok (fat16_next D (fat_start_lba v) bs) cs"
  shows "ok s \<Longrightarrow> sectors s = D \<Longrightarrow> i + k < length cs \<Longrightarrow>
    \<exists>s'. skip_clusters dev v k (cs ! i) s = Inr (Inr (Some (cs ! (i + k))), s') \<and> ok s' \<and> sectors s' = D"
proof (induction k arbitrary: i s)
  case 0
  then show ?case by simp
next
  case (Suc k)
  have i: "cs ! i \<in> set cs" using Suc.prems by simp
  obtain s1 where s1: "next_cluster dev v (cs ! i) s = Inr (Inr (Some (cs ! Suc i)), s1)" "ok s1" "sectors s1 = D"
    using next_cluster_fat16 [OF Suc.prems(1) t d i] chain_ok_next [OF ch, of i] Suc.prems(2,3) by auto
  then show ?case
    using Suc.IH [OF s1(2,3), of "Suc i"] Suc.prems(3) by (simp add: bindK_ok)
qed

lemma chain_slice:
  assumes d: "chain_on_disk limit lba bs cs" and s: "ok s" "sectors s = D" and i: "i < length cs"
  defines "L \<equiv> 512 * unat (sectors_per_cluster bs)"
  assumes off: "off < L" and c: "off mod 512 + c \<le> 512"
  shows "bslice (D (cluster_lba lba bs (cs ! i) + off div 512)) (off mod 512) c
    = bslice (concat (map (cluster_bytes D lba bs) cs)) (i * L + off) c"
proof -
  let ?C = "concat (map (cluster_bytes D lba bs) cs)"
  have sec: "length (D y) = 512" if "y < limit" for y using sector_length [OF s(1) that] s(2) by simp
  have cl: "length (cluster_bytes D lba bs e) = L" if "e \<in> set cs" for e
    unfolding cluster_bytes_def L_def using d that sec
    by (subst length_concat_uniform [where n = 512]) (auto simp: chain_on_disk_def)
  have lC: "length ?C = L * length cs"
    using cl by (subst length_concat_uniform [where n = L]) auto
  have oc: "off + c \<le> L"
  proof -
    have "off div 512 < unat (sectors_per_cluster bs)" using off by (simp add: L_def less_mult_imp_div_less mult.commute)
    then have "512 * Suc (off div 512) \<le> L" unfolding L_def by (intro mult_le_mono2) simp
    then have "512 * (off div 512) + 512 \<le> L" by simp
    then show ?thesis using c mult_div_mod_eq [of 512 off] by linarith
  qed
  have iL: "i * L + L \<le> L * length cs"
    using i mult_le_mono2 [of "Suc i" "length cs" L] by (simp add: mult.commute)
  have mem: "cs ! i \<in> set cs" using i by simp
  have lim: "cluster_lba lba bs (cs ! i) + unat (sectors_per_cluster bs) \<le> limit"
    using d mem by (auto simp: chain_on_disk_def)
  have sl: "length (D (cluster_lba lba bs (cs ! i) + off div 512)) = 512"
    using off lim by (intro sec) (simp add: L_def div_less_iff_less_mult)
  show ?thesis
  proof (rule nth_equalityI)
    show len: "length (bslice (D (cluster_lba lba bs (cs ! i) + off div 512)) (off mod 512) c)
        = length (bslice ?C (i * L + off) c)"
      using sl c lC oc iL by simp
    fix r assume "r < length (bslice (D (cluster_lba lba bs (cs ! i) + off div 512)) (off mod 512) c)"
    then have r: "r < c" using sl c by simp
    have q: "(off + r) div 512 = off div 512" "(off + r) mod 512 = off mod 512 + r"
    proof -
      have e: "(512 * a + b) div 512 = a" "(512 * a + b) mod 512 = b" if "b < 512" for a b :: nat using that by simp_all
      have "off + r = 512 * (off div 512) + (off mod 512 + r)" by simp
      then show "(off + r) div 512 = off div 512" "(off + r) mod 512 = off mod 512 + r"
        using e [of "off mod 512 + r" "off div 512"] c r by (simp_all only:)
    qed
    have p: "(i * L + off + r) div L = i" "(i * L + off + r) mod L = off + r"
      using r oc by (auto simp: add.assoc)
    have "?C ! (i * L + off + r) = cluster_bytes D lba bs (cs ! i) ! (off + r)"
      using cl r oc iL i by (subst nth_concat_uniform [where n = L]) (auto simp: p)
    also have "\<dots> = D (cluster_lba lba bs (cs ! i) + off div 512) ! (off mod 512 + r)"
      unfolding cluster_bytes_def using sec lim r oc off
      by (subst nth_concat_uniform [where n = 512]) (auto simp: q L_def div_less_iff_less_mult)
    finally show "bslice (D (cluster_lba lba bs (cs ! i) + off div 512)) (off mod 512) c ! r
        = bslice ?C (i * L + off) c ! r"
      using r c sl lC oc iL by (simp add: nth_bslice add.assoc)
  qed
qed

text \<open>The copy loop, from a position inside the \<open>i\<close>-th cluster of the chain.\<close>

lemma fat_read_loop_fat16:
  assumes t: "fat_type v = Fat16 bs" and d: "chain_on_disk limit (fat_start_lba v) bs cs"
    and ch: "chain_ok (fat16_next D (fat_start_lba v) bs) cs"
  defines "L \<equiv> 512 * unat (sectors_per_cluster bs)"
    and "C \<equiv> concat (map (cluster_bytes D (fat_start_lba v) bs) cs)"
  assumes "ok s" and "sectors s = D" and "i < length cs" and "off < L" and "k \<le> n" and "n \<le> length buf"
    and "i * L + off + (n - k) \<le> L * length cs"
  shows "\<exists>s'. fat_read_loop dev v 512 L n k (cs ! i) off buf s
      = Inr (Inr (n, bsplice buf k (bslice C (i * L + off) (n - k))), s') \<and> ok s' \<and> sectors s' = D"
  using assms(6-)
proof (induction "n - k" arbitrary: i off k buf s rule: less_induct)
  case less
  show ?case
  proof (cases "k < n")
    case False
    then have "k = n" using less.prems by simp
    then show ?thesis using less.prems
      by (auto simp: fat_read_loop.simps [of dev v 512 L n n "cs ! i" off buf s] bslice_def bsplice_def)
  next
    case True
    define j o' c where "j = off div 512" and "o' = off mod 512" and "c = min (512 - o') (n - k)"
    define x where "x = cluster_lba (fat_start_lba v) bs (cs ! i) + j"
    have mem: "cs ! i \<in> set cs" using less.prems by simp
    have c: "o' + c \<le> 512" "k + c \<le> n" "0 < c" "o' < 512" using True by (auto simp: c_def o'_def)
    have j: "j < unat (sectors_per_cluster bs)"
      using less.prems(4) by (simp add: j_def L_def less_mult_imp_div_less mult.commute)
    have f: "2 \<le> unat (cs ! i)" "cluster_lba (fat_start_lba v) bs (cs ! i) + unat (sectors_per_cluster bs) \<le> limit"
        "limit \<le> 2 ^ 64" "bytes_per_sector bs = 512"
      using d mem by (auto simp: chain_on_disk_def)
    have x: "x < limit" "x < 2 ^ 64" using f j by (auto simp: x_def)
    have cl: "cluster_to_sector v (cs ! i) = Inr (cluster_lba (fat_start_lba v) bs (cs ! i))"
      using f j by (intro cluster_to_sector_fat16 [OF t]) auto
    obtain s1 where s1: "rd dev x 512 s = Inr (Inr (D x), s1)" "ok s1" "sectors s1 = D"
      using read_law [OF less.prems(1) x(1)] less.prems(2) by auto
    have bytes: "bslice (D x) o' c = bslice C (i * L + off) c"
      using chain_slice [OF d less.prems(1,2,3), of off c] less.prems(4) c
      unfolding C_def L_def o'_def x_def j_def by simp
    define X where "X = bslice (D x) o' c"
    have lX: "length X = c"
      unfolding X_def using sector_length [OF less.prems(1) x(1)] less.prems(2) c(1) by simp
    have m: "bindK (matchK (rd dev x 512)) f s = f (Inr (D x)) s1"
      for f :: "_ \<Rightarrow> ('s, FsError, nat \<times> u8 list) kop"
      using s1(1) by (simp add: bindK_def matchK_def)
    have step: "fat_read_loop dev v 512 L n k (cs ! i) off buf s
      = (if off + c = L
         then bindK (next_cluster dev v (cs ! i)) (\<lambda>nxt t.
                case nxt of
                  Some c' \<Rightarrow> fat_read_loop dev v 512 L n (k + c) c' 0 (bsplice buf k X) t
                | None \<Rightarrow> retK (k + c, bsplice buf k X) t) s1
         else fat_read_loop dev v 512 L n (k + c) (cs ! i) (off + c) (bsplice buf k X) s1)"
      unfolding X_def using True cl c x(2)
      by (subst fat_read_loop.simps)
         (simp add: div_w_def mod_w_def m add_w_def j_def [symmetric] o'_def [symmetric] x_def [symmetric]
           c_def [symmetric] Let_def)
    have fit: "k + length X + (n - (k + c)) \<le> length buf" using lX c(2) less.prems(6) by simp
    have out: "bsplice (bsplice buf k X) (k + c) (bslice C (i * L + off + c) (n - (k + c)))
        = bsplice buf k (bslice C (i * L + off) (n - k))"
    proof -
      let ?Y = "bslice C (i * L + off + c) (n - (k + c))"
      have "length ?Y \<le> n - (k + c)" by (simp add: bslice_def)
      then have "bsplice (bsplice buf k X) (k + length X) ?Y = bsplice buf k (X @ ?Y)"
        using fit by (intro bsplice_bsplice) linarith
      moreover have nk: "n - k = c + (n - (k + c))" using c(2) by simp
      have "bslice C (i * L + off) (n - k) = X @ ?Y"
        unfolding X_def bytes by (subst nk) (rule bslice_add)
      ultimately show ?thesis using lX by simp
    qed
    have lb: "length (bsplice buf k X) = length buf" using fit by simp
    have oL: "off + c \<le> L"
    proof -
      have "512 * Suc j \<le> L" using j unfolding L_def by (intro mult_le_mono2) simp
      then have "512 * j + 512 \<le> L" by simp
      then show ?thesis using c(1) mult_div_mod_eq [of 512 off] unfolding j_def o'_def by linarith
    qed
    show ?thesis
    proof (cases "off + c = L")
      case False
      then have "off + c < L" "n \<le> length (bsplice buf k X)" "n - (k + c) < n - k"
          "i * L + (off + c) + (n - (k + c)) \<le> L * length cs"
        using oL lb c True less.prems(6,7) by simp_all
      from less.hyps [OF this(3) s1(2,3) less.prems(3) this(1) c(2) this(2) this(4)]
      show ?thesis unfolding step if_not_P [OF False] add.assoc [symmetric] out .
    next
      case eq: True
      obtain s2 where s2: "next_cluster dev v (cs ! i) s1
          = Inr (Inr (if Suc i < length cs then Some (cs ! Suc i) else None), s2)" "ok s2" "sectors s2 = D"
        using next_cluster_fat16 [OF s1(2) t d mem] chain_ok_next [OF ch less.prems(3)] s1(3) by auto
      have p: "i * L + off + c = Suc i * L" using eq by simp
      show ?thesis
      proof (cases "Suc i < length cs")
        case True
        have "Suc i * L + 0 + (n - (k + c)) \<le> L * length cs" "0 < L" "n \<le> length (bsplice buf k X)"
            "n - (k + c) < n - k"
          using less.prems(4,6,7) c lb p \<open>k < n\<close> by simp_all
        from less.hyps [OF this(4) s2(2,3) True this(2) c(2) this(3) this(1)]
        have "\<exists>s'. fat_read_loop dev v 512 L n (k + c) (cs ! Suc i) 0 (bsplice buf k X) s2
            = Inr (Inr (n, bsplice buf k (bslice C (i * L + off) (n - k))), s') \<and> ok s' \<and> sectors s' = D"
          unfolding add_0_right p [symmetric] out .
        then show ?thesis unfolding step using eq True s2(1) by (simp add: bindK_def)
      next
        case False
        then have "Suc i = length cs" using less.prems(3) by simp
        then have "n = k + c" using less.prems(7) c(2) p by (simp add: mult.commute)
        then have "bslice C (i * L + off) (n - k) = X" "n = k + c" using bytes by (simp_all add: X_def)
        then show ?thesis
          unfolding step using eq False s2 by (simp add: bindK_def)
      qed
    qed
  qed
qed

text \<open>A whole read of a file whose chain lies on the disk.\<close>

lemma fat_read_fat16:
  fixes offset :: nat and buf :: "u8 list"
  assumes s: "ok s" and t: "fat_type v = Fat16 bs"
    and d: "chain_on_disk limit (fat_start_lba v) bs (c # cs)"
    and ch: "chain_ok (fat16_next (sectors s) (fat_start_lba v) bs) (c # cs)"
    and node: "\<not> is_directory node" "start_cluster node = c"
    and sz: "fat_size node \<le> 512 * unat (sectors_per_cluster bs) * length (c # cs)"
  defines "n \<equiv> min (length buf) (fat_size node - offset)"
  shows "\<exists>s'. fat_read dev v node offset buf s
      = Inr (Inr (n, bsplice buf 0 (bslice (concat (map (cluster_bytes (sectors s) (fat_start_lba v) bs) (c # cs))) offset n)), s')
    \<and> ok s' \<and> sectors s' = sectors s"
proof (cases "fat_size node \<le> offset \<or> buf = []")
  case True
  then have "n = 0" by (auto simp: n_def)
  then show ?thesis using True s by (auto simp: fat_read_def bslice_def bsplice_def)
next
  case False
  define L where "L = 512 * unat (sectors_per_cluster bs)"
  define q r where "q = offset div L" and "r = offset mod L"
  have spc: "0 < unat (sectors_per_cluster bs)" using d by (simp add: chain_on_disk_def unat_gt_0)
  then have L: "0 < L" by (simp add: L_def)
  have sz': "fat_size node \<le> L * length (c # cs)" using sz unfolding L_def .
  have b: "unat (bytes_per_sector bs) = 512" using d by (auto simp: chain_on_disk_def)
  have c0: "c \<noteq> 0" using d by (auto simp: chain_on_disk_def)
  have qr: "offset = q * L + r" "r < L" using L by (simp_all add: q_def r_def)
  have off: "offset < L * length (c # cs)" using False sz' by linarith
  have ql: "0 + q < length (c # cs)"
    using off L unfolding q_def by (simp only: add_0_left less_mult_imp_div_less mult.commute)
  obtain s1 where s1: "skip_clusters dev v q c s = Inr (Inr (Some ((c # cs) ! q)), s1)" "ok s1" "sectors s1 = sectors s"
    using skip_clusters_fat16 [OF t d ch s refl ql] by auto
  have fit: "q * L + r + (n - 0) \<le> L * length (c # cs)" "n \<le> length buf"
    using sz' False unfolding qr(1) [symmetric] n_def by linarith+
  obtain s2 where s2: "fat_read_loop dev v 512 L n 0 ((c # cs) ! q) r buf s1
      = Inr (Inr (n, bsplice buf 0 (bslice (concat (map (cluster_bytes (sectors s) (fat_start_lba v) bs) (c # cs))) (q * L + r) (n - 0))), s2)"
      "ok s2" "sectors s2 = sectors s"
    using fat_read_loop_fat16 [OF t d ch s1(2,3) _ qr(2) [unfolded L_def] le0 fit(2) fit(1) [unfolded L_def]] ql
    unfolding L_def by auto
  have "fat_read dev v node offset buf s = fat_read_loop dev v 512 L n 0 ((c # cs) ! q) r buf s1"
    using False node c0 t b spc s1(1)
    by (simp add: fat_read_def L_def [symmetric] n_def [symmetric] q_def [symmetric] r_def [symmetric] div_w_def mod_w_def
        bindK_ok [of "skip_clusters dev v q c" s])
  then show ?thesis using s2 qr(1) by auto
qed

lemma fat_lookup_fat16:
  assumes s: "ok s" and t: "fat_type v = Fat16 bs" and node: "is_directory node"
    and x: "x = (if start_cluster node = 0 then fat16_root (fat_start_lba v) bs
                 else cluster_lba (fat_start_lba v) bs (start_cluster node))"
    and l: "x < limit" "limit \<le> 2 ^ 64" and c: "start_cluster node = 0 \<or> 2 \<le> unat (start_cluster node)"
    and b: "bytes_per_sector bs \<noteq> 0"
  shows "\<exists>s'. fat_lookup dev v node name s
      = Inr (Inr (map_option entry_node (find (\<lambda>e. eq_ignore_ascii_case (short_name (entry_name e)) name)
          (visible_entries (sector_entries (sectors s x))))), s') \<and> ok s' \<and> sectors s' = sectors s"
proof -
  obtain s' where s': "rd dev x 512 s = Inr (Inr (sectors s x), s')" "ok s'" "sectors s' = sectors s"
    using read_law [OF s l(1)] by blast
  have "x < 2 ^ 64" using l by linarith
  then have "(if start_cluster node = 0 then root_dir_sector v else cluster_to_sector v (start_cluster node)) = Inr x"
    using c x root_dir_sector_fat16 [OF t] cluster_to_sector_fat16 [OF t _ b] by (cases "start_cluster node = 0") auto
  then show ?thesis
    using s' node by (intro exI [of _ s']) (simp add: fat_lookup_def bindK_def matchK_def find_entry_visible)
qed

end

section \<open>Properties\<close>

text \<open>
  C14: a read of a file on a FAT16 volume with 512-byte sectors copies exactly the bytes its
  cluster chain holds from the offset on, as many as fit in the buffer and remain in the
  file, across cluster boundaries; the rest of the buffer and the disk are unchanged. The
  chain must follow the allocation table to its end mark and lie on the disk.
\<close>

theorem fat16_read_returns_file_bytes:
  fixes offset :: nat and buf :: "u8 list"
  assumes "sector_store dev ok sectors limit" and "ok s" and "fat_type v = Fat16 bs"
    and "chain_on_disk limit (fat_start_lba v) bs (c # cs)"
    and "chain_ok (fat16_next (sectors s) (fat_start_lba v) bs) (c # cs)"
    and "\<not> is_directory node" and "start_cluster node = c"
    and "fat_size node \<le> 512 * unat (sectors_per_cluster bs) * length (c # cs)"
    and "n = min (length buf) (fat_size node - offset)"
  shows "\<exists>s'. fat_read dev v node offset buf s
      = Inr (Inr (n, bsplice buf 0 (bslice (concat (map (cluster_bytes (sectors s) (fat_start_lba v) bs) (c # cs))) offset n)), s')
    \<and> ok s' \<and> sectors s' = sectors s"
  using sector_store.fat_read_fat16 [OF assms(1-8)] unfolding assms(9) .

definition demo_bpb :: Fat16BootSector where
  "demo_bpb = (decode_fat16 (replicate 512 0))\<lparr>bytes_per_sector := 512, sectors_per_cluster := 1,
     reserved_sector_count := 1, table_count := 1, table_size_16 := 1, root_entry_count := 16\<rparr>"

definition demo_fat :: FatVolume where
  "demo_fat = \<lparr>fat_start_lba = 0, fat_type = Fat16 demo_bpb\<rparr>"

definition demo_fat_image :: "nat \<Rightarrow> u8 list" where
  "demo_fat_image lba =
     (if lba = 1 then [0, 0, 0, 0, 3, 0, 0xFF, 0xFF] @ replicate 504 0
      else if lba = 3 then replicate 512 7 else if lba = 4 then replicate 512 9 else replicate 512 0)"

lemma demo_fat_simps:
  "unat (sectors_per_cluster demo_bpb) = 1" "unat (bytes_per_sector demo_bpb) = 512"
  "bytes_per_sector demo_bpb = 512" "sectors_per_cluster demo_bpb = 1" "unat (reserved_sector_count demo_bpb) = 1"
  "fat16_root 0 demo_bpb = 2" "fat16_data 0 demo_bpb = 3" "cluster_lba 0 demo_bpb c = 3 + (unat c - 2)"
  by (simp_all add: demo_bpb_def fat16_root_def fat16_data_def cluster_lba_def)

theorem fat16_read_returns_file_bytes_witness:
  "\<exists>s'. fat_read (image_device 64) demo_fat \<lparr>start_cluster = 2, is_directory = False, fat_size = 600\<rparr> 510 (replicate 5 0) demo_fat_image
     = Inr (Inr (5, [7, 7, 9, 9, 9]), s')"
proof -
  let ?n = "\<lparr>start_cluster = 2, is_directory = False, fat_size = 600\<rparr>"
  have i: "image_ok 64 demo_fat_image" by (simp add: image_ok_def demo_fat_image_def)
  have t: "fat_type demo_fat = Fat16 demo_bpb" by (simp add: demo_fat_def)
  have d: "chain_on_disk 64 (fat_start_lba demo_fat) demo_bpb [2, 3]"
    by (simp add: chain_on_disk_def demo_fat_def demo_fat_simps)
  have ch: "chain_ok (fat16_next demo_fat_image (fat_start_lba demo_fat) demo_bpb) [2, 3]"
    by (simp add: fat16_next_def demo_fat_def demo_fat_simps demo_fat_image_def get_u16_def bslice_def)
  have b: "bsplice (replicate 5 0) 0 (bslice (concat (map (cluster_bytes demo_fat_image (fat_start_lba demo_fat) demo_bpb) [2, 3])) 510 5) = [7, 7, 9, 9, 9]"
  proof -
    have r: "replicate 2 x = [x, x]" "replicate 3 x = [x, x, x]" for x :: u8 by (simp_all add: numeral_eq_Suc)
    show ?thesis
      by (simp add: cluster_bytes_def demo_fat_def demo_fat_simps demo_fat_image_def bslice_def bsplice_def r)
  qed
  from fat16_read_returns_file_bytes [where ok = "image_ok 64" and sectors = "\<lambda>s. s" and s = demo_fat_image
      and node = ?n and offset = 510 and buf = "replicate 5 0" and n = 5, OF image.sector_store_axioms i t d]
  show ?thesis using ch b by (simp add: demo_fat_simps)
qed


text \<open>A root directory with a label and a deleted entry before the file \<^verbatim>\<open>A.B\<close>.\<close>

definition demo_slot :: "u8 \<Rightarrow> u8 \<Rightarrow> u8 \<Rightarrow> u8 list" where
  "demo_slot first attr cluster =
     [first, 0x20, 0x20, 0x20, 0x20, 0x20, 0x20, 0x20, 0x42, 0x20, 0x20, attr, 0, 0, 0, 0,
      0, 0, 0, 0, 0, 0, 0, 0, 0, 0, cluster, 0, 88, 2, 0, 0]"

definition demo_root :: "u8 list" where
  "demo_root = demo_slot 0x41 0x08 0 @ demo_slot 0xE5 0 0 @ demo_slot 0x41 0 2 @ replicate 416 0"

lemma demo_root_lookup:
  "find_entry [0x61, 0x2E, 0x62] (sector_entries demo_root)
     = Some \<lparr>start_cluster = 2, is_directory = False, fat_size = 600\<rparr>"
proof -
  have l: "length (demo_slot a b c) = 32" for a b c by (simp add: demo_slot_def)
  have p: "bslice demo_root 0 32 = demo_slot 0x41 0x08 0" "bslice demo_root 32 32 = demo_slot 0xE5 0 0"
    "bslice demo_root 64 32 = demo_slot 0x41 0 2"
    by (simp_all add: demo_root_def l bslice_append_skip bslice_append_here)
  define rest where "rest = map (\<lambda>i. decode_directory_entry (bslice demo_root (32 * i) 32)) [3 ..< 16]"
  have u: "[0 ..< 16] = 0 # 1 # 2 # [3 ..< 16 :: nat]"
    using upt_conv_Cons [of 0 16] upt_conv_Cons [of 1 16] upt_conv_Cons [of 2 16] by (simp del: upt_rec_numeral flip: numeral_2_eq_2)
  have r: "sector_entries demo_root = decode_directory_entry (demo_slot 0x41 0x08 0)
      # decode_directory_entry (demo_slot 0xE5 0 0) # decode_directory_entry (demo_slot 0x41 0 2) # rest"
    unfolding sector_entries_def u rest_def by (simp add: p del: upt_rec_numeral)
  have e: "entry_name (decode_directory_entry (demo_slot a b c)) = [a, 0x20, 0x20, 0x20, 0x20, 0x20, 0x20, 0x20, 0x42, 0x20, 0x20]"
    "attributes (decode_directory_entry (demo_slot a b c)) = b"
    "first_cluster_high (decode_directory_entry (demo_slot a b c)) = 0"
    "file_size (decode_directory_entry (demo_slot a b c)) = 600" for a b c
    by (simp_all add: decode_directory_entry_def demo_slot_def bslice_def get_u16_def get_u32_def get_u8_def)
  have f: "first_cluster_low (decode_directory_entry (demo_slot a b 2)) = 2" for a b
    by (simp add: decode_directory_entry_def demo_slot_def bslice_def get_u16_def)
  show ?thesis
    unfolding r
    by (simp add: e f skipped_entry_def get_u8_def short_name_def push_slot_def push_char_def bslice_def
        eq_ignore_ascii_case_def to_ascii_lowercase_def entry_cluster_def entry_is_dir_def)
qed


text \<open>
  A partition whose boot sector has a 16-bit table size of zero is mounted as FAT32, and from
  then on no routine that needs its geometry returns: the root sector, the data region and
  the sector of a cluster are computed from one another without end, so listing the root
  directory, looking up a name in it and the summary printed on mount hang the kernel.
\<close>

theorem fat32_volume_hangs:
  assumes "sector_store dev ok sectors limit" and "ok s" and "lba < limit"
    and "get_u8 (sectors s lba) 510 = 0x55" and "get_u8 (sectors s lba) 511 = 0xAA" and "get_u16 (sectors s lba) 22 = 0"
  shows "\<exists>v s'. fat_mount dev lba s = Inr (Inr v, s') \<and> fat_start_lba v = lba \<and> fat_type v = Fat32 (decode_fat32 (sectors s lba))
    \<and> root_dir_sector v = Inl Diverges \<and> first_data_sector v = Inl Diverges \<and> (\<forall>c. cluster_to_sector v c = Inl Diverges)
    \<and> fat_debug_info v = Inl Diverges \<and> list_root_dir dev v s' = Inl Diverges
    \<and> (\<forall>name. fat_lookup dev v fat_new_root name s' = Inl Diverges)"
proof -
  obtain s' where "rd_sector dev lba s = Inr (Inr (sectors s lba), s')"
    using sector_store.rd_sector_ok [OF assms(1-3)] by blast
  then have m: "fat_mount dev lba s = Inr (Inr \<lparr>fat_start_lba = lba, fat_type = Fat32 (decode_fat32 (sectors s lba))\<rparr>, s')"
    using assms(4-6) by (simp add: fat_mount_def bindK_ok)
  show ?thesis
    by (intro exI conjI, rule m)
       (simp_all add: fat32_diverges fat_debug_info_def list_root_dir_def fat_lookup_def fat_new_root_def)
qed

theorem fat32_volume_hangs_witness:
  "\<exists>v s'. fat_mount (image_device 1) 0 (\<lambda>_. replicate 510 0 @ [0x55, 0xAA]) = Inr (Inr v, s') \<and> root_dir_sector v = Inl Diverges"
proof -
  let ?s = "\<lambda>_ :: nat. replicate 510 0 @ [0x55, 0xAA] :: u8 list"
  have i: "image_ok 1 ?s" by (simp add: image_ok_def)
  have g: "get_u8 (?s 0) 510 = 0x55" "get_u8 (?s 0) 511 = 0xAA" "get_u16 (?s 0) 22 = 0"
    by (simp_all add: get_u8_def nth_append get_u16_def bslice_def le_nat_zeros)
  from fat32_volume_hangs [where ok = "image_ok 1" and sectors = "\<lambda>s. s" and s = ?s, OF image.sector_store_axioms i _ g]
  show ?thesis by blast
qed

end
