(* ===== verification/Vfs.thy ===== *)
theory Vfs
  imports Ext4_Node Fat Rust_Str BTree_Map
begin

text \<open>
  The virtual file system of \<^verbatim>\<open>src/fs/vfs.rs\<close>: the node interface over the four kinds of nodes,
  the reader of the initramfs archive, the in-memory tree built from it, the mount table and
  path resolution. Nodes on disk name the device that holds them. The lemmas show that the
  archive reader returns the files an archiver stored, that the tree offers them by path,
  and how resolution crosses mount points.
\<close>

section \<open>Nodes\<close>

datatype vnode =
    TarVNode "u8 list"
  | DirVNode "(u8 list \<times> vnode) list"
  | Ext4VNode nat Ext4Volume Ext4Node
  | FatVNode nat FatVolume FatNode

definition tar_read :: "u8 list \<Rightarrow> nat \<Rightarrow> u8 list \<Rightarrow> nat \<times> u8 list" where
  "tar_read data offset buf =
     (if length data \<le> offset then (0, buf)
      else let bytes_to_copy = min (length buf) (length data - offset) in
           (bytes_to_copy, bsplice buf 0 (bslice data offset bytes_to_copy)))"

text \<open>The trait methods; the defaults of the trait are zero bytes, size zero, no child.\<close>

definition vnode_is_dir :: "vnode \<Rightarrow> bool" where
  "vnode_is_dir n =
     (case n of TarVNode _ \<Rightarrow> False | DirVNode _ \<Rightarrow> True
      | Ext4VNode _ _ e \<Rightarrow> node_is_directory e | FatVNode _ _ f \<Rightarrow> is_directory f)"

definition vnode_get_size :: "vnode \<Rightarrow> nat" where
  "vnode_get_size n =
     (case n of TarVNode data \<Rightarrow> length data | DirVNode _ \<Rightarrow> 0
      | Ext4VNode _ _ e \<Rightarrow> node_size e | FatVNode _ _ f \<Rightarrow> fat_size f)"

definition vnode_read ::
    "(nat \<Rightarrow> 's block_device) \<Rightarrow> vnode \<Rightarrow> nat \<Rightarrow> u8 list \<Rightarrow> ('s, FsError, nat \<times> u8 list) kop" where
  "vnode_read devs n offset buf =
     (case n of
        TarVNode data \<Rightarrow> retK (tar_read data offset buf)
      | DirVNode _ \<Rightarrow> retK (0, buf)
      | Ext4VNode d v e \<Rightarrow> ext4_read (devs d) v e offset buf
      | FatVNode d v f \<Rightarrow> fat_read (devs d) v f offset buf)"

definition vnode_lookup ::
    "(nat \<Rightarrow> 's block_device) \<Rightarrow> vnode \<Rightarrow> u8 list \<Rightarrow> ('s, FsError, vnode option) kop" where
  "vnode_lookup devs n name =
     (case n of
        TarVNode _ \<Rightarrow> retK None
      | DirVNode children \<Rightarrow> retK (bt_get children name)
      | Ext4VNode d v e \<Rightarrow>
          bindK (ext4_lookup (devs d) v e name) (\<lambda>r. retK (map_option (Ext4VNode d v) r))
      | FatVNode d v f \<Rightarrow>
          bindK (fat_lookup (devs d) v f name) (\<lambda>r. retK (map_option (FatVNode d v) r)))"

section \<open>Global state\<close>

text \<open>\<^verbatim>\<open>INITRAMFS\<close> is the bytes of the archive; \<^verbatim>\<open>VFS_ROOT\<close> is the map of its children.\<close>

record vfs =
  initramfs :: "u8 list option"
  mounts :: "(u8 list, vnode) btree"
  vfs_root :: "(u8 list, vnode) btree"

definition vfs_empty :: vfs where
  "vfs_empty = \<lparr>initramfs = None, mounts = [], vfs_root = []\<rparr>"

definition vfs_init :: "u8 list \<Rightarrow> vfs \<Rightarrow> vfs" where
  "vfs_init tar fs = fs\<lparr>initramfs := Some tar\<rparr>"

definition vfs_mount :: "u8 list \<Rightarrow> vnode \<Rightarrow> vfs \<Rightarrow> vfs" where
  "vfs_mount path node fs = fs\<lparr>mounts := bt_insert path node (mounts fs)\<rparr>"

definition get_mount :: "vfs \<Rightarrow> u8 list \<Rightarrow> vnode option" where
  "get_mount fs path = bt_get (mounts fs) path"

definition vfs_unmount :: "u8 list \<Rightarrow> vfs \<Rightarrow> bool \<times> vfs" where
  "vfs_unmount path fs = (bt_get (mounts fs) path \<noteq> None, fs\<lparr>mounts := bt_remove path (mounts fs)\<rparr>)"

definition dir_add :: "u8 list \<Rightarrow> vnode \<Rightarrow> (u8 list, vnode) btree \<Rightarrow> (u8 list, vnode) btree" where
  "dir_add name node children = bt_insert name node children"

section \<open>The archive\<close>

text \<open>The name and the size in a 512-byte header.\<close>

definition tar_name :: "u8 list \<Rightarrow> u8 list" where
  "tar_name header = str_or_empty (takeWhile (\<lambda>c. c \<noteq> 0) (take 100 header))"

definition tar_size :: "u8 list \<Rightarrow> nat" where
  "tar_size header =
     (let size_str = trim (case from_utf8 (bslice header 124 11) of None \<Rightarrow> [0x30] | Some cs \<Rightarrow> cs) in
      case from_str_radix8 size_str of None \<Rightarrow> 0 | Some n \<Rightarrow> n)"

text \<open>The offset of the next header.\<close>

definition tar_next :: "nat \<Rightarrow> nat \<Rightarrow> nat run" where
  "tar_next offset len =
     bindR (add64 len 511) (\<lambda>n.
     bindR (mul64 (n div 512) 512) (\<lambda>d.
     bindR (add64 512 d) (\<lambda>k. add64 offset k)))"

text \<open>A slice of the archive; one that reaches past its end is not memory of the archive.\<close>

definition tar_slice :: "u8 list \<Rightarrow> nat \<Rightarrow> nat \<Rightarrow> u8 list run" where
  "tar_slice tar start n =
     bindR (assertR (start + n \<le> length tar) UndefinedBehaviour) (\<lambda>_. Inr (bslice tar start n))"

lemma tar_next_greater: "tar_next offset n = Inr offset' \<Longrightarrow> offset < offset'"
  by (auto simp: tar_next_def run_simps)

function find_file_loop :: "u8 list \<Rightarrow> u8 list \<Rightarrow> nat \<Rightarrow> u8 list option run" where
  "find_file_loop filename tar offset =
     bindR (add64 offset 512) (\<lambda>data_start.
     if length tar < data_start then Inr None
     else
       let header = bslice tar offset 512 in
       if get_u8 header 0 = 0 then Inr None
       else if tar_name header = filename
       then bindR (tar_slice tar data_start (tar_size header)) (\<lambda>data. Inr (Some data))
       else bindR (tar_next offset (tar_size header)) (\<lambda>offset'. find_file_loop filename tar offset'))"
  by pat_completeness auto
termination
  by (relation "measure (\<lambda>(f, tar, off). length tar - off)")
     (auto dest: tar_next_greater simp: run_simps)

declare find_file_loop.simps [simp del]

definition find_file :: "u8 list \<Rightarrow> vfs \<Rightarrow> u8 list option run" where
  "find_file filename fs =
     (case initramfs fs of None \<Rightarrow> Inr None | Some tar \<Rightarrow> find_file_loop filename tar 0)"

function build_loop :: "u8 list \<Rightarrow> nat \<Rightarrow> (u8 list, vnode) btree \<Rightarrow> (u8 list, vnode) btree run" where
  "build_loop tar offset root =
     bindR (add64 offset 512) (\<lambda>data_start.
     if length tar < data_start then Inr root
     else
       let header = bslice tar offset 512; name = tar_name header; len = tar_size header in
       if get_u8 header 0 = 0 then Inr root
       else
         bindR (if 0 < len \<and> name \<noteq> []
                then bindR (tar_slice tar data_start len) (\<lambda>data.
                     Inr (dir_add (trim_start_slashes name) (TarVNode data) root))
                else Inr root) (\<lambda>root'.
         bindR (tar_next offset len) (\<lambda>offset'. build_loop tar offset' root')))"
  by pat_completeness auto
termination
  by (relation "measure (\<lambda>(tar, off, root). length tar - off)")
     (auto dest: tar_next_greater simp: run_simps)

declare build_loop.simps [simp del]

definition build_vfs_tree_from_tar :: "vfs \<Rightarrow> vfs run" where
  "build_vfs_tree_from_tar fs =
     (case initramfs fs of
        None \<Rightarrow> Inr fs
      | Some tar \<Rightarrow> bindR (build_loop tar 0 (vfs_root fs)) (\<lambda>root. Inr (fs\<lparr>vfs_root := root\<rparr>)))"

section \<open>Path resolution\<close>

fun resolve_parts ::
    "(nat \<Rightarrow> 's block_device) \<Rightarrow> vfs \<Rightarrow> vnode \<Rightarrow> u8 list \<Rightarrow> u8 list list \<Rightarrow> ('s, FsError, vnode option) kop" where
  "resolve_parts devs fs current current_path [] = retK (Some current)"
| "resolve_parts devs fs current current_path (part # parts) =
     (if \<not> vnode_is_dir current then retK None
      else
        let path = current_path @ 0x2F # part in
        case get_mount fs path of
          Some mounted_node \<Rightarrow> resolve_parts devs fs mounted_node path parts
        | None \<Rightarrow>
            bindK (vnode_lookup devs current part) (\<lambda>r.
            case r of
              Some next_node \<Rightarrow> resolve_parts devs fs next_node path parts
            | None \<Rightarrow> retK None))"

definition resolve_path :: "(nat \<Rightarrow> 's block_device) \<Rightarrow> vfs \<Rightarrow> u8 list \<Rightarrow> ('s, FsError, vnode option) kop" where
  "resolve_path devs fs path =
     resolve_parts devs fs
       (case get_mount fs [0x2F] of Some n \<Rightarrow> n | None \<Rightarrow> DirVNode (vfs_root fs)) [] (path_parts path)"

definition open_vnode :: "(nat \<Rightarrow> 's block_device) \<Rightarrow> vfs \<Rightarrow> u8 list \<Rightarrow> ('s, FsError, vnode option) kop" where
  "open_vnode devs fs path = resolve_path devs fs path"

section \<open>Archives\<close>

text \<open>
  What an archiver writes: a header with the name, the size in octal and fields the kernel
  does not read, the data padded to whole blocks, and two empty blocks at the end.
\<close>

record tar_file =
  tf_name :: "u8 list"
  tf_meta :: "u8 list"
  tf_rest :: "u8 list"
  tf_data :: "u8 list"

definition tar_file_ok :: "tar_file \<Rightarrow> bool" where
  "tar_file_ok f \<longleftrightarrow> tf_name f \<noteq> [] \<and> length (tf_name f) \<le> 100 \<and> 0 \<notin> set (tf_name f) \<and> from_utf8 (tf_name f) \<noteq> None
     \<and> length (tf_meta f) = 24 \<and> length (tf_rest f) = 377 \<and> length (tf_data f) < 8 ^ 11"

definition tar_header :: "tar_file \<Rightarrow> u8 list" where
  "tar_header f = tf_name f @ replicate (100 - length (tf_name f)) 0 @ tf_meta f
     @ octal11 (length (tf_data f)) @ tf_rest f"

definition pad512 :: "u8 list \<Rightarrow> u8 list" where
  "pad512 d = d @ replicate ((length d + 511) div 512 * 512 - length d) 0"

definition tar_image :: "tar_file list \<Rightarrow> u8 list" where
  "tar_image files = concat (map (\<lambda>f. tar_header f @ pad512 (tf_data f)) files) @ replicate 1024 0"

lemma length_tar_header: "tar_file_ok f \<Longrightarrow> length (tar_header f) = 512"
  by (simp add: tar_header_def tar_file_ok_def)

lemma blocks_cover: "n \<le> (n + 511) div 512 * (512 :: nat)"
  using div_mult_mod_eq [of "n + 511" 512] mod_less_divisor [of 512 "n + 511"] by linarith

lemma length_pad512: "length (pad512 d) = (length d + 511) div 512 * 512"
  using blocks_cover [of "length d"] by (simp add: pad512_def)

lemma takeWhile_name: "0 \<notin> set n \<Longrightarrow> takeWhile (\<lambda>c. c \<noteq> 0) (n @ replicate k (0 :: u8)) = n"
  by (induction n) (auto simp: takeWhile_eq_Nil_iff hd_replicate)

lemma tar_name_header:
  assumes "tar_file_ok f"
  shows "tar_name (tar_header f) = tf_name f"
proof -
  have "take 100 (tar_header f) = tf_name f @ replicate (100 - length (tf_name f)) 0"
    using assms by (simp add: tar_header_def tar_file_ok_def)
  then show ?thesis
    using assms by (auto simp: tar_name_def str_or_empty_def tar_file_ok_def takeWhile_name)
qed

lemma tar_size_header:
  assumes "tar_file_ok f"
  shows "tar_size (tar_header f) = length (tf_data f)"
proof -
  have "bslice (tar_header f) 124 11 = octal11 (length (tf_data f))"
    using assms by (simp add: tar_header_def tar_file_ok_def bslice_def)
  moreover have "map_option (\<lambda>cs. from_str_radix8 (trim cs)) (from_utf8 (octal11 (length (tf_data f)))) = Some (Some (length (tf_data f)))"
    using assms by (intro octal11_parse) (simp add: tar_file_ok_def)
  ultimately show ?thesis by (auto simp: tar_size_def)
qed

lemma tar_first_header: "tar_file_ok f \<Longrightarrow> get_u8 (tar_header f) 0 \<noteq> 0"
  by (cases "tf_name f") (auto simp: tar_header_def tar_file_ok_def)

lemma tar_next_ok:
  "offset + 512 + (n + 511) div 512 * 512 < 2 ^ 64 \<Longrightarrow>
   tar_next offset n = Inr (offset + (512 + (n + 511) div 512 * 512))"
  using blocks_cover [of n] by (simp add: tar_next_def add_w_def mul_w_def)

text \<open>
  One step of either loop on an archive: the header at the offset, the data behind it and
  the offset of the next entry.
\<close>

lemma tar_step:
  assumes f: "tar_file_ok f" and t: "tar = pre @ tar_image (f # files)" and l: "length tar < 2 ^ 63"
  shows "add64 (length pre) 512 = Inr (length pre + 512)" and "\<not> length tar < length pre + 512"
    and "bslice tar (length pre) 512 = tar_header f"
    and "tar_slice tar (length pre + 512) (length (tf_data f)) = Inr (tf_data f)"
    and "tar_next (length pre) (length (tf_data f)) = Inr (length (pre @ tar_header f @ pad512 (tf_data f)))"
    and "tar = (pre @ tar_header f @ pad512 (tf_data f)) @ tar_image files"
proof -
  let ?h = "tar_header f" and ?p = "pad512 (tf_data f)"
  show e: "tar = (pre @ ?h @ ?p) @ tar_image files" by (simp add: t tar_image_def)
  have h: "length ?h = 512" using length_tar_header [OF f] .
  have lt: "length tar = length pre + 512 + length ?p + length (tar_image files)" by (simp add: e h)
  show "add64 (length pre) 512 = Inr (length pre + 512)" using l lt by (simp add: add_w_def)
  show "\<not> length tar < length pre + 512" using lt by simp
  show "bslice tar (length pre) 512 = ?h" by (simp add: e bslice_def h)
  have le: "length (tf_data f) \<le> length ?p" by (simp add: pad512_def)
  have "bslice tar (length pre + 512) (length (tf_data f)) = tf_data f" by (simp add: e bslice_def h pad512_def)
  then show "tar_slice tar (length pre + 512) (length (tf_data f)) = Inr (tf_data f)"
    using lt le by (simp add: tar_slice_def)
  show "tar_next (length pre) (length (tf_data f)) = Inr (length (pre @ ?h @ ?p))"
    using l lt by (subst tar_next_ok) (simp_all add: length_pad512 h)
qed

lemma tar_end:
  assumes "tar = pre @ tar_image []" and "length tar < 2 ^ 63"
  shows "add64 (length pre) 512 = Inr (length pre + 512)" and "\<not> length tar < length pre + 512"
    and "get_u8 (bslice tar (length pre) 512) 0 = 0"
  using assms by (simp_all add: tar_image_def add_w_def bslice_def get_u8_def)

lemma find_file_loop_ok:
  "list_all tar_file_ok files \<Longrightarrow> tar = pre @ tar_image files \<Longrightarrow> length tar < 2 ^ 63 \<Longrightarrow>
   find_file_loop name tar (length pre) = Inr (map_option tf_data (find (\<lambda>f. tf_name f = name) files))"
proof (induction files arbitrary: pre)
  case Nil
  note e = tar_end [OF Nil(2,3)]
  show ?case by (subst find_file_loop.simps) (simp add: e)
next
  case (Cons f files)
  have f: "tar_file_ok f" "list_all tar_file_ok files" using Cons.prems(1) by auto
  note s = tar_step [OF f(1) Cons.prems(2,3)]
  note ih = Cons.IH [OF f(2) s(6) Cons.prems(3)]
  show ?case
    by (subst find_file_loop.simps)
       (simp only: s(1-5) ih tar_name_header [OF f(1)] tar_size_header [OF f(1)] tar_first_header [OF f(1)] Let_def
         bindR_simps if_False find.simps option.map split: if_split, simp)
qed

text \<open>The children the tree gets: non-empty files, under their name without leading slashes.\<close>

definition tree_of :: "tar_file list \<Rightarrow> (u8 list, vnode) btree \<Rightarrow> (u8 list, vnode) btree" where
  "tree_of = fold (\<lambda>f root. if tf_data f = [] then root
                              else dir_add (trim_start_slashes (tf_name f)) (TarVNode (tf_data f)) root)"

lemma build_loop_ok:
  "list_all tar_file_ok files \<Longrightarrow> tar = pre @ tar_image files \<Longrightarrow> length tar < 2 ^ 63 \<Longrightarrow>
   build_loop tar (length pre) root = Inr (tree_of files root)"
proof (induction files arbitrary: pre root)
  case Nil
  note e = tar_end [OF Nil(2,3)]
  show ?case by (subst build_loop.simps) (simp add: e tree_of_def)
next
  case (Cons f files)
  have f: "tar_file_ok f" "list_all tar_file_ok files" using Cons.prems(1) by auto
  note s = tar_step [OF f(1) Cons.prems(2,3)]
  note ih = Cons.IH [OF f(2) s(6) Cons.prems(3)]
  have ne: "tf_name f \<noteq> []" using f(1) by (simp add: tar_file_ok_def)
  show ?case
    by (subst build_loop.simps)
       (simp add: s(1-5) ih tar_name_header [OF f(1)] tar_size_header [OF f(1)] tar_first_header [OF f(1)] Let_def ne
         tree_of_def del: length_append)
qed

lemma tree_of_get:
  "bt_get (tree_of files root) name =
     (case find (\<lambda>f. tf_data f \<noteq> [] \<and> trim_start_slashes (tf_name f) = name) (rev files) of
        Some f \<Rightarrow> Some (TarVNode (tf_data f)) | None \<Rightarrow> bt_get root name)"
proof (induction files rule: rev_induct)
  case Nil
  then show ?case by (simp add: tree_of_def)
next
  case (snoc f files)
  then show ?case by (simp add: tree_of_def dir_add_def)
qed

section \<open>Resolution\<close>

text \<open>Resolving a longer path continues from what the prefix resolves to.\<close>

lemma resolve_parts_append:
  "resolve_parts devs fs cur path (ps @ qs) =
     bindK (resolve_parts devs fs cur path ps) (\<lambda>r.
       case r of None \<Rightarrow> retK None | Some n \<Rightarrow> resolve_parts devs fs n (path @ join_path ps) qs)"
proof (induction ps arbitrary: cur path)
  case Nil
  then show ?case by (intro ext) (simp add: bindK_def join_path_def)
next
  case (Cons p ps)
  have j: "join_path (p # ps) = 0x2F # p @ join_path ps" by (simp add: join_path_def)
  show ?case
    by (rule ext) (auto simp: Let_def Cons.IH j bindK_def split: option.splits sum.splits prod.splits)
qed

lemma resolve_parts_mounted:
  "get_mount fs (path @ 0x2F # p) = Some m \<Longrightarrow> vnode_is_dir cur \<Longrightarrow>
   resolve_parts devs fs cur path (p # qs) = resolve_parts devs fs m (path @ 0x2F # p) qs"
  by (simp add: Let_def)

lemma tar_child_not_dir: "bt_get (tree_of files []) n = Some v \<Longrightarrow> \<not> vnode_is_dir v"
  by (auto simp: tree_of_get vnode_is_dir_def split: option.splits)

section \<open>Properties\<close>

text \<open>
  C15: in an archive written by an archiver, \<^verbatim>\<open>find_file\<close> returns the data of the first file with
  the given name, byte for byte, and nothing when no file has that name.
\<close>

theorem archive_files_are_found:
  assumes "list_all tar_file_ok files" and "length (tar_image files) < 2 ^ 63" and "initramfs fs = Some (tar_image files)"
  shows "find_file name fs = Inr (map_option tf_data (find (\<lambda>f. tf_name f = name) files))"
  using find_file_loop_ok [OF assms(1), of "tar_image files" "[]" name] assms(2,3) by (simp add: find_file_def)

definition demo_tar :: "tar_file list" where
  "demo_tar = [\<lparr>tf_name = [0x61], tf_meta = replicate 24 0, tf_rest = replicate 377 0, tf_data = [1, 2, 3]\<rparr>,
               \<lparr>tf_name = [0x2F, 0x62], tf_meta = replicate 24 0, tf_rest = replicate 377 0, tf_data = [4]\<rparr>]"

lemma demo_tar_ok: "list_all tar_file_ok demo_tar" "length (tar_image demo_tar) < 2 ^ 63"
  by (simp_all add: demo_tar_def tar_file_ok_def tar_image_def tar_header_def length_pad512)

theorem archive_files_are_found_witness:
  "find_file [0x2F, 0x62] (vfs_init (tar_image demo_tar) vfs_empty) = Inr (Some [4])"
  using archive_files_are_found [OF demo_tar_ok, of "vfs_init (tar_image demo_tar) vfs_empty" "[0x2F, 0x62]"]
  by (simp add: vfs_init_def demo_tar_def)

text \<open>
  C17: the tree built at boot from an archive offers every non-empty file at the root under its name
  without leading slashes, the last one when names repeat, and nothing else: a path with a
  single component opens that file, and a path with more components opens nothing, even when
  the archive has a file of that name in a directory.
\<close>

theorem boot_tree_opens_files:
  assumes "list_all tar_file_ok files" and "length (tar_image files) < 2 ^ 63"
  shows "\<exists>fs. build_vfs_tree_from_tar (vfs_init (tar_image files) vfs_empty) = Inr fs
    \<and> (\<forall>n. n \<noteq> [] \<and> 0x2F \<notin> set n \<longrightarrow> open_vnode devs fs (0x2F # n) s
          = Inr (Inr (map_option (\<lambda>f. TarVNode (tf_data f))
              (find (\<lambda>f. tf_data f \<noteq> [] \<and> trim_start_slashes (tf_name f) = n) (rev files))), s))
    \<and> (\<forall>ps. 2 \<le> length (path_parts ps) \<longrightarrow> open_vnode devs fs ps s = Inr (Inr None, s))"
proof -
  define fs where "fs = \<lparr>initramfs = Some (tar_image files), mounts = [], vfs_root = tree_of files []\<rparr>"
  have b: "build_vfs_tree_from_tar (vfs_init (tar_image files) vfs_empty) = Inr fs"
    using build_loop_ok [OF assms(1), of "tar_image files" "[]" "[]"] assms(2)
    by (simp add: build_vfs_tree_from_tar_def vfs_init_def vfs_empty_def fs_def)
  have m: "get_mount fs p = None" "vfs_root fs = tree_of files []" for p by (simp_all add: fs_def get_mount_def)
  have one: "open_vnode devs fs (0x2F # n) s = Inr (Inr (map_option (\<lambda>f. TarVNode (tf_data f))
      (find (\<lambda>f. tf_data f \<noteq> [] \<and> trim_start_slashes (tf_name f) = n) (rev files))), s)"
    if "n \<noteq> [] \<and> 0x2F \<notin> set n" for n
  proof -
    have "path_parts (0x2F # n) = [n]" using path_parts_join [of "[n]"] that by (simp add: join_path_def)
    then show ?thesis
      by (simp add: open_vnode_def resolve_path_def m vnode_is_dir_def vnode_lookup_def Let_def tree_of_get split: option.splits)
  qed
  have two: "open_vnode devs fs ps s = Inr (Inr None, s)" if l: "2 \<le> length (path_parts ps)" for ps
  proof -
    obtain p q qs where "path_parts ps = p # q # qs"
      using l by (cases "path_parts ps"; cases "tl (path_parts ps)") auto
    moreover have "\<not> vnode_is_dir v" if "bt_get (tree_of files []) p = Some v" for v
      using tar_child_not_dir [OF that] .
    ultimately show ?thesis
      by (auto simp: open_vnode_def resolve_path_def m vnode_lookup_def Let_def vnode_is_dir_def [of "DirVNode _"] split: option.splits)
  qed
  show ?thesis using b one two by blast
qed

theorem boot_tree_opens_files_witness:
  "\<exists>fs. build_vfs_tree_from_tar (vfs_init (tar_image demo_tar) vfs_empty) = Inr fs
     \<and> open_vnode (\<lambda>_. image_device 8) fs [0x2F, 0x62] (\<lambda>_. []) = Inr (Inr (Some (TarVNode [4])), (\<lambda>_. []))"
proof -
  obtain fs where fs: "build_vfs_tree_from_tar (vfs_init (tar_image demo_tar) vfs_empty) = Inr fs"
    and o: "\<forall>n. n \<noteq> [] \<and> 0x2F \<notin> set n \<longrightarrow> open_vnode (\<lambda>_. image_device 8) fs (0x2F # n) (\<lambda>_. [])
          = Inr (Inr (map_option (\<lambda>f. TarVNode (tf_data f))
              (find (\<lambda>f. tf_data f \<noteq> [] \<and> trim_start_slashes (tf_name f) = n) (rev demo_tar))), (\<lambda>_. []))"
    using boot_tree_opens_files [OF demo_tar_ok, of "(\<lambda>_. image_device 8)" "(\<lambda>_. [])"] by blast
  have "open_vnode (\<lambda>_. image_device 8) fs [0x2F, 0x62] (\<lambda>_. []) = Inr (Inr (Some (TarVNode [4])), (\<lambda>_. []))"
    using o [rule_format, of "[0x62]"] by (simp add: demo_tar_def trim_start_slashes_def)
  with fs show ?thesis by blast
qed

text \<open>
  C35: a file system mounted at a path hides whatever the tree has there: when the directory
  that holds the mount point resolves, every path through it is resolved inside the mounted
  file system, and after unmounting the path is no mount point any more.
\<close>

theorem mounted_path_is_entered:
  assumes "fs' = vfs_mount (join_path (ps @ [p])) m fs"
    and "\<forall>c \<in> set (ps @ p # qs). c \<noteq> [] \<and> 0x2F \<notin> set c"
    and "resolve_path devs fs' (join_path ps) s = Inr (Inr (Some dir), s')" and "vnode_is_dir dir"
  shows "open_vnode devs fs' (join_path (ps @ p # qs)) s = resolve_parts devs fs' m (join_path (ps @ [p])) qs s'
    \<and> get_mount (snd (vfs_unmount (join_path (ps @ [p])) fs')) (join_path (ps @ [p])) = None"
proof -
  have j: "join_path (ps @ [p]) = join_path ps @ 0x2F # p" by (simp add: join_path_def)
  have g: "get_mount fs' (join_path ps @ 0x2F # p) = Some m" by (simp add: assms(1) get_mount_def vfs_mount_def j)
  have parts: "path_parts (join_path (ps @ p # qs)) = ps @ p # qs" "path_parts (join_path ps) = ps"
    using assms(2) by (intro path_parts_join; simp)+
  have "resolve_path devs fs' (join_path (ps @ p # qs)) s
      = resolve_parts devs fs' dir (join_path ps) (p # qs) s'"
    using assms(3) unfolding resolve_path_def parts resolve_parts_append by (simp only: bindK_ok) simp
  then show ?thesis
    using resolve_parts_mounted [OF g assms(4), of devs qs]
    by (simp only: open_vnode_def j) (simp add: get_mount_def vfs_unmount_def)
qed

theorem mounted_path_is_entered_witness:
  "open_vnode (\<lambda>_. image_device 8) (vfs_mount [0x2F, 0x6D] (DirVNode [([0x61], TarVNode [9])]) vfs_empty) [0x2F, 0x6D, 0x2F, 0x61] (\<lambda>_. [])
     = Inr (Inr (Some (TarVNode [9])), (\<lambda>_. []))"
proof -
  let ?m = "DirVNode [([0x61], TarVNode [9])]"
  let ?fs = "vfs_mount (join_path ([] @ [[0x6D]])) ?m vfs_empty"
  have r: "resolve_path (\<lambda>_. image_device 8) ?fs (join_path []) (\<lambda>_. []) = Inr (Inr (Some (DirVNode [])), (\<lambda>_. []))"
    by (simp add: resolve_path_def join_path_def path_parts_def get_mount_def vfs_mount_def vfs_empty_def)
  show ?thesis
    using mounted_path_is_entered [OF refl _ r, of "[[0x61]]"]
    by (simp add: vnode_is_dir_def vnode_lookup_def join_path_def get_mount_def vfs_mount_def vfs_empty_def Let_def)
qed

end
