(* ===== verification/Ahci.thy ===== *)
theory Ahci
  imports Block_Device Frame_Allocator
begin

text \<open>
  The AHCI driver of \<^verbatim>\<open>src/drivers/block\<close>: the port engine and the single-sector DMA commands
  of \<^verbatim>\<open>ahci/port.rs\<close>, and the disk adapter \<^verbatim>\<open>AhciDisk\<close> of \<^verbatim>\<open>mod.rs\<close> with its bounce buffer from
  the frame allocator. The controller is a parameter: reads and writes of its registers
  over a controller state and memory. Polling loops without a bound are partial functions
  whose not returning is the outcome \<open>Diverges\<close>. The lemmas show that the adapter gives back
  the frame it takes on every path, and that over a controller that obeys the protocol
  (locale \<open>ahci_controller\<close>) it is a sector store.
\<close>

section \<open>Registers and the controller\<close>

datatype port_reg = P_clb | P_clbu | P_fb | P_fbu | P_is | P_cmd | P_tfd | P_sig | P_ssts | P_ci

record 'h hba =
  hba_read :: "nat \<Rightarrow> port_reg \<Rightarrow> 'h \<times> memory \<Rightarrow> u32 \<times> 'h \<times> memory"
  hba_write :: "nat \<Rightarrow> port_reg \<Rightarrow> u32 \<Rightarrow> 'h \<times> memory \<Rightarrow> 'h \<times> memory"

definition PORT_CMD_BITS :: u32 where
  "PORT_CMD_BITS = 0xC01F"

definition PORT_CMD_ST :: u32 where "PORT_CMD_ST = 0x1"
definition PORT_CMD_FRE :: u32 where "PORT_CMD_FRE = 0x10"
definition PORT_CMD_FR :: u32 where "PORT_CMD_FR = 0x4000"
definition PORT_CMD_CR :: u32 where "PORT_CMD_CR = 0x8000"

text \<open>The loop after \<^verbatim>\<open>stop_cmd\<close>'s write, and the one before \<^verbatim>\<open>start_cmd\<close>'s.\<close>

partial_function (option) wait_cmd_clear ::
    "'h hba \<Rightarrow> nat \<Rightarrow> u32 \<Rightarrow> 'h \<times> memory \<Rightarrow> ('h \<times> memory) option" where
  [code]: "wait_cmd_clear hw port bits s =
     (case hba_read hw port P_cmd s of (v, s') \<Rightarrow>
      if v AND PORT_CMD_BITS AND bits = 0 then Some s' else wait_cmd_clear hw port bits s')"

definition stop_cmd :: "'h hba \<Rightarrow> nat \<Rightarrow> 'h \<times> memory \<Rightarrow> ('h \<times> memory) option" where
  "stop_cmd hw port s =
     (case hba_read hw port P_cmd s of (v, s1) \<Rightarrow>
      wait_cmd_clear hw port (PORT_CMD_CR OR PORT_CMD_FR)
        (hba_write hw port P_cmd (v AND PORT_CMD_BITS AND NOT (PORT_CMD_ST OR PORT_CMD_FRE)) s1))"

definition start_cmd :: "'h hba \<Rightarrow> nat \<Rightarrow> 'h \<times> memory \<Rightarrow> ('h \<times> memory) option" where
  "start_cmd hw port s =
     (case wait_cmd_clear hw port PORT_CMD_CR s of
        None \<Rightarrow> None
      | Some s1 \<Rightarrow>
          (case hba_read hw port P_cmd s1 of (v, s2) \<Rightarrow>
           Some (hba_write hw port P_cmd ((v AND PORT_CMD_BITS) OR (PORT_CMD_FRE OR PORT_CMD_ST)) s2)))"

section \<open>One command\<close>

definition lba_byte :: "nat \<Rightarrow> nat \<Rightarrow> u8" where
  "lba_byte lba k = word_of_nat (lba div 256 ^ k)"

definition command_fis :: "u8 \<Rightarrow> nat \<Rightarrow> u8 list" where
  "command_fis opcode lba =
     [0x27, 0x80, opcode, 0, lba_byte lba 0, lba_byte lba 1, lba_byte lba 2, 0x40,
      lba_byte lba 3, lba_byte lba 4, lba_byte lba 5, 0, 1, 0] @ replicate 50 0"

text \<open>The 144 bytes of the command table: it is cleared, then the FIS and one PRDT entry are set.\<close>

definition command_table :: "u8 \<Rightarrow> nat \<Rightarrow> nat \<Rightarrow> u8 list" where
  "command_table opcode lba buffer_phys =
     command_fis opcode lba @ replicate 64 0
     @ u32_bytes (word_of_nat buffer_phys) @ u32_bytes (word_of_nat (buffer_phys div 2 ^ 32))
     @ replicate 4 0 @ u32_bytes 511"

lemma length_command_table [simp]: "length (command_table opcode lba p) = 144"
  by (simp add: command_table_def command_fis_def)

definition read_u32_ram :: "nat \<Rightarrow> memory \<Rightarrow> u32" where
  "read_u32_ram p m = word_of_nat (le_nat (read_ram p 4 m))"

function wait_tfd :: "'h hba \<Rightarrow> nat \<Rightarrow> nat \<Rightarrow> 'h \<times> memory \<Rightarrow> bool \<times> 'h \<times> memory" where
  "wait_tfd hw port spin s =
     (case hba_read hw port P_tfd s of (v, s') \<Rightarrow>
      if v AND 0x88 \<noteq> 0
      then (if 1000000 < spin + 1 then (False, s') else wait_tfd hw port (spin + 1) s')
      else (True, s'))"
  by pat_completeness auto
termination
  by (relation "measure (\<lambda>(hw, port, spin, s). 1000001 - spin)") auto

declare wait_tfd.simps [simp del]

partial_function (option) wait_ci ::
    "'h hba \<Rightarrow> nat \<Rightarrow> 'h \<times> memory \<Rightarrow> (bool \<times> 'h \<times> memory) option" where
  [code]: "wait_ci hw port s =
     (case hba_read hw port P_ci s of (v, s1) \<Rightarrow>
      if v AND 1 = 0 then Some (True, s1)
      else case hba_read hw port P_is s1 of (i, s2) \<Rightarrow>
           if i AND 0x40000000 \<noteq> 0 then Some (False, s2) else wait_ci hw port s2)"

text \<open>The body shared by \<^verbatim>\<open>read_sector\<close> and \<^verbatim>\<open>write_sector\<close>.\<close>

definition issue_command ::
    "'h hba \<Rightarrow> nat \<Rightarrow> u16 \<Rightarrow> u8 \<Rightarrow> nat \<Rightarrow> nat \<Rightarrow> nat \<Rightarrow> 'h \<times> memory \<Rightarrow> (bool \<times> 'h \<times> memory) run" where
  "issue_command hw port header_flags opcode lba buffer_phys hhdm_offset s =
     (let s1 = hba_write hw port P_is 0xFFFFFFFF s in
      case hba_read hw port P_clbu s1 of (clbu, s2) \<Rightarrow>
      case hba_read hw port P_clb s2 of (clb, h, m) \<Rightarrow>
      let clb_phys = unat clbu * 2 ^ 32 + unat clb in
      bindR (add64 clb_phys hhdm_offset) (\<lambda>clb_virt.
      bindR (assertR (clb_virt \<noteq> 0 \<and> 4 dvd clb_virt) UndefinedBehaviour) (\<lambda>_.
      let m1 = write_ram clb_phys (u16_bytes header_flags @ u16_bytes 1 @ u32_bytes 0) m;
          ctba_phys = unat (read_u32_ram (clb_phys + 12) m1) * 2 ^ 32 + unat (read_u32_ram (clb_phys + 8) m1) in
      bindR (add64 ctba_phys hhdm_offset) (\<lambda>ctba_virt.
      bindR (assertR (ctba_virt \<noteq> 0 \<and> 4 dvd ctba_virt) UndefinedBehaviour) (\<lambda>_.
      let m2 = write_ram ctba_phys (command_table opcode lba buffer_phys) m1 in
      case wait_tfd hw port 0 (h, m2) of (idle, s3) \<Rightarrow>
      if \<not> idle then Inr (False, s3)
      else case wait_ci hw port (hba_write hw port P_ci 1 s3) of
             None \<Rightarrow> Inl Diverges
           | Some r \<Rightarrow> Inr r)))))"

definition read_sector ::
    "'h hba \<Rightarrow> nat \<Rightarrow> nat \<Rightarrow> nat \<Rightarrow> nat \<Rightarrow> 'h \<times> memory \<Rightarrow> (bool \<times> 'h \<times> memory) run" where
  "read_sector hw port = issue_command hw port 5 0x25"

definition write_sector ::
    "'h hba \<Rightarrow> nat \<Rightarrow> nat \<Rightarrow> nat \<Rightarrow> nat \<Rightarrow> 'h \<times> memory \<Rightarrow> (bool \<times> 'h \<times> memory) run" where
  "write_sector hw port = issue_command hw port 0x45 0x35"

section \<open>The disk adapter\<close>

record 'h disk_state =
  controller :: 'h
  pmem :: phys_memory

text \<open>
  \<^verbatim>\<open>AhciDisk::read_block\<close>. The buffer is copied from the bounce frame, so a buffer longer
  than the frame would be read past it.
\<close>

definition ahci_read_block ::
    "'h hba \<Rightarrow> nat option \<Rightarrow> nat \<Rightarrow> nat \<Rightarrow> nat \<Rightarrow> ('h disk_state, DriverError, u8 list) kop" where
  "ahci_read_block hw hhdm_response port_index lba n = (\<lambda>s.
     if n < 512 then Inr (Inl BufferTooSmall, s)
     else bindR (expectR hhdm_response) (\<lambda>hhdm_offset.
          bindR (allocate_contiguous_frames 1 (falloc (pmem s))) (\<lambda>(r, a).
          case r of
            None \<Rightarrow> Inr (Inl NoDmaMemory, s\<lparr>pmem := (pmem s)\<lparr>falloc := a\<rparr>\<rparr>)
          | Some frame_phys \<Rightarrow>
              bindR (add64 hhdm_offset frame_phys) (\<lambda>frame_virt.
              bindR (assertR (port_index < 32) IndexOutOfBounds) (\<lambda>_.
              bindR (read_sector hw port_index lba frame_phys hhdm_offset (controller s, ram (pmem s)))
                (\<lambda>(success, h, m).
              if success
              then bindR (assertR (n \<le> 4096) UndefinedBehaviour) (\<lambda>_.
                   let data = read_ram (frame_virt - hhdm_offset) n m in
                   bindR (deallocate_frame frame_phys a) (\<lambda>a'.
                   Inr (Inr data, s\<lparr>controller := h, pmem := \<lparr>falloc = a', ram = m\<rparr>\<rparr>)))
              else bindR (deallocate_frame frame_phys a) (\<lambda>a'.
                   Inr (Inl DrvIoFailure, s\<lparr>controller := h, pmem := \<lparr>falloc = a', ram = m\<rparr>\<rparr>))))))))"

definition ahci_write_block ::
    "'h hba \<Rightarrow> nat option \<Rightarrow> nat \<Rightarrow> nat \<Rightarrow> u8 list \<Rightarrow> ('h disk_state, DriverError, unit) kop" where
  "ahci_write_block hw hhdm_response port_index lba buffer = (\<lambda>s.
     if 4096 < length buffer then Inr (Inl BufferTooLarge, s)
     else bindR (expectR hhdm_response) (\<lambda>hhdm_offset.
          bindR (allocate_contiguous_frames 1 (falloc (pmem s))) (\<lambda>(r, a).
          case r of
            None \<Rightarrow> Inr (Inl NoDmaMemory, s\<lparr>pmem := (pmem s)\<lparr>falloc := a\<rparr>\<rparr>)
          | Some frame_phys \<Rightarrow>
              bindR (add64 hhdm_offset frame_phys) (\<lambda>frame_virt.
              let m0 = write_ram (frame_virt - hhdm_offset) buffer (ram (pmem s)) in
              bindR (assertR (port_index < 32) IndexOutOfBounds) (\<lambda>_.
              bindR (write_sector hw port_index lba frame_phys hhdm_offset (controller s, m0))
                (\<lambda>(success, h, m).
              bindR (deallocate_frame frame_phys a) (\<lambda>a'.
              Inr (if success then Inr () else Inl DrvIoFailure,
                   s\<lparr>controller := h, pmem := \<lparr>falloc = a', ram = m\<rparr>\<rparr>))))))))"

definition ahci_disk :: "'h hba \<Rightarrow> nat option \<Rightarrow> nat \<Rightarrow> 'h disk_state block_device" where
  "ahci_disk hw hhdm_response port_index =
     \<lparr>rd = ahci_read_block hw hhdm_response port_index,
      wr = ahci_write_block hw hhdm_response port_index\<rparr>"

section \<open>No frame is leaked\<close>

text \<open>
  Whatever the controller does, a block operation that returns, with success or with an
  error, leaves the reference counts of all frames as it found them.
\<close>

lemma ahci_read_block_frames:
  assumes inv: "allocator_inv (falloc (pmem s))"
    and r: "ahci_read_block hw hhdm port lba n s = Inr (res, s')"
  shows "allocator_inv (falloc (pmem s')) \<and> refs (falloc (pmem s')) = refs (falloc (pmem s))"
proof (cases "n < 512")
  case True
  then show ?thesis using r inv by (simp add: ahci_read_block_def)
next
  case False
  obtain x a where al: "allocate_contiguous_frames 1 (falloc (pmem s)) = Inr (x, a)"
    using dma.acquire_total [OF inv] by blast
  show ?thesis
  proof (cases x)
    case None
    then show ?thesis
      using r False al dma.acquire_None [OF inv, of a] inv
      by (auto simp: ahci_read_block_def run_simps)
  next
    case (Some p)
    obtain a' where "deallocate_frame p a = Inr a'" "allocator_inv a'" "refs a' = refs (falloc (pmem s))"
      using dma.acquire_release [OF inv] al Some by blast
    then show ?thesis
      using r False al Some
      by (auto simp: ahci_read_block_def run_simps Let_def split: if_splits prod.splits)
  qed
qed

lemma ahci_write_block_frames:
  assumes inv: "allocator_inv (falloc (pmem s))"
    and r: "ahci_write_block hw hhdm port lba buf s = Inr (res, s')"
  shows "allocator_inv (falloc (pmem s')) \<and> refs (falloc (pmem s')) = refs (falloc (pmem s))"
proof (cases "4096 < length buf")
  case True
  then show ?thesis using r inv by (simp add: ahci_write_block_def)
next
  case False
  obtain x a where al: "allocate_contiguous_frames 1 (falloc (pmem s)) = Inr (x, a)"
    using dma.acquire_total [OF inv] by blast
  show ?thesis
  proof (cases x)
    case None
    then show ?thesis
      using r False al dma.acquire_None [OF inv, of a] inv
      by (auto simp: ahci_write_block_def run_simps)
  next
    case (Some p)
    obtain a' where "deallocate_frame p a = Inr a'" "allocator_inv a'" "refs a' = refs (falloc (pmem s))"
      using dma.acquire_release [OF inv] al Some by blast
    then show ?thesis
      using r False al Some
      by (auto simp: ahci_write_block_def run_simps Let_def split: if_splits prod.splits)
  qed
qed

section \<open>Polling\<close>

text \<open>
  \<open>completes hw port k s t\<close>: from \<open>s\<close> the command slot reads busy and free of error \<open>k\<close> times and
  then idle, leaving the controller and memory as in \<open>t\<close>.
\<close>

fun completes :: "'h hba \<Rightarrow> nat \<Rightarrow> nat \<Rightarrow> 'h \<times> memory \<Rightarrow> 'h \<times> memory \<Rightarrow> bool" where
  "completes hw port 0 s t =
     (case hba_read hw port P_ci s of (v, s1) \<Rightarrow> v AND 1 = 0 \<and> s1 = t)"
| "completes hw port (Suc k) s t =
     (case hba_read hw port P_ci s of (v, s1) \<Rightarrow>
      case hba_read hw port P_is s1 of (i, s2) \<Rightarrow>
      v AND 1 \<noteq> 0 \<and> i AND 0x40000000 = 0 \<and> completes hw port k s2 t)"

lemma wait_ci_completes: "completes hw port k s t \<Longrightarrow> wait_ci hw port s = Some (True, t)"
  by (induction k arbitrary: s)
    (subst wait_ci.simps, auto split: prod.splits)+

lemma wait_tfd_ready:
  "hba_read hw port P_tfd s = (v, s') \<Longrightarrow> v AND 0x88 = 0 \<Longrightarrow> wait_tfd hw port spin s = (True, s')"
  by (subst wait_tfd.simps) simp

text \<open>A port that stays busy is given up after 1000001 polls, so the wait always ends.\<close>

lemma wait_tfd_hung:
  assumes "\<And>s. \<exists>v s'. hba_read hw port P_tfd s = (v, s') \<and> v AND 0x88 \<noteq> 0"
  shows "\<not> fst (wait_tfd hw port spin s)"
  using assms
proof (induction hw port spin s rule: wait_tfd.induct)
  case (1 hw port spin s)
  obtain v s' where r: "hba_read hw port P_tfd s = (v, s')" "v AND 0x88 \<noteq> 0"
    using 1(2) by blast
  show ?case
    using 1(1) [OF r(1) [symmetric] r(2)] 1(2) r by (subst wait_tfd.simps) simp
qed

section \<open>A controller that obeys the protocol\<close>

definition table_address :: "nat \<Rightarrow> memory \<Rightarrow> nat" where
  "table_address clb m =
     unat (read_u32_ram (clb + 12) m) * 2 ^ 32 + unat (read_u32_ram (clb + 8) m)"

definition command_at :: "nat \<Rightarrow> memory \<Rightarrow> u16 \<Rightarrow> u8 \<Rightarrow> nat \<Rightarrow> nat \<Rightarrow> bool" where
  "command_at clb m header_flags opcode lba p \<longleftrightarrow>
     read_ram clb 4 m = u16_bytes header_flags @ u16_bytes 1
     \<and> read_ram (table_address clb m) 144 m = command_table opcode lba p"

text \<open>
  The laws follow the AHCI protocol: the register pair holds the command list base, an idle
  port is not busy, and a well-formed command that is issued completes after finitely many
  polls with its data moved. Besides the data buffer only the byte count of the command
  header (offset 4) may change in memory.
\<close>

locale ahci_controller =
  fixes hw :: "'h hba" and port clb capacity :: nat
    and hok :: "'h \<Rightarrow> bool" and media :: "'h \<Rightarrow> nat \<Rightarrow> u8 list"
  assumes port_bound: "port < 32" and clb_bound: "clb < 2 ^ 64" and capacity_bound: "capacity \<le> 2 ^ 48"
    and read_clb: "hok h \<Longrightarrow> hba_read hw port P_clb (h, m) = (word_of_nat clb, h, m)"
    and read_clbu: "hok h \<Longrightarrow> hba_read hw port P_clbu (h, m) = (word_of_nat (clb div 2 ^ 32), h, m)"
    and clear_is: "hok h \<Longrightarrow> \<exists>h'. hba_write hw port P_is 0xFFFFFFFF (h, m) = (h', m) \<and> hok h' \<and> media h' = media h"
    and idle_tfd: "hok h \<Longrightarrow> \<exists>v h'. hba_read hw port P_tfd (h, m) = (v, h', m) \<and> v AND 0x88 = 0
        \<and> hok h' \<and> media h' = media h"
    and media_length: "hok h \<Longrightarrow> lba < capacity \<Longrightarrow> length (media h lba) = 512"
    and dma_read: "hok h \<Longrightarrow> lba < capacity \<Longrightarrow> command_at clb m 5 0x25 lba p \<Longrightarrow> p < 2 ^ 64 \<Longrightarrow> even p \<Longrightarrow>
        \<exists>k h' m'. completes hw port k (hba_write hw port P_ci 1 (h, m)) (h', m') \<and> hok h' \<and> media h' = media h
          \<and> (\<forall>x. \<not> (p \<le> x \<and> x < p + 512) \<and> \<not> (clb + 4 \<le> x \<and> x < clb + 8) \<longrightarrow> m' x = m x)
          \<and> (p + 512 \<le> clb + 4 \<or> clb + 8 \<le> p \<longrightarrow> read_ram p 512 m' = media h lba)"
    and dma_write: "hok h \<Longrightarrow> lba < capacity \<Longrightarrow> command_at clb m 0x45 0x35 lba p \<Longrightarrow> p < 2 ^ 64 \<Longrightarrow> even p \<Longrightarrow>
        \<exists>k h' m'. completes hw port k (hba_write hw port P_ci 1 (h, m)) (h', m') \<and> hok h'
          \<and> media h' = (media h)(lba := read_ram p 512 m)
          \<and> (\<forall>x. \<not> (clb + 4 \<le> x \<and> x < clb + 8) \<longrightarrow> m' x = m x)"
begin

text \<open>The driver's memory layout: a command list header and a command table, aligned and apart.\<close>

definition layout_ok :: "nat \<Rightarrow> nat \<Rightarrow> memory \<Rightarrow> bool" where
  "layout_ok hhdm t m \<longleftrightarrow> table_address clb m = t \<and> (clb + 32 \<le> t \<or> t + 144 \<le> clb)
     \<and> clb + hhdm < 2 ^ 64 \<and> t + hhdm < 2 ^ 64 \<and> 0 < clb + hhdm \<and> 0 < t + hhdm
     \<and> 4 dvd clb + hhdm \<and> 4 dvd t + hhdm"

lemma table_address_cong:
  "(\<And>x. clb + 8 \<le> x \<Longrightarrow> x < clb + 16 \<Longrightarrow> m x = m' x) \<Longrightarrow> table_address clb m = table_address clb m'"
proof -
  assume e: "\<And>x. clb + 8 \<le> x \<Longrightarrow> x < clb + 16 \<Longrightarrow> m x = m' x"
  have "read_ram (clb + 12) 4 m = read_ram (clb + 12) 4 m'" "read_ram (clb + 8) 4 m = read_ram (clb + 8) 4 m'"
    by (rule read_ram_cong; simp add: e)+
  then show ?thesis by (simp add: table_address_def read_u32_ram_def)
qed

lemma layout_ok_cong:
  "layout_ok hhdm t m \<Longrightarrow> (\<And>x. clb + 8 \<le> x \<Longrightarrow> x < clb + 16 \<Longrightarrow> m' x = m x) \<Longrightarrow> layout_ok hhdm t m'"
  using table_address_cong [of m' m] by (simp add: layout_ok_def)

text \<open>Up to the doorbell, a command leaves an idle port and a well-formed command in memory.\<close>

lemma issue_command_ok:
  assumes h: "hok h" and l: "layout_ok hhdm t m"
  shows "\<exists>h1 m1. hok h1 \<and> media h1 = media h \<and> command_at clb m1 flags opcode lba p \<and> layout_ok hhdm t m1
    \<and> (\<forall>x. \<not> (t \<le> x \<and> x < t + 144) \<and> \<not> (clb \<le> x \<and> x < clb + 8) \<longrightarrow> m1 x = m x)
    \<and> (\<forall>k u. completes hw port k (hba_write hw port P_ci 1 (h1, m1)) u \<longrightarrow>
         issue_command hw port flags opcode lba p hhdm (h, m) = Inr (True, u))"
proof -
  obtain h0 where h0: "hba_write hw port P_is 0xFFFFFFFF (h, m) = (h0, m)" "hok h0" "media h0 = media h"
    using clear_is [OF h] by blast
  define ma where "ma = write_ram clb (u16_bytes flags @ u16_bytes 1 @ u32_bytes 0) m"
  define mb where "mb = write_ram t (command_table opcode lba p) ma"
  obtain v h1 where h1: "hba_read hw port P_tfd (h0, mb) = (v, h1, mb)" "v AND 0x88 = 0"
      "hok h1" "media h1 = media h0"
    using idle_tfd [OF h0(2)] by blast
  have base: "unat (word_of_nat (clb div 2 ^ 32) :: u32) * 2 ^ 32 + unat (word_of_nat clb :: u32) = clb"
    using clb_bound by (simp add: unat_of_nat take_bit_nat_def div_mult_mod_eq less_mult_imp_div_less)
  have t: "table_address clb m = t" and tl: "table_address clb ma = t" "table_address clb mb = t"
    using l table_address_cong [of ma m] table_address_cong [of mb m]
    by (auto simp: layout_ok_def ma_def mb_def write_ram_def)
  have chg: "mb x = m x" if "\<not> (t \<le> x \<and> x < t + 144)" "\<not> (clb \<le> x \<and> x < clb + 8)" for x
    using that by (auto simp: mb_def ma_def write_ram_def)
  have hdr: "read_ram clb 4 mb = u16_bytes flags @ u16_bytes 1"
  proof -
    have "read_ram clb 4 mb = read_ram clb 4 ma"
      using l unfolding mb_def by (intro read_write_ram_other) (auto simp: layout_ok_def)
    also have "\<dots> = take 4 (read_ram clb 8 ma)"
      by (simp add: read_ram_def take_map)
    also have "read_ram clb 8 ma = u16_bytes flags @ u16_bytes 1 @ u32_bytes 0"
      using read_write_ram [of clb "u16_bytes flags @ u16_bytes 1 @ u32_bytes 0" m] by (simp add: ma_def)
    finally show ?thesis by simp
  qed
  have tab: "read_ram t 144 mb = command_table opcode lba p"
    using read_write_ram [of t "command_table opcode lba p" ma] by (simp add: mb_def)
  have cmd: "command_at clb mb flags opcode lba p"
    using hdr tab tl by (simp add: command_at_def)
  have lay: "layout_ok hhdm t mb"
    using l tl by (simp add: layout_ok_def)
  have iss: "issue_command hw port flags opcode lba p hhdm (h, m) = Inr (True, u)"
    if "completes hw port k (hba_write hw port P_ci 1 (h1, mb)) u" for k u
    using l tl wait_ci_completes [OF that]
    unfolding issue_command_def Let_def h0 read_clb [OF h0(2)] read_clbu [OF h0(2)] prod.case base
      ma_def [symmetric] table_address_def [symmetric] tl mb_def [symmetric]
      wait_tfd_ready [OF h1(1,2)]
    by (simp add: layout_ok_def run_simps)
  from h1(3,4) h0(3) cmd lay chg iss show ?thesis by metis
qed

text \<open>
  The state of the disk adapter: an idle port, a free frame for the bounce buffer, and
  command structures that no free frame overlaps.
\<close>

definition disk_ok :: "nat \<Rightarrow> nat \<Rightarrow> 'h disk_state \<Rightarrow> bool" where
  "disk_ok hhdm t s \<longleftrightarrow> hok (controller s) \<and> layout_ok hhdm t (ram (pmem s)) \<and> allocator_inv (falloc (pmem s))
     \<and> (\<exists>f. refs (falloc (pmem s)) f = Some 0)
     \<and> (\<forall>f. refs (falloc (pmem s)) f = Some 0 \<longrightarrow> hhdm + f * FRAME_SIZE < 2 ^ 64
          \<and> (f * FRAME_SIZE + FRAME_SIZE \<le> clb \<or> clb + 32 \<le> f * FRAME_SIZE)
          \<and> (f * FRAME_SIZE + FRAME_SIZE \<le> t \<or> t + 144 \<le> f * FRAME_SIZE))"

lemma disk_frame:
  assumes "disk_ok hhdm t s"
  shows "\<exists>p a a'. allocate_contiguous_frames 1 (falloc (pmem s)) = Inr (Some p, a)
    \<and> deallocate_frame p a = Inr a' \<and> allocator_inv a' \<and> refs a' = refs (falloc (pmem s))
    \<and> hhdm + p < 2 ^ 64 \<and> even p \<and> (p + 4096 \<le> clb \<or> clb + 32 \<le> p) \<and> (p + 4096 \<le> t \<or> t + 144 \<le> p)"
proof -
  let ?a = "falloc (pmem s)"
  from assms have inv: "allocator_inv ?a" and ex: "\<exists>f. refs ?a f = Some 0"
    by (auto simp: disk_ok_def)
  obtain r a where al: "allocate_contiguous_frames 1 ?a = Inr (r, a)"
    using dma.acquire_total [OF inv] by blast
  obtain p where r: "r = Some p"
    using dma.acquire_None [OF inv, of a] al ex by (cases r) auto
  note al = al [unfolded r]
  obtain f where p: "p = f * FRAME_SIZE" and f: "refs ?a f = Some 0"
    using dma.acquire_Some [OF inv al] by (auto elim!: dvdE simp: FRAME_SIZE_def mult.commute)
  from assms f have "hhdm + p < 2 ^ 64" "p + 4096 \<le> clb \<or> clb + 32 \<le> p" "p + 4096 \<le> t \<or> t + 144 \<le> p"
    unfolding disk_ok_def p by (auto simp: FRAME_SIZE_def)
  moreover have "even p" by (simp add: p FRAME_SIZE_def)
  ultimately show ?thesis
    using al dma.acquire_release [OF inv al] by blast
qed

lemma read_law_ahci:
  assumes ok: "disk_ok hhdm t s" and lba: "lba < capacity"
  shows "\<exists>s'. ahci_read_block hw (Some hhdm) port lba 512 s = Inr (Inr (media (controller s) lba), s')
    \<and> disk_ok hhdm t s' \<and> media (controller s') = media (controller s)"
proof -
  obtain p a a' where fr: "allocate_contiguous_frames 1 (falloc (pmem s)) = Inr (Some p, a)"
      "deallocate_frame p a = Inr a'" "allocator_inv a'" "refs a' = refs (falloc (pmem s))"
      "hhdm + p < 2 ^ 64" "even p" "p + 4096 \<le> clb \<or> clb + 32 \<le> p" "p + 4096 \<le> t \<or> t + 144 \<le> p"
    using disk_frame [OF ok] by blast
  have h: "hok (controller s)" and l: "layout_ok hhdm t (ram (pmem s))"
    using ok by (auto simp: disk_ok_def)
  obtain h1 m1 where 1: "hok h1" "media h1 = media (controller s)" "command_at clb m1 5 0x25 lba p"
      "layout_ok hhdm t m1"
      "\<And>k u. completes hw port k (hba_write hw port P_ci 1 (h1, m1)) u \<Longrightarrow>
         issue_command hw port 5 0x25 lba p hhdm (controller s, ram (pmem s)) = Inr (True, u)"
    using issue_command_ok [OF h l] by metis
  obtain k h2 m2 where 2: "completes hw port k (hba_write hw port P_ci 1 (h1, m1)) (h2, m2)" "hok h2"
      "media h2 = media h1"
      "\<And>x. \<not> (p \<le> x \<and> x < p + 512) \<and> \<not> (clb + 4 \<le> x \<and> x < clb + 8) \<Longrightarrow> m2 x = m1 x"
      "p + 512 \<le> clb + 4 \<or> clb + 8 \<le> p \<Longrightarrow> read_ram p 512 m2 = media h1 lba"
    using dma_read [OF 1(1) lba 1(3)] fr(5,6) by (metis add_lessD1 add.commute)
  have data: "read_ram p 512 m2 = media (controller s) lba"
    using 2(5) fr(7) 1(2) by fastforce
  have lay: "layout_ok hhdm t m2"
    using layout_ok_cong [OF 1(4)] 2(4) fr(7) by fastforce
  let ?s' = "s\<lparr>controller := h2, pmem := \<lparr>falloc = a', ram = m2\<rparr>\<rparr>"
  have "ahci_read_block hw (Some hhdm) port lba 512 s = Inr (Inr (media (controller s) lba), ?s')"
    using fr(1,2,5) 1(5) [OF 2(1)] data port_bound
    by (simp add: ahci_read_block_def read_sector_def run_simps)
  moreover have "disk_ok hhdm t ?s'"
    using ok 2(2) lay fr(3,4) by (simp add: disk_ok_def)
  ultimately show ?thesis using 2(3) 1(2) by auto
qed

lemma write_law_ahci:
  assumes ok: "disk_ok hhdm t s" and lba: "lba < capacity" and n: "length bs = 512"
  shows "\<exists>s'. ahci_write_block hw (Some hhdm) port lba bs s = Inr (Inr (), s')
    \<and> disk_ok hhdm t s' \<and> media (controller s') = (media (controller s))(lba := bs)"
proof -
  obtain p a a' where fr: "allocate_contiguous_frames 1 (falloc (pmem s)) = Inr (Some p, a)"
      "deallocate_frame p a = Inr a'" "allocator_inv a'" "refs a' = refs (falloc (pmem s))"
      "hhdm + p < 2 ^ 64" "even p" "p + 4096 \<le> clb \<or> clb + 32 \<le> p" "p + 4096 \<le> t \<or> t + 144 \<le> p"
    using disk_frame [OF ok] by blast
  define m0 where "m0 = write_ram p bs (ram (pmem s))"
  have h: "hok (controller s)" and l: "layout_ok hhdm t m0"
    using ok fr(7) n layout_ok_cong [of hhdm t "ram (pmem s)" m0]
    by (auto simp: disk_ok_def m0_def write_ram_def)
  obtain h1 m1 where 1: "hok h1" "media h1 = media (controller s)" "command_at clb m1 0x45 0x35 lba p"
      "layout_ok hhdm t m1"
      "\<And>x. \<not> (t \<le> x \<and> x < t + 144) \<and> \<not> (clb \<le> x \<and> x < clb + 8) \<Longrightarrow> m1 x = m0 x"
      "\<And>k u. completes hw port k (hba_write hw port P_ci 1 (h1, m1)) u \<Longrightarrow>
         issue_command hw port 0x45 0x35 lba p hhdm (controller s, m0) = Inr (True, u)"
    using issue_command_ok [OF h l] by metis
  have data: "read_ram p 512 m1 = bs"
  proof -
    have "read_ram p 512 m1 = read_ram p 512 m0"
      using fr(7,8) by (intro read_ram_cong 1(5)) auto
    then show ?thesis using read_write_ram [of p bs "ram (pmem s)"] n by (simp add: m0_def)
  qed
  obtain k h2 m2 where 2: "completes hw port k (hba_write hw port P_ci 1 (h1, m1)) (h2, m2)" "hok h2"
      "media h2 = (media h1)(lba := read_ram p 512 m1)"
      "\<And>x. \<not> (clb + 4 \<le> x \<and> x < clb + 8) \<Longrightarrow> m2 x = m1 x"
    using dma_write [OF 1(1) lba 1(3)] fr(5,6) by (metis add_lessD1 add.commute)
  have lay: "layout_ok hhdm t m2"
    using layout_ok_cong [OF 1(4)] 2(4) by fastforce
  let ?s' = "s\<lparr>controller := h2, pmem := \<lparr>falloc = a', ram = m2\<rparr>\<rparr>"
  have "ahci_write_block hw (Some hhdm) port lba bs s = Inr (Inr (), ?s')"
    using fr(1,2,5) 1(6) [OF 2(1)] n port_bound
    by (auto simp: ahci_write_block_def write_sector_def run_simps m0_def)
  moreover have "disk_ok hhdm t ?s'"
    using ok 2(2) lay fr(3,4) by (simp add: disk_ok_def)
  ultimately show ?thesis using 2(3) 1(2) data by auto
qed

end

text \<open>Over such a controller the adapter is a sector store.\<close>

sublocale ahci_controller \<subseteq> disk: sector_store "ahci_disk hw (Some hhdm) port" "disk_ok hhdm t"
    "\<lambda>s. media (controller s)" capacity for hhdm t
  using read_law_ahci write_law_ahci media_length
  by unfold_locales (simp_all add: ahci_disk_def disk_ok_def)

section \<open>An emulated port\<close>

text \<open>
  A port that executes READ DMA EXT and WRITE DMA EXT at once from the command it finds in
  memory. It decodes the command table with its own arithmetic, so that the driver's
  encoding is checked against it.
\<close>

definition emu_exec :: "nat \<Rightarrow> (nat \<Rightarrow> u8 list) \<times> memory \<Rightarrow> (nat \<Rightarrow> u8 list) \<times> memory" where
  "emu_exec clb = (\<lambda>(h, m).
     let tab = read_ram (table_address clb m) 144 m;
         lba = le_nat (map (nth tab) [4, 5, 6, 8, 9, 10]);
         p = unat (get_u32 tab 128) + unat (get_u32 tab 132) * 2 ^ 32 in
     if tab ! 2 = 0x25 then (h, write_ram p (h lba) m)
     else if tab ! 2 = 0x35 then (h(lba := read_ram p 512 m), m)
     else (h, m))"

definition emu_hba :: "nat \<Rightarrow> (nat \<Rightarrow> u8 list) hba" where
  "emu_hba clb =
     \<lparr>hba_read = (\<lambda>port reg s.
        (case reg of P_clb \<Rightarrow> word_of_nat clb | P_clbu \<Rightarrow> word_of_nat (clb div 2 ^ 32) | P_tfd \<Rightarrow> 0x50 | _ \<Rightarrow> 0, s)),
      hba_write = (\<lambda>port reg v s. if reg = P_ci \<and> v = 1 then emu_exec clb s else s)\<rparr>"

lemma to_le_lba: "to_le 6 lba = [lba_byte lba 0, lba_byte lba 1, lba_byte lba 2, lba_byte lba 3, lba_byte lba 4, lba_byte lba 5]"
proof -
  have six: "6 = Suc (Suc (Suc (Suc (Suc (Suc 0)))))" by simp
  show ?thesis
    unfolding six to_le.simps lba_byte_def by (simp add: div_mult2_eq [symmetric])
qed

lemma lba_bytes: "lba < 2 ^ 48 \<Longrightarrow> le_nat (map (nth (command_table opcode lba p)) [4, 5, 6, 8, 9, 10]) = lba"
proof -
  assume l: "lba < 2 ^ 48"
  have "map (nth (command_table opcode lba p)) [4, 5, 6, 8, 9, 10] = to_le 6 lba"
    by (simp add: command_table_def command_fis_def to_le_lba)
  then show ?thesis using l le_nat_to_le [of 6 lba] by simp
qed

lemma buffer_bytes:
  "p < 2 ^ 64 \<Longrightarrow> unat (get_u32 (command_table opcode lba p) 128)
     + unat (get_u32 (command_table opcode lba p) 132) * 2 ^ 32 = p"
  by (simp add: command_table_def command_fis_def unat_of_nat take_bit_nat_def less_mult_imp_div_less)

lemma command_table_opcode: "command_table opcode lba p ! 2 = opcode"
  by (simp add: command_table_def command_fis_def)

interpretation emulated: ahci_controller "emu_hba (unat (base :: u64))" 0 "unat base" "min cap (2 ^ 48)"
    "image_ok cap" "\<lambda>h. h"
proof unfold_locales
  fix h :: "nat \<Rightarrow> u8 list" and lba m p
  let ?base = "unat base" and ?hw = "emu_hba (unat base)"
  assume a: "image_ok cap h" "lba < min cap (2 ^ 48)" "command_at ?base m 5 0x25 lba p" "p < 2 ^ 64"
  have "emu_exec ?base (h, m) = (h, write_ram p (h lba) m)"
    using a lba_bytes [of lba "0x25" p] buffer_bytes [of p "0x25" lba]
    by (simp add: emu_exec_def command_at_def command_table_opcode)
  then have "completes ?hw 0 0 (hba_write ?hw 0 P_ci 1 (h, m)) (h, write_ram p (h lba) m)"
    by (simp add: emu_hba_def)
  moreover have "read_ram p 512 (write_ram p (h lba) m) = h lba"
    using a read_write_ram [of p "h lba" m] by (simp add: image_ok_def)
  moreover have "write_ram p (h lba) m x = m x" if "\<not> (p \<le> x \<and> x < p + 512)" for x
    using a that by (auto simp: image_ok_def write_ram_def)
  ultimately show "\<exists>k h' m'. completes ?hw 0 k (hba_write ?hw 0 P_ci 1 (h, m)) (h', m')
      \<and> image_ok cap h' \<and> h' = h
      \<and> (\<forall>x. \<not> (p \<le> x \<and> x < p + 512) \<and> \<not> (?base + 4 \<le> x \<and> x < ?base + 8) \<longrightarrow> m' x = m x)
      \<and> (p + 512 \<le> ?base + 4 \<or> ?base + 8 \<le> p \<longrightarrow> read_ram p 512 m' = h lba)"
    using a(1) by metis
next
  fix h :: "nat \<Rightarrow> u8 list" and lba m p
  let ?base = "unat base" and ?hw = "emu_hba (unat base)"
  assume a: "image_ok cap h" "lba < min cap (2 ^ 48)" "command_at ?base m 0x45 0x35 lba p" "p < 2 ^ 64"
  have "emu_exec ?base (h, m) = (h(lba := read_ram p 512 m), m)"
    using a lba_bytes [of lba "0x35" p] buffer_bytes [of p "0x35" lba]
    by (simp add: emu_exec_def command_at_def command_table_opcode)
  then have "completes ?hw 0 0 (hba_write ?hw 0 P_ci 1 (h, m)) (h(lba := read_ram p 512 m), m)"
    by (simp add: emu_hba_def)
  moreover have "image_ok cap (h(lba := read_ram p 512 m))"
    using a(1) by (simp add: image_ok_def)
  ultimately show "\<exists>k h' m'. completes ?hw 0 k (hba_write ?hw 0 P_ci 1 (h, m)) (h', m')
      \<and> image_ok cap h' \<and> h' = h(lba := read_ram p 512 m)
      \<and> (\<forall>x. \<not> (?base + 4 \<le> x \<and> x < ?base + 8) \<longrightarrow> m' x = m x)"
    using a(1) by metis
qed (use unsigned_less [where w = base and ?'a = nat] in \<open>auto simp: emu_hba_def image_ok_def\<close>)

section \<open>Properties\<close>

text \<open>
  C27: whatever the controller does, a block read or write that returns, with success or any
  error, leaves the reference count of every physical frame as it was: the bounce buffer
  is given back on every path.
\<close>

theorem disk_never_leaks_frames:
  assumes inv: "allocator_inv (falloc (pmem s))"
  shows "(ahci_read_block hw hhdm port lba n s = Inr (res, s') \<longrightarrow>
       allocator_inv (falloc (pmem s')) \<and> refs (falloc (pmem s')) = refs (falloc (pmem s)))
    \<and> (ahci_write_block hw hhdm port lba buf s = Inr (res', s'') \<longrightarrow>
       allocator_inv (falloc (pmem s'')) \<and> refs (falloc (pmem s'')) = refs (falloc (pmem s)))"
  using ahci_read_block_frames [OF inv] ahci_write_block_frames [OF inv] by blast

text \<open>
  C12: over a controller that follows the AHCI protocol the adapter stores sectors: what was
  written to a sector is what the next read returns, whichever sector is read, for every
  command table address and direct map offset.
\<close>

theorem ahci_read_after_write:
  assumes hw: "ahci_controller hw port clb capacity hok media"
    and ok: "ahci_controller.disk_ok clb hok hhdm t s"
    and lba: "lba < capacity" "other < capacity" and n: "length bs = 512"
  shows "\<exists>s' s''. ahci_write_block hw (Some hhdm) port lba bs s = Inr (Inr (), s')
    \<and> ahci_read_block hw (Some hhdm) port other 512 s'
        = Inr (Inr (if other = lba then bs else media (controller s) other), s'')
    \<and> ahci_controller.disk_ok clb hok hhdm t s''"
proof -
  obtain s' where s': "ahci_write_block hw (Some hhdm) port lba bs s = Inr (Inr (), s')"
      "ahci_controller.disk_ok clb hok hhdm t s'" "media (controller s') = (media (controller s))(lba := bs)"
    using ahci_controller.write_law_ahci [OF hw ok lba(1) n] by blast
  then show ?thesis
    using ahci_controller.read_law_ahci [OF hw s'(2) lba(2)] by auto
qed


section \<open>Witnesses\<close>

definition hung_hba :: "unit hba" where
  "hung_hba = \<lparr>hba_read = (\<lambda>port reg s. (if reg = P_tfd then 0x80 else 0, s)), hba_write = (\<lambda>port reg v s. s)\<rparr>"


text \<open>A disk of 16 sectors; the command list is at 1024, the command table at 2048, both in frame 0.\<close>

definition demo_disk :: "(nat \<Rightarrow> u8 list) disk_state" where
  "demo_disk = \<lparr>controller = (\<lambda>_. replicate 512 0),
     pmem = \<lparr>falloc = two_frames, ram = write_ram 1032 (u32_bytes 2048) (\<lambda>_. 0)\<rparr>\<rparr>"

lemma demo_table: "table_address 1024 (ram (pmem demo_disk)) = 2048"
proof -
  have "read_ram 1032 4 (ram (pmem demo_disk)) = u32_bytes 2048"
    using read_write_ram [of 1032 "u32_bytes 2048" "\<lambda>_. 0"] by (simp add: demo_disk_def)
  moreover have "read_ram 1036 4 (ram (pmem demo_disk)) = read_ram 1036 4 (\<lambda>_. 0)"
    using read_write_ram_other [of 1036 4 1032 "u32_bytes 2048" "\<lambda>_. 0"] by (simp add: demo_disk_def)
  moreover have "le_nat (read_ram 1036 4 (\<lambda>_. 0)) = 0"
    by (simp add: read_ram_def upt_rec)
  moreover have "le_nat (u32_bytes 2048) = 2048"
    by (simp add: u32_bytes_def le_nat_to_le)
  ultimately show ?thesis by (simp add: table_address_def read_u32_ram_def)
qed

lemma demo_free: "refs two_frames f = Some 0 \<longleftrightarrow> f = 1"
  by (auto simp: refs_def two_frames_def less_2_cases_iff)

lemma demo_disk_ok: "ahci_controller.disk_ok (unat (1024 :: u64)) (image_ok 16) 0 2048 demo_disk"
proof -
  have f: "falloc (pmem demo_disk) = two_frames" "image_ok 16 (controller demo_disk)"
    by (simp_all add: demo_disk_def image_ok_def)
  have "ahci_controller.layout_ok (unat (1024 :: u64)) 0 2048 (ram (pmem demo_disk))"
    unfolding emulated.layout_ok_def by (simp add: demo_table)
  then show ?thesis
    unfolding emulated.disk_ok_def f using f(2) two_frames_inv by (simp add: demo_free FRAME_SIZE_def)
qed

theorem ahci_read_after_write_witness:
  "\<exists>s' s''. ahci_write_block (emu_hba 1024) (Some 0) 0 5 (replicate 512 7) demo_disk = Inr (Inr (), s')
     \<and> ahci_read_block (emu_hba 1024) (Some 0) 0 5 512 s' = Inr (Inr (replicate 512 7), s'')"
  using ahci_read_after_write [OF emulated.ahci_controller_axioms demo_disk_ok, of 5 5 "replicate 512 7"] by auto

theorem disk_never_leaks_frames_witness:
  "allocator_inv (falloc (pmem demo_disk))
   \<and> (\<exists>s'. ahci_read_block (emu_hba 1024) (Some 0) 0 5 512 demo_disk = Inr (Inr (replicate 512 0), s')
        \<and> refs (falloc (pmem s')) = refs two_frames)"
proof -
  have inv: "allocator_inv (falloc (pmem demo_disk))" by (simp add: demo_disk_def two_frames_inv)
  obtain s' where "ahci_read_block (emu_hba 1024) (Some 0) 0 5 512 demo_disk = Inr (Inr (replicate 512 0), s')"
    using emulated.read_law_ahci [OF demo_disk_ok, of 5] by (auto simp: demo_disk_def)
  then show ?thesis
    using inv disk_never_leaks_frames [OF inv] by (fastforce simp: demo_disk_def)
qed

end
