(* ===== verification/Display.thy ===== *)
theory Display
  imports Kernel_Base
begin

text \<open>
  The display stack of \<^verbatim>\<open>src/drivers/display\<close>: the linear framebuffer of \<^verbatim>\<open>fb.rs\<close>, the terminal with
  its escape sequence parser of \<^verbatim>\<open>tty.rs\<close>, and the global writer of \<^verbatim>\<open>mod.rs\<close>. The framebuffer
  memory is indexed from its base pointer; the glyphs of the \<^verbatim>\<open>font8x8\<close> crate are a parameter.
  The lemmas show that no input makes the terminal panic or write outside the framebuffer.
\<close>

section \<open>The framebuffer\<close>

type_synonym rgb = "u8 \<times> u8 \<times> u8"

record FrameBuffer =
  fb_width :: nat
  fb_height :: nat
  fb_pitch :: nat
  bytes_per_pixel :: nat
  fb_mem :: memory

definition FrameBuffer_new :: "memory \<Rightarrow> nat \<Rightarrow> nat \<Rightarrow> nat \<Rightarrow> nat \<Rightarrow> FrameBuffer" where
  "FrameBuffer_new m w h p bpp =
     \<lparr>fb_width = w, fb_height = h, fb_pitch = p, bytes_per_pixel = bpp div 8, fb_mem = m\<rparr>"

text \<open>The three byte stores at the offset of a pixel.\<close>

definition put_pixel :: "nat \<Rightarrow> nat \<Rightarrow> rgb \<Rightarrow> FrameBuffer \<Rightarrow> FrameBuffer run" where
  "put_pixel x y color fb =
     (case color of (r, g, b) \<Rightarrow>
      bindR (mul64 y (fb_pitch fb)) (\<lambda>row.
      bindR (mul64 x (bytes_per_pixel fb)) (\<lambda>col.
      bindR (add64 row col) (\<lambda>offset.
      bindR (add64 offset 2) (\<lambda>_.
      Inr (fb\<lparr>fb_mem := write_ram offset [r, g, b] (fb_mem fb)\<rparr>))))))"

definition draw_pixel :: "nat \<Rightarrow> nat \<Rightarrow> rgb \<Rightarrow> FrameBuffer \<Rightarrow> FrameBuffer run" where
  "draw_pixel x y color fb =
     (if x < fb_width fb \<and> y < fb_height fb then put_pixel x y color fb else Inr fb)"

definition fill_rect :: "nat \<Rightarrow> nat \<Rightarrow> nat \<Rightarrow> nat \<Rightarrow> rgb \<Rightarrow> FrameBuffer \<Rightarrow> FrameBuffer run" where
  "fill_rect x y w h color =
     foldR (\<lambda>row_i. foldR (\<lambda>col_i fb.
       bindR (add64 x col_i) (\<lambda>px.
       bindR (add64 y row_i) (\<lambda>py. draw_pixel px py color fb))) [0 ..< w]) [0 ..< h]"

definition fb_clear :: "rgb \<Rightarrow> FrameBuffer \<Rightarrow> FrameBuffer run" where
  "fb_clear color fb =
     foldR (\<lambda>y. foldR (\<lambda>x fb. put_pixel x y color fb) [0 ..< fb_width fb]) [0 ..< fb_height fb] fb"

definition draw_char ::
    "(u8 \<Rightarrow> u8 list option) \<Rightarrow> nat \<Rightarrow> nat \<Rightarrow> u8 \<Rightarrow> rgb \<Rightarrow> rgb \<Rightarrow> FrameBuffer \<Rightarrow> FrameBuffer run" where
  "draw_char font x y byte fg bg =
     (let glyph = (case font byte of None \<Rightarrow> replicate 8 0 | Some g \<Rightarrow> g) in
      foldR (\<lambda>(row_i, row). foldR (\<lambda>bit_i fb.
        bindR (add64 x bit_i) (\<lambda>px.
        bindR (add64 y row_i) (\<lambda>py.
        draw_pixel px py (if bit row bit_i then fg else bg) fb))) [0 ..< 8]) (enumerate 0 glyph))"

section \<open>The terminal\<close>

definition BG_DEFAULT :: rgb where "BG_DEFAULT = (0, 0, 0)"
definition FG_DEFAULT :: rgb where "FG_DEFAULT = (170, 170, 170)"

definition ANSI_COLORS :: "rgb list" where
  "ANSI_COLORS = [(0, 0, 0), (0, 0, 170), (0, 170, 0), (0, 170, 170),
                  (170, 0, 0), (170, 0, 170), (170, 170, 0), (170, 170, 170)]"

datatype AnsiState = Normal | Escape | Csi

record Writer =
  fb :: FrameBuffer
  x_pos :: nat
  y_pos :: nat
  fg_color :: rgb
  bg_color :: rgb
  ansi_state :: AnsiState
  ansi_params :: "u32 list"
  ansi_param_idx :: nat
  ansi_current_val :: u32

definition reset_cursor :: "Writer \<Rightarrow> Writer" where
  "reset_cursor w = w\<lparr>x_pos := 0, y_pos := 0\<rparr>"

text \<open>An operation on the framebuffer inside the writer.\<close>

definition with_fb :: "(FrameBuffer \<Rightarrow> FrameBuffer run) \<Rightarrow> Writer \<Rightarrow> Writer run" where
  "with_fb f w = bindR (f (fb w)) (\<lambda>b. Inr (w\<lparr>fb := b\<rparr>))"

definition clear_screen :: "Writer \<Rightarrow> Writer run" where
  "clear_screen w = with_fb (fb_clear (bg_color w)) w"

definition draw_cursor :: "Writer \<Rightarrow> Writer run" where
  "draw_cursor w = bindR (add64 (y_pos w) 6) (\<lambda>y. with_fb (fill_rect (x_pos w) y 8 2 FG_DEFAULT) w)"

definition erase_cursor :: "Writer \<Rightarrow> Writer run" where
  "erase_cursor w = bindR (add64 (y_pos w) 6) (\<lambda>y. with_fb (fill_rect (x_pos w) y 8 2 (bg_color w)) w)"

definition Writer_new :: "memory \<Rightarrow> nat \<Rightarrow> nat \<Rightarrow> nat \<Rightarrow> nat \<Rightarrow> Writer run" where
  "Writer_new m width height pitch bpp =
     bindR (clear_screen
       \<lparr>fb = FrameBuffer_new m width height pitch bpp, x_pos = 0, y_pos = 0,
        fg_color = FG_DEFAULT, bg_color = BG_DEFAULT, ansi_state = Normal,
        ansi_params = [0, 0, 0, 0], ansi_param_idx = 0, ansi_current_val = 0\<rparr>) draw_cursor"

definition new_line :: "Writer \<Rightarrow> Writer run" where
  "new_line w =
     bindR (add64 (y_pos w) 8) (\<lambda>y.
     bindR (add64 y 8) (\<lambda>bottom.
     if fb_height (fb w) \<le> bottom then clear_screen (w\<lparr>x_pos := 0, y_pos := 0\<rparr>)
     else Inr (w\<lparr>x_pos := 0, y_pos := y\<rparr>)))"

definition backspace :: "Writer \<Rightarrow> Writer run" where
  "backspace w =
     bindR (if 8 \<le> x_pos w then Inr (w\<lparr>x_pos := x_pos w - 8\<rparr>)
            else if 8 \<le> y_pos w
            then bindR (sub64 (fb_width (fb w) - fb_width (fb w) mod 8) 8) (\<lambda>x.
                 Inr (w\<lparr>y_pos := y_pos w - 8, x_pos := x\<rparr>))
            else Inr w) (\<lambda>w1.
     with_fb (fill_rect (x_pos w1) (y_pos w1) 8 8 (bg_color w1)) w1)"

definition print_char :: "(u8 \<Rightarrow> u8 list option) \<Rightarrow> u8 \<Rightarrow> Writer \<Rightarrow> Writer run" where
  "print_char font byte w =
     bindR (add64 (x_pos w) 8) (\<lambda>right.
     bindR (if fb_width (fb w) \<le> right then new_line w else Inr w) (\<lambda>w1.
     bindR (with_fb (draw_char font (x_pos w1) (y_pos w1) byte (fg_color w1) (bg_color w1)) w1) (\<lambda>w2.
     bindR (add64 (x_pos w2) 8) (\<lambda>x. Inr (w2\<lparr>x_pos := x\<rparr>)))))"

text \<open>One parameter of the colour command.\<close>

definition set_graphics :: "u32 \<Rightarrow> Writer \<Rightarrow> Writer run" where
  "set_graphics code w =
     (if code = 0 then Inr (w\<lparr>fg_color := FG_DEFAULT, bg_color := BG_DEFAULT\<rparr>)
      else if 30 \<le> code \<and> code \<le> 37
      then bindR (idx ANSI_COLORS (unat (code - 30))) (\<lambda>c. Inr (w\<lparr>fg_color := c\<rparr>))
      else if 40 \<le> code \<and> code \<le> 47
      then bindR (idx ANSI_COLORS (unat (code - 40))) (\<lambda>c. Inr (w\<lparr>bg_color := c\<rparr>))
      else Inr w)"

definition execute_ansi_cmd :: "u8 \<Rightarrow> Writer \<Rightarrow> Writer run" where
  "execute_ansi_cmd cmd w =
     (if cmd = 0x6D
      then foldR (\<lambda>i w. bindR (idx (ansi_params w) i) (\<lambda>code. set_graphics code w)) [0 ..< ansi_param_idx w] w
      else if cmd = 0x4A
      then bindR (idx (ansi_params w) 0) (\<lambda>p.
           if p = 2 then bindR (clear_screen w) (\<lambda>w1. Inr (reset_cursor w1)) else Inr w)
      else if cmd = 0x48
      then bindR (idx (ansi_params w) 0) (\<lambda>py.
           bindR (idx (ansi_params w) 1) (\<lambda>px.
           bindR (mul64 (unat px - 1) 8) (\<lambda>x.
           bindR (mul64 (unat py - 1) 8) (\<lambda>y. Inr (w\<lparr>x_pos := x, y_pos := y\<rparr>)))))
      else if cmd = 0x4B
      then bindR (if 0 < ansi_param_idx w then idx (ansi_params w) 0 else Inr 0) (\<lambda>mode.
           if mode = 0
           then with_fb (fill_rect (x_pos w) (y_pos w) (fb_width (fb w) - x_pos w) 8 (bg_color w)) w
           else Inr w)
      else Inr w)"

text \<open>Storing the number read so far as the next parameter, when there is room.\<close>

definition store_param :: "Writer \<Rightarrow> Writer run" where
  "store_param w =
     (if ansi_param_idx w < 4
      then bindR (upd (ansi_params w) (ansi_param_idx w) (ansi_current_val w)) (\<lambda>ps.
           Inr (w\<lparr>ansi_params := ps, ansi_param_idx := ansi_param_idx w + 1\<rparr>))
      else Inr w)"

definition write_byte :: "(u8 \<Rightarrow> u8 list option) \<Rightarrow> u8 \<Rightarrow> Writer \<Rightarrow> Writer run" where
  "write_byte font byte w =
     (case ansi_state w of
        Normal \<Rightarrow>
          if byte = 0x1B then Inr (w\<lparr>ansi_state := Escape\<rparr>)
          else if byte = 0x0A then new_line w
          else if byte = 0x0D then Inr (w\<lparr>x_pos := 0\<rparr>)
          else if byte = 0x08 then backspace w
          else if 0x20 \<le> byte \<and> byte \<le> 0x7E then print_char font byte w
          else Inr w
      | Escape \<Rightarrow>
          if byte = 0x5B
          then Inr (w\<lparr>ansi_state := Csi, ansi_params := [0, 0, 0, 0], ansi_param_idx := 0, ansi_current_val := 0\<rparr>)
          else Inr (w\<lparr>ansi_state := Normal\<rparr>)
      | Csi \<Rightarrow>
          if 0x30 \<le> byte \<and> byte \<le> 0x39
          then Inr (w\<lparr>ansi_current_val := ansi_current_val w * 10 + ucast (byte - 0x30)\<rparr>)
          else if byte = 0x3B
          then bindR (store_param w) (\<lambda>w1. Inr (w1\<lparr>ansi_current_val := 0\<rparr>))
          else bindR (store_param w) (\<lambda>w1.
               bindR (execute_ansi_cmd byte w1) (\<lambda>w2. Inr (w2\<lparr>ansi_state := Normal\<rparr>))))"

definition write_str :: "(u8 \<Rightarrow> u8 list option) \<Rightarrow> u8 list \<Rightarrow> Writer \<Rightarrow> Writer run" where
  "write_str font = foldR (write_byte font)"

section \<open>The global writer\<close>

definition print :: "(u8 \<Rightarrow> u8 list option) \<Rightarrow> u8 list \<Rightarrow> Writer option \<Rightarrow> Writer option run" where
  "print font text writer =
     (case writer of
        None \<Rightarrow> Inr None
      | Some w \<Rightarrow>
          bindR (erase_cursor w) (\<lambda>w1.
          bindR (write_str font text w1) (\<lambda>w2.
          bindR (draw_cursor w2) (\<lambda>w3. Inr (Some w3)))))"

text \<open>The framebuffer of the boot loader, when there is one: base memory and geometry.\<close>

record boot_framebuffer =
  bf_mem :: memory
  bf_width :: nat
  bf_height :: nat
  bf_pitch :: nat
  bf_bpp :: nat

definition display_init :: "boot_framebuffer option \<Rightarrow> Writer option run" where
  "display_init response =
     (case response of
        None \<Rightarrow> Inr None
      | Some f \<Rightarrow>
          bindR (fb_clear (0, 0, 0) (FrameBuffer_new (bf_mem f) (bf_width f) (bf_height f) (bf_pitch f) (bf_bpp f))) (\<lambda>b.
          bindR (Writer_new (fb_mem b) (bf_width f) (bf_height f) (bf_pitch f) (bf_bpp f)) (\<lambda>w. Inr (Some w))))"

section \<open>Safety\<close>

text \<open>
  A framebuffer whose lines hold their pixels, with at least three bytes each, and whose size
  leaves no room for overflow.
\<close>

definition fb_ok :: "FrameBuffer \<Rightarrow> bool" where
  "fb_ok b \<longleftrightarrow> 8 \<le> fb_width b \<and> fb_width b < 2 ^ 32 \<and> fb_height b < 2 ^ 32 \<and> fb_pitch b < 2 ^ 31
     \<and> 3 \<le> bytes_per_pixel b \<and> fb_width b * bytes_per_pixel b \<le> fb_pitch b"

text \<open>Two framebuffers that differ at most in the bytes of the screen.\<close>

definition fb_same :: "FrameBuffer \<Rightarrow> FrameBuffer \<Rightarrow> bool" where
  "fb_same b b' \<longleftrightarrow> fb_width b' = fb_width b \<and> fb_height b' = fb_height b \<and> fb_pitch b' = fb_pitch b
     \<and> bytes_per_pixel b' = bytes_per_pixel b
     \<and> (\<forall>i. fb_pitch b * fb_height b \<le> i \<longrightarrow> fb_mem b' i = fb_mem b i)"

lemma fb_same_refl [simp]: "fb_same b b"
  by (simp add: fb_same_def)

lemma fb_same_trans: "fb_same a b \<Longrightarrow> fb_same b c \<Longrightarrow> fb_same a c"
  by (simp add: fb_same_def)

lemma fb_same_ok: "fb_same b b' \<Longrightarrow> fb_ok b' = fb_ok b"
  by (simp add: fb_same_def fb_ok_def)

definition fb_safe :: "(FrameBuffer \<Rightarrow> FrameBuffer run) \<Rightarrow> bool" where
  "fb_safe f \<longleftrightarrow> (\<forall>b. fb_ok b \<longrightarrow> (\<exists>b'. f b = Inr b' \<and> fb_same b b'))"

lemma fb_safe_foldR:
  assumes "\<And>i. i \<in> set xs \<Longrightarrow> fb_safe (f i)"
  shows "fb_safe (foldR f xs)"
  unfolding fb_safe_def
proof (intro allI impI)
  fix b assume b: "fb_ok b"
  have "\<exists>b'. foldR f xs b = Inr b' \<and> fb_same b b'"
  proof (rule foldR_inv [where I = "fb_same b"])
    fix i c assume "i \<in> set xs" "fb_same b c"
    then show "\<exists>b'. f i c = Inr b' \<and> fb_same b b'"
      using assms [of i] b fb_same_ok fb_same_trans unfolding fb_safe_def by metis
  qed simp
  then show "\<exists>b'. foldR f xs b = Inr b' \<and> fb_same b b'" .
qed

lemma put_pixel_safe:
  assumes b: "fb_ok b" and x: "x < fb_width b" and y: "y < fb_height b"
  shows "\<exists>b'. put_pixel x y color b = Inr b' \<and> fb_same b b'"
proof -
  obtain r g c where col: "color = (r, g, c)" by (cases color) auto
  let ?o = "y * fb_pitch b + x * bytes_per_pixel b"
  have "x * bytes_per_pixel b + bytes_per_pixel b \<le> fb_width b * bytes_per_pixel b"
    using x by (metis Suc_leI add.commute mult_Suc mult_le_mono1)
  then have e: "x * bytes_per_pixel b + 3 \<le> fb_pitch b" using b by (auto simp: fb_ok_def)
  have "y * fb_pitch b + fb_pitch b \<le> fb_height b * fb_pitch b"
    using y by (metis Suc_leI add.commute mult_Suc mult_le_mono1)
  then have o: "?o + 3 \<le> fb_pitch b * fb_height b" using e by (simp add: mult.commute)
  have "fb_height b * fb_pitch b < 2 ^ 64"
    using b by (intro mul_fits [where i = 32 and j = 31]) (auto simp: fb_ok_def)
  then have "?o + 3 < 2 ^ 64" using o by (simp add: mult.commute)
  then have "put_pixel x y color b = Inr (b\<lparr>fb_mem := write_ram ?o [r, g, c] (fb_mem b)\<rparr>)"
    by (simp add: put_pixel_def col add_w_def mul_w_def)
  moreover have "fb_same b (b\<lparr>fb_mem := write_ram ?o [r, g, c] (fb_mem b)\<rparr>)"
    using o by (auto simp: fb_same_def write_ram_def)
  ultimately show ?thesis by blast
qed

lemma draw_pixel_safe: "fb_safe (draw_pixel x y color)"
  using put_pixel_safe by (auto simp: fb_safe_def draw_pixel_def)

text \<open>A pixel at checked coordinates, as the rectangle and glyph loops compute them.\<close>

lemma draw_at_safe:
  "x + i < 2 ^ 64 \<Longrightarrow> y + j < 2 ^ 64 \<Longrightarrow>
   fb_safe (\<lambda>b. bindR (add64 x i) (\<lambda>px. bindR (add64 y j) (\<lambda>py. draw_pixel px py color b)))"
  using draw_pixel_safe by (simp add: add_w_def)

lemma fill_rect_safe: "x + w < 2 ^ 64 \<Longrightarrow> y + h < 2 ^ 64 \<Longrightarrow> fb_safe (fill_rect x y w h color)"
  unfolding fill_rect_def by (intro fb_safe_foldR draw_at_safe) auto

lemma draw_char_safe:
  assumes "x + 8 < 2 ^ 64" and "y + 2 ^ 16 < 2 ^ 64" and "\<And>g. font c = Some g \<Longrightarrow> length g \<le> 2 ^ 16"
  shows "fb_safe (draw_char font x y c fg bg)"
proof -
  define K where "K = [0 ..< 8 :: nat]"
  have K: "i \<in> set K \<Longrightarrow> x + i < 2 ^ 64" for i
    using assms(1) unfolding K_def set_upt by (simp del: upt_rec_numeral)
  have "fb_safe ((\<lambda>(row_i, row). foldR (\<lambda>bit_i fb.
        bindR (add64 x bit_i) (\<lambda>px. bindR (add64 y row_i) (\<lambda>py.
        draw_pixel px py (if bit row bit_i then fg else bg) fb))) K) e)" if "fst e < 2 ^ 16" for e :: "nat \<times> u8"
    using that assms(2) K by (cases e) (auto intro!: fb_safe_foldR draw_at_safe simp del: upt_rec_numeral)
  moreover have "fst e < 2 ^ 16" if "e \<in> set (enumerate 0 (case font c of None \<Rightarrow> replicate 8 0 | Some g \<Rightarrow> g))" for e
    using that assms(3) by (auto simp: in_set_enumerate_eq split: option.splits)
  ultimately show ?thesis unfolding draw_char_def Let_def K_def [symmetric] by (intro fb_safe_foldR) blast
qed

lemma fb_clear_safe: "fb_ok b \<Longrightarrow> \<exists>b'. fb_clear color b = Inr b' \<and> fb_same b b'"
proof -
  assume b: "fb_ok b"
  have row: "\<exists>c'. foldR (\<lambda>x b. put_pixel x y color b) [0 ..< fb_width b] c = Inr c' \<and> fb_same b c'"
    if y: "y < fb_height b" and c: "fb_same b c" for y c
  proof (rule foldR_inv [where I = "fb_same b"])
    fix x d assume "x \<in> set [0 ..< fb_width b]" and d: "fb_same b d"
    then have "fb_ok d" "x < fb_width d" "y < fb_height d" using b y fb_same_ok [OF d] by (auto simp: fb_same_def)
    then show "\<exists>b'. put_pixel x y color d = Inr b' \<and> fb_same b b'"
      using put_pixel_safe fb_same_trans [OF d] by meson
  qed (rule c)
  show ?thesis
    unfolding fb_clear_def by (rule foldR_inv [where I = "fb_same b"]) (auto intro: row)
qed

section \<open>The terminal\<close>

definition writer_ok :: "Writer \<Rightarrow> bool" where
  "writer_ok w \<longleftrightarrow> fb_ok (fb w) \<and> x_pos w < 2 ^ 36 \<and> y_pos w < 2 ^ 36
     \<and> length (ansi_params w) = 4 \<and> ansi_param_idx w \<le> 4"

text \<open>An operation that returns, keeps the writer well-formed and touches only the screen.\<close>

definition tty_safe :: "(Writer \<Rightarrow> Writer run) \<Rightarrow> Writer \<Rightarrow> bool" where
  "tty_safe f w \<longleftrightarrow> (\<exists>w'. f w = Inr w' \<and> writer_ok w' \<and> fb_same (fb w) (fb w'))"

lemma with_fb_safe:
  assumes "writer_ok w" and "\<exists>b. f (fb w) = Inr b \<and> fb_same (fb w) b"
  shows "\<exists>b. with_fb f w = Inr (w\<lparr>fb := b\<rparr>) \<and> writer_ok (w\<lparr>fb := b\<rparr>) \<and> fb_same (fb w) b"
  using assms by (auto simp: with_fb_def writer_ok_def fb_same_ok)

lemma with_rect_safe:
  assumes "writer_ok w" and "x + width < 2 ^ 64" and "y + h < 2 ^ 64"
  shows "tty_safe (with_fb (fill_rect x y width h color)) w"
proof -
  have "\<exists>b. fill_rect x y width h color (fb w) = Inr b \<and> fb_same (fb w) b"
    using fill_rect_safe [OF assms(2,3)] assms(1) by (simp add: fb_safe_def writer_ok_def)
  from with_fb_safe [of w "fill_rect x y width h color", OF assms(1) this] show ?thesis by (auto simp: tty_safe_def)
qed

lemma clear_screen_safe: "writer_ok w \<Longrightarrow> \<exists>b. clear_screen w = Inr (w\<lparr>fb := b\<rparr>) \<and> writer_ok (w\<lparr>fb := b\<rparr>) \<and> fb_same (fb w) b"
  using with_fb_safe [of w] fb_clear_safe unfolding clear_screen_def by (metis writer_ok_def)

lemma cursor_safe: "writer_ok w \<Longrightarrow> tty_safe draw_cursor w" "writer_ok w \<Longrightarrow> tty_safe erase_cursor w"
proof -
  assume w: "writer_ok w"
  then have y: "y_pos w + 6 < 2 ^ 64" by (simp add: writer_ok_def)
  show "tty_safe draw_cursor w" "tty_safe erase_cursor w"
    using w y with_rect_safe [OF w, of "x_pos w" 8 "y_pos w + 6" 2]
    by (simp_all add: tty_safe_def draw_cursor_def erase_cursor_def add_w_def writer_ok_def)
qed

lemma new_line_safe:
  assumes w: "writer_ok w"
  shows "\<exists>w'. new_line w = Inr w' \<and> writer_ok w' \<and> fb_same (fb w) (fb w') \<and> x_pos w' = 0"
proof -
  have y: "y_pos w + 16 < 2 ^ 64" using w by (simp add: writer_ok_def)
  let ?w = "w\<lparr>x_pos := 0, y_pos := 0\<rparr>"
  have "writer_ok ?w" using w by (simp add: writer_ok_def)
  from clear_screen_safe [OF this] have c: "\<exists>w'. clear_screen ?w = Inr w' \<and> writer_ok w' \<and> fb_same (fb w) (fb w') \<and> x_pos w' = 0"
    by auto
  show ?thesis
  proof (cases "fb_height (fb w) \<le> y_pos w + 16")
    case True
    then show ?thesis using c y by (simp add: new_line_def add_w_def)
  next
    case False
    moreover have "fb_height (fb w) < 2 ^ 32" using w by (simp add: writer_ok_def fb_ok_def)
    ultimately show ?thesis using w y by (simp add: new_line_def add_w_def writer_ok_def)
  qed
qed

lemma backspace_safe:
  assumes w: "writer_ok w"
  shows "tty_safe backspace w"
proof -
  have wd: "8 \<le> fb_width (fb w)" "fb_width (fb w) < 2 ^ 32" using w by (auto simp: writer_ok_def fb_ok_def)
  have m: "8 \<le> fb_width (fb w) - fb_width (fb w) mod 8"
    using wd(1) by (simp add: minus_mod_eq_mult_div Suc_le_eq div_greater_zero_iff)
  define w1 where "w1 = (if 8 \<le> x_pos w then w\<lparr>x_pos := x_pos w - 8\<rparr>
     else if 8 \<le> y_pos w then w\<lparr>y_pos := y_pos w - 8, x_pos := fb_width (fb w) - fb_width (fb w) mod 8 - 8\<rparr> else w)"
  have w1: "writer_ok w1" "fb w1 = fb w" using w wd by (auto simp: w1_def writer_ok_def)
  have "backspace w = with_fb (fill_rect (x_pos w1) (y_pos w1) 8 8 (bg_color w1)) w1"
    using m by (simp add: backspace_def w1_def sub_w_def)
  then show ?thesis
    using with_rect_safe [OF w1(1), of "x_pos w1" 8 "y_pos w1" 8] w1 by (simp add: tty_safe_def writer_ok_def)
qed

lemma print_char_safe:
  assumes w: "writer_ok w" and font: "\<forall>c g. font c = Some g \<longrightarrow> length g = 8"
  shows "tty_safe (print_char font byte) w"
proof -
  have r: "x_pos w + 8 < 2 ^ 64" using w by (simp add: writer_ok_def)
  obtain w1 where w1: "(if fb_width (fb w) \<le> x_pos w + 8 then new_line w else Inr w) = Inr w1"
      "writer_ok w1" "fb_same (fb w) (fb w1)" "x_pos w1 + 8 < 2 ^ 36"
  proof (cases "fb_width (fb w) \<le> x_pos w + 8")
    case True
    then show ?thesis using new_line_safe [OF w] that by auto
  next
    case False
    then show ?thesis using w by (intro that [of w]) (auto simp: writer_ok_def fb_ok_def)
  qed
  have "fb_safe (draw_char font (x_pos w1) (y_pos w1) byte (fg_color w1) (bg_color w1))"
    using w1(2,4) font by (intro draw_char_safe) (auto simp: writer_ok_def)
  then obtain b where b: "with_fb (draw_char font (x_pos w1) (y_pos w1) byte (fg_color w1) (bg_color w1)) w1 = Inr (w1\<lparr>fb := b\<rparr>)"
      "writer_ok (w1\<lparr>fb := b\<rparr>)" "fb_same (fb w1) b"
    using with_fb_safe [OF w1(2)] w1(2) by (metis fb_safe_def writer_ok_def)
  have "print_char font byte w = Inr (w1\<lparr>fb := b, x_pos := x_pos w1 + 8\<rparr>)"
    using r w1(1,4) b(1) by (simp add: print_char_def add_w_def)
  then show ?thesis
    using b(2,3) w1(3,4) fb_same_trans by (auto simp: tty_safe_def writer_ok_def)
qed

lemma set_graphics_safe:
  assumes "writer_ok w"
  shows "\<exists>w'. set_graphics code w = Inr w' \<and> writer_ok w' \<and> fb w' = fb w \<and> ansi_params w' = ansi_params w"
proof -
  have "unat (code - k) < 8" if "k \<le> code" "code \<le> k + 7" "unat k + 7 < 2 ^ 32" for k :: u32
  proof -
    have "unat (k + 7) = unat k + 7" using that(3) by (simp add: unat_word_ariths)
    then show ?thesis using that(1,2) by (simp add: unat_sub word_le_nat_alt)
  qed
  from this [of 30] this [of 40] show ?thesis
    using assms by (auto simp: set_graphics_def ANSI_COLORS_def writer_ok_def)
qed

lemma execute_ansi_cmd_safe:
  assumes w: "writer_ok w"
  shows "tty_safe (execute_ansi_cmd cmd) w"
proof -
  have p: "idx (ansi_params w) 0 = Inr (ansi_params w ! 0)" "idx (ansi_params w) 1 = Inr (ansi_params w ! 1)"
    using w by (simp_all add: writer_ok_def)
  have u: "unat p < 2 ^ 32" for p :: u32 using unat_less_pow [of p] by simp
  consider (m) "cmd = 0x6D" | (J) "cmd = 0x4A" | (H) "cmd = 0x48" | (K) "cmd = 0x4B"
    | (other) "cmd \<noteq> 0x6D" "cmd \<noteq> 0x4A" "cmd \<noteq> 0x48" "cmd \<noteq> 0x4B" by blast
  then show ?thesis
  proof cases
    case m
    let ?I = "\<lambda>v. writer_ok v \<and> fb v = fb w"
    have "\<exists>v. foldR (\<lambda>i w. bindR (idx (ansi_params w) i) (\<lambda>code. set_graphics code w)) [0 ..< ansi_param_idx w] w = Inr v \<and> ?I v"
    proof (rule foldR_inv [where I = ?I])
      fix i v assume "i \<in> set [0 ..< ansi_param_idx w]" and v: "?I v"
      then have "i < length (ansi_params v)" using w by (auto simp: writer_ok_def)
      then show "\<exists>v'. bindR (idx (ansi_params v) i) (\<lambda>code. set_graphics code v) = Inr v' \<and> ?I v'"
        using set_graphics_safe [of v] v by fastforce
    qed (use w in simp)
    then show ?thesis using m by (auto simp: tty_safe_def execute_ansi_cmd_def)
  next
    case J
    then show ?thesis
      using clear_screen_safe [OF w] w p
      by (auto simp: tty_safe_def execute_ansi_cmd_def reset_cursor_def writer_ok_def)
  next
    case H
    have b: "(unat (ansi_params w ! i) - 1) * 8 < 2 ^ 36" for i using u [of "ansi_params w ! i"] by simp
    have m: "mul64 (unat (ansi_params w ! i) - 1) 8 = Inr ((unat (ansi_params w ! i) - 1) * 8)" for i
      using b [of i] by (simp add: mul_w_def)
    show ?thesis
      using H w b [of 0] b [of 1] by (simp add: tty_safe_def execute_ansi_cmd_def p m [unfolded One_nat_def] writer_ok_def)
  next
    case K
    have "x_pos w + (fb_width (fb w) - x_pos w) < 2 ^ 64" "y_pos w + 8 < 2 ^ 64"
      using w by (auto simp: writer_ok_def fb_ok_def)
    then show ?thesis
      using K w p with_rect_safe [OF w] by (auto simp: tty_safe_def execute_ansi_cmd_def)
  next
    case other
    then show ?thesis using w by (simp add: tty_safe_def execute_ansi_cmd_def)
  qed
qed

lemma store_param_safe:
  "writer_ok w \<Longrightarrow> \<exists>w'. store_param w = Inr w' \<and> writer_ok w' \<and> fb w' = fb w"
  by (auto simp: store_param_def writer_ok_def)

lemma write_byte_safe:
  assumes w: "writer_ok w" and font: "\<forall>c g. font c = Some g \<longrightarrow> length g = 8"
  shows "tty_safe (write_byte font byte) w"
proof (cases "ansi_state w")
  case Normal
  then show ?thesis
    using w new_line_safe [OF w] backspace_safe [OF w] print_char_safe [OF w font]
    by (auto simp: tty_safe_def write_byte_def writer_ok_def)
next
  case Escape
  then show ?thesis using w by (auto simp: tty_safe_def write_byte_def writer_ok_def)
next
  case Csi
  obtain w1 where w1: "store_param w = Inr w1" "writer_ok w1" "fb w1 = fb w"
    using store_param_safe [OF w] by blast
  obtain w2 where w2: "execute_ansi_cmd byte w1 = Inr w2" "writer_ok w2" "fb_same (fb w) (fb w2)"
    using execute_ansi_cmd_safe [OF w1(2)] w1(3) by (auto simp: tty_safe_def)
  show ?thesis
    using Csi w w1 w2 by (auto simp: tty_safe_def write_byte_def writer_ok_def)
qed

lemma write_str_safe:
  assumes "writer_ok w" and "\<forall>c g. font c = Some g \<longrightarrow> length g = 8"
  shows "tty_safe (write_str font text) w"
proof -
  have "\<exists>v. foldR (write_byte font) text w = Inr v \<and> writer_ok v \<and> fb_same (fb w) (fb v)"
  proof (rule foldR_inv [where I = "\<lambda>v. writer_ok v \<and> fb_same (fb w) (fb v)"])
    fix c v assume "writer_ok v \<and> fb_same (fb w) (fb v)"
    then show "\<exists>v'. write_byte font c v = Inr v' \<and> writer_ok v' \<and> fb_same (fb w) (fb v')"
      using write_byte_safe [of v font c] assms(2) fb_same_trans by (fastforce simp: tty_safe_def)
  qed (use assms(1) in simp)
  then show ?thesis by (simp add: tty_safe_def write_str_def)
qed

lemma print_safe:
  assumes "writer_ok w" and "\<forall>c g. font c = Some g \<longrightarrow> length g = 8"
  shows "\<exists>w'. print font text (Some w) = Inr (Some w') \<and> writer_ok w'
    \<and> (\<forall>i. fb_pitch (fb w) * fb_height (fb w) \<le> i \<longrightarrow> fb_mem (fb w') i = fb_mem (fb w) i)"
proof -
  obtain w1 where w1: "erase_cursor w = Inr w1" "writer_ok w1" "fb_same (fb w) (fb w1)"
    using cursor_safe(2) [OF assms(1)] by (auto simp: tty_safe_def)
  obtain w2 where w2: "write_str font text w1 = Inr w2" "writer_ok w2" "fb_same (fb w1) (fb w2)"
    using write_str_safe [OF w1(2) assms(2)] by (auto simp: tty_safe_def)
  obtain w3 where w3: "draw_cursor w2 = Inr w3" "writer_ok w3" "fb_same (fb w2) (fb w3)"
    using cursor_safe(1) [OF w2(2)] by (auto simp: tty_safe_def)
  have "fb_same (fb w) (fb w3)" using w1(3) w2(3) w3(3) fb_same_trans by blast
  then show ?thesis using w1 w2 w3 by (simp add: print_def fb_same_def)
qed

section \<open>Properties\<close>

text \<open>
  C39: no text makes the terminal panic or write outside the framebuffer: printing any bytes,
  escape sequences with arbitrary parameters included, returns, keeps the cursor and the
  parser state well-formed and changes no byte outside the lines of the screen. The font
  supplies glyphs of eight rows.
\<close>

theorem printing_is_safe:
  assumes "writer_ok w" and "\<forall>c g. font c = Some g \<longrightarrow> length g = 8"
  shows "\<exists>w'. print font text (Some w) = Inr (Some w') \<and> writer_ok w'
    \<and> (\<forall>i. fb_pitch (fb w) * fb_height (fb w) \<le> i \<longrightarrow> fb_mem (fb w') i = fb_mem (fb w) i)"
  by (rule print_safe [OF assms])

definition demo_writer :: Writer where
  "demo_writer = \<lparr>fb = FrameBuffer_new (\<lambda>_. 0) 640 480 2560 32, x_pos = 0, y_pos = 0, fg_color = FG_DEFAULT,
     bg_color = BG_DEFAULT, ansi_state = Normal, ansi_params = [0, 0, 0, 0], ansi_param_idx = 0, ansi_current_val = 0\<rparr>"

theorem printing_is_safe_witness:
  "\<exists>w'. print (\<lambda>_. None) [0x1B, 0x5B, 0x39, 0x39, 0x48, 0x41, 0x08] (Some demo_writer) = Inr (Some w') \<and> writer_ok w'"
proof -
  have "writer_ok demo_writer" by (simp add: writer_ok_def demo_writer_def fb_ok_def FrameBuffer_new_def)
  from printing_is_safe [OF this, of "\<lambda>_. None" "[0x1B, 0x5B, 0x39, 0x39, 0x48, 0x41, 0x08]"] show ?thesis by auto
qed

end
