(* ===== verification/Serial.thy ===== *)
theory Serial
  imports Kernel_Base
begin

text \<open>
  Port I/O, the serial port of \<^verbatim>\<open>src/drivers/char/serial.rs\<close> and the timer chip of
  \<^verbatim>\<open>src/drivers/timer/pit.rs\<close>. The devices behind the ports are a parameter. The lemmas show
  that on a transmitter that becomes ready the text arrives with its line ends doubled.
\<close>

section \<open>Ports\<close>

record 'h io_ports =
  in8 :: "u16 \<Rightarrow> 'h \<Rightarrow> u8 \<times> 'h"
  out8 :: "u16 \<Rightarrow> u8 \<Rightarrow> 'h \<Rightarrow> 'h"
  out16 :: "u16 \<Rightarrow> u16 \<Rightarrow> 'h \<Rightarrow> 'h"
  in32 :: "u16 \<Rightarrow> 'h \<Rightarrow> u32 \<times> 'h"
  out32 :: "u16 \<Rightarrow> u32 \<Rightarrow> 'h \<Rightarrow> 'h"

section \<open>The serial port\<close>

record SerialPort =
  sp_data :: u16
  int_en :: u16
  fifo_ctrl :: u16
  line_ctrl :: u16
  modem_ctrl :: u16
  line_sts :: u16

definition SerialPort_new :: "u16 \<Rightarrow> SerialPort run" where
  "SerialPort_new port_base =
     bindR (assertR (unat port_base + 5 < 2 ^ 16) ArithmeticOverflow) (\<lambda>_.
     Inr \<lparr>sp_data = port_base, int_en = port_base + 1, fifo_ctrl = port_base + 2, line_ctrl = port_base + 3,
          modem_ctrl = port_base + 4, line_sts = port_base + 5\<rparr>)"

definition serial_init :: "'h io_ports \<Rightarrow> SerialPort \<Rightarrow> 'h \<Rightarrow> 'h" where
  "serial_init io p h =
     fold (\<lambda>(port, v). out8 io port v)
       [(int_en p, 0x00), (line_ctrl p, 0x80), (sp_data p, 0x03), (int_en p, 0x00), (line_ctrl p, 0x03),
        (fifo_ctrl p, 0xC7), (modem_ctrl p, 0x0B)] h"

partial_function (option) wait_for_tx_empty :: "'h io_ports \<Rightarrow> SerialPort \<Rightarrow> 'h \<Rightarrow> 'h option" where
  [code]: "wait_for_tx_empty io p h =
     (case in8 io (line_sts p) h of (v, h') \<Rightarrow>
      if v AND 0x20 = 0 then wait_for_tx_empty io p h' else Some h')"

definition send_byte :: "'h io_ports \<Rightarrow> SerialPort \<Rightarrow> u8 \<Rightarrow> 'h \<Rightarrow> 'h run" where
  "send_byte io p b h =
     (case wait_for_tx_empty io p h of None \<Rightarrow> Inl Diverges | Some h' \<Rightarrow> Inr (out8 io (sp_data p) b h'))"

definition serial_send :: "'h io_ports \<Rightarrow> SerialPort \<Rightarrow> u8 \<Rightarrow> 'h \<Rightarrow> 'h run" where
  "serial_send io p b h =
     (if b = 0x0A then bindR (send_byte io p 0x0D h) (send_byte io p 0x0A) else send_byte io p b h)"

definition serial_write_str :: "'h io_ports \<Rightarrow> SerialPort \<Rightarrow> u8 list \<Rightarrow> 'h \<Rightarrow> 'h run" where
  "serial_write_str io p = foldR (serial_send io p)"

text \<open>
  The static \<^verbatim>\<open>SERIAL1\<close> is initialised by its first use: it is \<open>None\<close> before.
\<close>

definition SERIAL1 :: "'h io_ports \<Rightarrow> SerialPort option \<times> 'h \<Rightarrow> (SerialPort \<times> 'h) run" where
  "SERIAL1 io = (\<lambda>(st, h).
     case st of
       Some p \<Rightarrow> Inr (p, h)
     | None \<Rightarrow> bindR (SerialPort_new 0x3F8) (\<lambda>serial_port. Inr (serial_port, serial_init io serial_port h)))"

definition serial_print :: "'h io_ports \<Rightarrow> u8 list \<Rightarrow> SerialPort option \<times> 'h \<Rightarrow> (SerialPort option \<times> 'h) run" where
  "serial_print io args x =
     bindR (SERIAL1 io x) (\<lambda>(p, h).
     bindR (serial_write_str io p args h) (\<lambda>h'. Inr (Some p, h')))"

text \<open>A transmitter that reports ready, and collects the bytes it is given.\<close>

definition with_cr :: "u8 list \<Rightarrow> u8 list" where
  "with_cr text = concat (map (\<lambda>b. if b = 0x0A then [0x0D, 0x0A] else [b]) text)"

locale serial_line =
  fixes io :: "'h io_ports" and p :: SerialPort and ok :: "'h \<Rightarrow> bool" and sent :: "'h \<Rightarrow> u8 list"
  assumes ready: "ok h \<Longrightarrow> \<exists>v h'. in8 io (line_sts p) h = (v, h') \<and> v AND 0x20 \<noteq> 0 \<and> ok h' \<and> sent h' = sent h"
    and transmit: "ok h \<Longrightarrow> ok (out8 io (sp_data p) b h) \<and> sent (out8 io (sp_data p) b h) = sent h @ [b]"
begin

lemma send_byte_ok: "ok h \<Longrightarrow> \<exists>h'. send_byte io p b h = Inr h' \<and> ok h' \<and> sent h' = sent h @ [b]"
proof -
  assume "ok h"
  then obtain v h1 where h1: "in8 io (line_sts p) h = (v, h1)" "v AND 0x20 \<noteq> 0" "ok h1" "sent h1 = sent h"
    using ready by blast
  have "wait_for_tx_empty io p h = Some h1"
    using h1 by (subst wait_for_tx_empty.simps) simp
  then show ?thesis using transmit [OF h1(3), of b] h1(4) by (simp add: send_byte_def)
qed

lemma serial_send_ok:
  assumes "ok h"
  shows "\<exists>h'. serial_send io p b h = Inr h' \<and> ok h' \<and> sent h' = sent h @ with_cr [b]"
proof (cases "b = 0x0A")
  case True
  obtain h1 where h1: "send_byte io p 0x0D h = Inr h1" "ok h1" "sent h1 = sent h @ [0x0D]"
    using send_byte_ok [OF assms] by blast
  obtain h2 where "send_byte io p 0x0A h1 = Inr h2" "ok h2" "sent h2 = sent h1 @ [0x0A]"
    using send_byte_ok [OF h1(2)] by blast
  then show ?thesis using True h1 by (simp add: serial_send_def with_cr_def)
next
  case False
  then show ?thesis using send_byte_ok [OF assms, of b] by (simp add: serial_send_def with_cr_def)
qed

lemma serial_write_str_ok:
  "ok h \<Longrightarrow> \<exists>h'. serial_write_str io p bs h = Inr h' \<and> ok h' \<and> sent h' = sent h @ with_cr bs"
proof (induction bs arbitrary: h)
  case Nil
  then show ?case by (simp add: serial_write_str_def with_cr_def)
next
  case (Cons b bs)
  obtain h1 where h1: "serial_send io p b h = Inr h1" "ok h1" "sent h1 = sent h @ with_cr [b]"
    using serial_send_ok [OF Cons.prems] by blast
  obtain h2 where "serial_write_str io p bs h1 = Inr h2" "ok h2" "sent h2 = sent h1 @ with_cr bs"
    using Cons.IH [OF h1(2)] by blast
  then show ?case using h1 by (simp add: serial_write_str_def with_cr_def)
qed

end

text \<open>
  The first serial port of a PC whose transmitter is always ready: its state is the line
  control register and the bytes sent. While bit 7 of that register is set, the data port is
  the low byte of the baud rate divisor.
\<close>

definition COM1 :: SerialPort where
  "COM1 = \<lparr>sp_data = 0x3F8, int_en = 0x3F9, fifo_ctrl = 0x3FA, line_ctrl = 0x3FB, modem_ctrl = 0x3FC, line_sts = 0x3FD\<rparr>"

definition uart :: "(u8 \<times> u8 list) io_ports" where
  "uart =
     \<lparr>in8 = (\<lambda>port h. (if port = 0x3FD then 0x60 else 0, h)),
      out8 = (\<lambda>port v (lcr, bytes).
        if port = 0x3FB then (v, bytes)
        else if port = 0x3F8 \<and> lcr AND 0x80 = 0 then (lcr, bytes @ [v]) else (lcr, bytes)),
      out16 = (\<lambda>_ _ h. h), in32 = (\<lambda>_ h. (0, h)), out32 = (\<lambda>_ _ h. h)\<rparr>"

interpretation com1: serial_line uart COM1 "\<lambda>(lcr, bytes). lcr AND 0x80 = 0" snd
  by unfold_locales (auto simp: uart_def COM1_def)

lemma SERIAL1_first: "SERIAL1 uart (None, (lcr, bytes)) = Inr (COM1, (0x03, bytes))"
  by (simp add: SERIAL1_def SerialPort_new_def COM1_def serial_init_def uart_def)

text \<open>The first print sets the line up and sends exactly its text, and so does every later one.\<close>

lemma first_serial_print:
  "\<exists>lcr'. serial_print uart args (None, (lcr, [])) = Inr (Some COM1, (lcr', with_cr args)) \<and> lcr' AND 0x80 = 0"
  using com1.serial_write_str_ok [of "(0x03, [])" args] by (auto simp: serial_print_def SERIAL1_first)

lemma later_serial_print:
  "lcr AND 0x80 = 0 \<Longrightarrow> \<exists>lcr'. serial_print uart args (Some COM1, (lcr, bytes)) =
     Inr (Some COM1, (lcr', bytes @ with_cr args)) \<and> lcr' AND 0x80 = 0"
  using com1.serial_write_str_ok [of "(lcr, bytes)" args] by (auto simp: serial_print_def SERIAL1_def)

section \<open>The timer\<close>

definition pit_init :: "'h io_ports \<Rightarrow> 'h \<Rightarrow> 'h" where
  "pit_init io h =
     (let divisor = 11931 :: u16 in
      out8 io 0x40 (ucast (drop_bit 8 divisor)) (out8 io 0x40 (ucast (divisor AND 0xFF)) (out8 io 0x43 0x36 h)))"

end
