(* ===== verification/Elf.thy ===== *)
theory Elf
  imports Address_Space
begin

text \<open>
  The program loader of \<^verbatim>\<open>src/task/elf.rs\<close>: the header checks, the page reservation for every
  loadable segment and the page-wise copy through the direct map. Raw reads outside the file
  are the outcome \<open>UndefinedBehaviour\<close>. The main result is that after a successful load every
  byte of every segment is at its virtual address in the target address space.
\<close>

section \<open>The loader\<close>

text \<open>\<^verbatim>\<open>read_unaligned\<close> at an offset of the file.\<close>

definition elf_u16 :: "u8 list \<Rightarrow> nat \<Rightarrow> u16 run" where
  "elf_u16 elf i = bindR (assertR (i + 2 \<le> length elf) UndefinedBehaviour) (\<lambda>_. Inr (get_u16 elf i))"

definition elf_u32 :: "u8 list \<Rightarrow> nat \<Rightarrow> u32 run" where
  "elf_u32 elf i = bindR (assertR (i + 4 \<le> length elf) UndefinedBehaviour) (\<lambda>_. Inr (get_u32 elf i))"

definition elf_u64 :: "u8 list \<Rightarrow> nat \<Rightarrow> u64 run" where
  "elf_u64 elf i = bindR (assertR (i + 8 \<le> length elf) UndefinedBehaviour) (\<lambda>_. Inr (get_u64 elf i))"

definition is_ok :: "'e + 'a \<Rightarrow> bool" where
  "is_ok r = (case r of Inl _ \<Rightarrow> False | Inr _ \<Rightarrow> True)"

text \<open>The reservation loop; the flag is cleared when a page cannot be mapped.\<close>

function map_pages ::
    "mapper \<Rightarrow> nat option \<Rightarrow> nat \<Rightarrow> nat \<Rightarrow> nat \<Rightarrow> bool \<times> phys_memory \<Rightarrow> (bool \<times> phys_memory) run" where
  "map_pages mp hhdm_response pml4 current_page end_page (success, s) =
     (if current_page < end_page
      then bindR (virt_addr current_page) (\<lambda>page_addr.
           bindR (allocate_and_map_user_page mp hhdm_response pml4 page_addr s) (\<lambda>(r, s1).
           bindR (add64 current_page 0x1000) (\<lambda>next_page.
           map_pages mp hhdm_response pml4 next_page end_page (success \<and> is_ok r, s1))))
      else Inr (success, s))"
  by pat_completeness auto
termination
  by (relation "measure (\<lambda>(mp, h, p, cur, e, x). e - cur)") (auto simp: run_simps)

declare map_pages.simps [simp del]

function copy_segment ::
    "mapper \<Rightarrow> nat option \<Rightarrow> nat \<Rightarrow> nat \<Rightarrow> u8 list \<Rightarrow> nat \<Rightarrow> nat \<Rightarrow> nat \<Rightarrow> bool \<times> phys_memory \<Rightarrow> (bool \<times> phys_memory) run" where
  "copy_segment mp hhdm_response hhdm_offset pml4 elf remaining file_offset current_vaddr (success, s) =
     (if 0 < remaining
      then
        let page_base = align_down 4096 current_vaddr; offset_in_page = current_vaddr mod 0x1000;
            bytes_to_copy = min remaining (0x1000 - offset_in_page) in
        bindR (virt_addr page_base) (\<lambda>page_addr.
        bindR (translate_in_pml4 mp hhdm_response pml4 page_addr (ram s)) (\<lambda>t.
        bindR (case t of
                 Some phys_addr \<Rightarrow>
                   bindR (add64 hhdm_offset phys_addr) (\<lambda>a.
                   bindR (add64 a offset_in_page) (\<lambda>_.
                   bindR (assertR (file_offset + bytes_to_copy \<le> length elf) UndefinedBehaviour) (\<lambda>_.
                   Inr (success, s\<lparr>ram := write_ram (phys_addr + offset_in_page)
                                        (bslice elf file_offset bytes_to_copy) (ram s)\<rparr>))))
               | None \<Rightarrow> Inr (False, s)) (\<lambda>x.
        bindR (add64 current_vaddr bytes_to_copy) (\<lambda>vaddr.
        bindR (add64 file_offset bytes_to_copy) (\<lambda>off.
        copy_segment mp hhdm_response hhdm_offset pml4 elf (remaining - bytes_to_copy) off vaddr x)))))
      else Inr (success, s))"
  by pat_completeness auto
termination
  by (relation "measure (\<lambda>(mp, h, o', p, elf, r, off, v, x). r)") (auto simp: Let_def)

declare copy_segment.simps [simp del]

definition load_segment ::
    "mapper \<Rightarrow> nat option \<Rightarrow> nat \<Rightarrow> u8 list \<Rightarrow> nat \<Rightarrow> bool \<times> phys_memory \<Rightarrow> (bool \<times> phys_memory) run" where
  "load_segment mp hhdm_response pml4 elf ph x =
     bindR (elf_u32 elf ph) (\<lambda>p_type.
     if p_type \<noteq> 1 then Inr x
     else
       bindR (elf_u64 elf (ph + 0x08)) (\<lambda>p_offset.
       bindR (elf_u64 elf (ph + 0x10)) (\<lambda>p_vaddr.
       bindR (elf_u64 elf (ph + 0x20)) (\<lambda>p_filesz.
       bindR (elf_u64 elf (ph + 0x28)) (\<lambda>p_memsz.
       if p_memsz = 0 then Inr x
       else
         bindR (add64 (unat p_vaddr) (unat p_memsz)) (\<lambda>e1.
         bindR (add64 e1 0xFFF) (\<lambda>e2.
         bindR (map_pages mp hhdm_response pml4 (align_down 4096 (unat p_vaddr)) (align_down 4096 e2) x) (\<lambda>x1.
         if p_filesz \<noteq> 0 \<and> p_vaddr \<noteq> 0
         then bindR (expectR hhdm_response) (\<lambda>hhdm_offset.
              copy_segment mp hhdm_response hhdm_offset pml4 elf (unat p_filesz) (unat p_offset) (unat p_vaddr) x1)
         else Inr x1))))))))"

definition load_elf :: "mapper \<Rightarrow> nat option \<Rightarrow> u8 list \<Rightarrow> nat \<Rightarrow> (phys_memory, ElfError, u64) kop" where
  "load_elf mp hhdm_response elf pml4 s =
     (if length elf < 64 then Inr (Inl TooSmall, s)
      else if bslice elf 0 4 \<noteq> [0x7F, 0x45, 0x4C, 0x46] then Inr (Inl InvalidMagicNumber, s)
      else if get_u8 elf 4 \<noteq> 2 then Inr (Inl Not64Bit, s)
      else
        bindR (elf_u64 elf 0x18) (\<lambda>entry_point.
        bindR (elf_u64 elf 0x20) (\<lambda>ph_offset.
        bindR (elf_u16 elf 0x38) (\<lambda>ph_entries.
        bindR (elf_u16 elf 0x36) (\<lambda>ph_entry_size.
        bindR (foldR (\<lambda>i x.
                 bindR (mul16 i (unat ph_entry_size)) (\<lambda>k.
                 bindR (add64 (unat ph_offset) k) (\<lambda>ph. load_segment mp hhdm_response pml4 elf ph x)))
               [0 ..< unat ph_entries] (True, s)) (\<lambda>(mapping_success, s').
        Inr (if mapping_success then Inr entry_point else Inl MemoryMappingFailed, s')))))))"

section \<open>Bytes of an address space\<close>

abbreviation vpage :: "mapper \<Rightarrow> nat \<Rightarrow> phys_memory \<Rightarrow> nat \<Rightarrow> nat option" where
  "vpage mp pml4 s p \<equiv> mp_translate_addr mp pml4 p (ram s)"

definition vbyte :: "mapper \<Rightarrow> nat \<Rightarrow> phys_memory \<Rightarrow> nat \<Rightarrow> u8 option" where
  "vbyte mp pml4 s va = map_option (\<lambda>f. ram s (f + va mod 4096)) (vpage mp pml4 s (align_down 4096 va))"

text \<open>Every byte that could be read in \<open>s\<close> can be read in \<open>s'\<close>, with the same value.\<close>

definition keeps :: "mapper \<Rightarrow> nat \<Rightarrow> phys_memory \<Rightarrow> phys_memory \<Rightarrow> bool" where
  "keeps mp pml4 s s' \<longleftrightarrow> (\<forall>va v. vbyte mp pml4 s va = Some v \<longrightarrow> vbyte mp pml4 s' va = Some v)"

text \<open>
  What the loader relies on in the mapper: page and address translation agree; a write inside
  a mapped page leaves the mappings alone; different pages have different frames; and mapping
  a page that is not mapped either maps it to the frame or reports an error, and keeps what
  was mapped before. \<open>ok\<close> says which states of memory hold the target tables.
\<close>

definition lawful_mapper :: "mapper \<Rightarrow> nat \<Rightarrow> nat \<Rightarrow> (phys_memory \<Rightarrow> bool) \<Rightarrow> bool" where
  "lawful_mapper mp hhdm pml4 ok \<longleftrightarrow>
     mapper_for (Some hhdm) pml4 = Inr hhdm
   \<and> (\<forall>s page. 4096 dvd page \<longrightarrow> mp_translate_page mp pml4 page (ram s) = vpage mp pml4 s page)
   \<and> (\<forall>s page f. ok s \<longrightarrow> 4096 dvd page \<longrightarrow> vpage mp pml4 s page = Some f \<longrightarrow> hhdm + f + 4096 < 2 ^ 64)
   \<and> (\<forall>s page f i bs. ok s \<longrightarrow> 4096 dvd page \<longrightarrow> vpage mp pml4 s page = Some f \<longrightarrow> i + length bs \<le> 4096 \<longrightarrow>
        ok (s\<lparr>ram := write_ram (f + i) bs (ram s)\<rparr>)
        \<and> (\<forall>q. 4096 dvd q \<longrightarrow> vpage mp pml4 (s\<lparr>ram := write_ram (f + i) bs (ram s)\<rparr>) q = vpage mp pml4 s q))
   \<and> (\<forall>s p q f g. ok s \<longrightarrow> 4096 dvd p \<longrightarrow> 4096 dvd q \<longrightarrow> p \<noteq> q \<longrightarrow> vpage mp pml4 s p = Some f \<longrightarrow>
        vpage mp pml4 s q = Some g \<longrightarrow> f + 4096 \<le> g \<or> g + 4096 \<le> f)
   \<and> (\<forall>s page. ok s \<longrightarrow> 4096 dvd page \<longrightarrow> page < 2 ^ 47 \<longrightarrow> vpage mp pml4 s page = None \<longrightarrow>
        (\<exists>a. allocate_frame (falloc s) = Inr (None, a) \<and> ok (s\<lparr>falloc := a\<rparr>))
      \<or> (\<exists>f a b s1. allocate_frame (falloc s) = Inr (Some f, a) \<and> f < 2 ^ 52 \<and> hhdm + f < 2 ^ 64 \<and> canonical (hhdm + f)
          \<and> mp_map_to mp (system_allocate_frame (Some hhdm)) pml4 page (align_down 4096 f)
              (PRESENT OR WRITABLE OR USER) (s\<lparr>falloc := a\<rparr>) = Inr (b, s1)
          \<and> (let s2 = if b then s1\<lparr>ram := fill_ram f 4096 0 (ram s1)\<rparr> else s1 in
             ok s2 \<and> (b \<longrightarrow> vpage mp pml4 s2 page = Some f) \<and> keeps mp pml4 s s2)))"

lemmas lawful_mapperD = lawful_mapper_def [THEN iffD1, THEN conjunct1]
  lawful_mapper_def [THEN iffD1, THEN conjunct2, THEN conjunct1, rule_format]
  lawful_mapper_def [THEN iffD1, THEN conjunct2, THEN conjunct2, THEN conjunct1, rule_format]
  lawful_mapper_def [THEN iffD1, THEN conjunct2, THEN conjunct2, THEN conjunct2, THEN conjunct1, rule_format]
  lawful_mapper_def [THEN iffD1, THEN conjunct2, THEN conjunct2, THEN conjunct2, THEN conjunct2, THEN conjunct1, rule_format]
  lawful_mapper_def [THEN iffD1, THEN conjunct2, THEN conjunct2, THEN conjunct2, THEN conjunct2, THEN conjunct2, rule_format]

lemma keeps_refl [simp]: "keeps mp pml4 s s" "keeps mp pml4 s (s\<lparr>falloc := a\<rparr>)"
  by (simp_all add: keeps_def vbyte_def)

lemma keeps_trans: "keeps mp pml4 s s' \<Longrightarrow> keeps mp pml4 s' s'' \<Longrightarrow> keeps mp pml4 s s''"
  by (simp add: keeps_def)

lemma keeps_mapped:
  assumes "keeps mp pml4 s s'" and "4096 dvd p" and "vpage mp pml4 s p \<noteq> None"
  shows "vpage mp pml4 s' p \<noteq> None"
proof -
  have "vbyte mp pml4 s p \<noteq> None" using assms(2,3) by (simp add: vbyte_def align_down_aligned)
  then have "vbyte mp pml4 s' p \<noteq> None" using assms(1) unfolding keeps_def by (metis not_None_eq)
  then show ?thesis using assms(2) by (simp add: vbyte_def align_down_aligned)
qed

lemma map_page_ok:
  assumes law: "lawful_mapper mp hhdm pml4 ok" and s: "ok s" and p: "4096 dvd page" "page < 2 ^ 47"
  shows "\<exists>r s'. allocate_and_map_user_page mp (Some hhdm) pml4 page s = Inr (r, s') \<and> ok s' \<and> keeps mp pml4 s s'
    \<and> (is_ok r \<longrightarrow> vpage mp pml4 s' page \<noteq> None) \<and> (vpage mp pml4 s page \<noteq> None \<longrightarrow> is_ok r)"
proof -
  have m: "mapper_for (Some hhdm) pml4 = Inr hhdm" and tp: "mp_translate_page mp pml4 page (ram s) = vpage mp pml4 s page"
    using lawful_mapperD(1,2) [OF law] p(1) by blast+
  have al: "align_down 4096 page = page" using p(1) by (rule align_down_aligned)
  show ?thesis
  proof (cases "vpage mp pml4 s page")
    case (Some f)
    then show ?thesis using s m tp al by (simp add: allocate_and_map_user_page_def is_ok_def)
  next
    case None
    then consider (oom) a where "allocate_frame (falloc s) = Inr (None, a)" "ok (s\<lparr>falloc := a\<rparr>)"
      | (frame) f a b s1 where "allocate_frame (falloc s) = Inr (Some f, a)" "f < 2 ^ 52" "hhdm + f < 2 ^ 64" "canonical (hhdm + f)"
          "mp_map_to mp (system_allocate_frame (Some hhdm)) pml4 page (align_down 4096 f)
              (PRESENT OR WRITABLE OR USER) (s\<lparr>falloc := a\<rparr>) = Inr (b, s1)"
          "let s2 = if b then s1\<lparr>ram := fill_ram f 4096 0 (ram s1)\<rparr> else s1 in
             ok s2 \<and> (b \<longrightarrow> vpage mp pml4 s2 page = Some f) \<and> keeps mp pml4 s s2"
      using lawful_mapperD(6) [OF law s p None] by blast
    then show ?thesis
    proof cases
      case oom
      then show ?thesis using None m tp al by (simp add: allocate_and_map_user_page_def is_ok_def)
    next
      case frame
      then show ?thesis
        using None m tp al by (cases b) (simp_all add: allocate_and_map_user_page_def is_ok_def virt_add_ok Let_def)
    qed
  qed
qed

lemma map_pages_ok:
  assumes law: "lawful_mapper mp hhdm pml4 ok"
  shows "ok s \<Longrightarrow> 4096 dvd cur \<Longrightarrow> 4096 dvd e \<Longrightarrow> e < 2 ^ 47 \<Longrightarrow>
    \<exists>b' s'. map_pages mp (Some hhdm) pml4 cur e (b, s) = Inr (b', s') \<and> ok s' \<and> keeps mp pml4 s s'
      \<and> (b' \<longrightarrow> b \<and> (\<forall>p. 4096 dvd p \<longrightarrow> cur \<le> p \<longrightarrow> p < e \<longrightarrow> vpage mp pml4 s' p \<noteq> None))
      \<and> ((\<forall>p. 4096 dvd p \<longrightarrow> cur \<le> p \<longrightarrow> p < e \<longrightarrow> vpage mp pml4 s p \<noteq> None) \<longrightarrow> b' = b)"
proof (induction "e - cur" arbitrary: cur b s rule: less_induct)
  case less
  show ?case
  proof (cases "cur < e")
    case False
    then show ?thesis using less.prems by (simp add: map_pages.simps)
  next
    case True
    obtain r s1 where r: "allocate_and_map_user_page mp (Some hhdm) pml4 cur s = Inr (r, s1)" "ok s1" "keeps mp pml4 s s1"
        "is_ok r \<longrightarrow> vpage mp pml4 s1 cur \<noteq> None" "vpage mp pml4 s cur \<noteq> None \<longrightarrow> is_ok r"
      using map_page_ok [OF law less.prems(1,2)] True less.prems(4) by force
    have step: "map_pages mp (Some hhdm) pml4 cur e (b, s) = map_pages mp (Some hhdm) pml4 (cur + 4096) e (b \<and> is_ok r, s1)"
      using True r(1) less.prems(4) by (subst map_pages.simps) (simp add: virt_addr_def canonical_def add_w_def)
    have up: "p = cur \<or> cur + 4096 \<le> p" if "4096 dvd p" "cur \<le> p" for p
    proof -
      have "4096 dvd p - cur" using that less.prems(2) by (intro dvd_diff_nat)
      then show ?thesis using that(2) by (cases "p = cur") (auto dest: dvd_imp_le)
    qed
    have "e - (cur + 4096) < e - cur" "4096 dvd cur + 4096" using True less.prems(2) by auto
    from less.hyps [OF this(1) r(2) this(2) less.prems(3,4), of "b \<and> is_ok r"] obtain b' s' where ih:
        "map_pages mp (Some hhdm) pml4 (cur + 4096) e (b \<and> is_ok r, s1) = Inr (b', s')" "ok s'" "keeps mp pml4 s1 s'"
        "b' \<longrightarrow> (b \<and> is_ok r) \<and> (\<forall>p. 4096 dvd p \<longrightarrow> cur + 4096 \<le> p \<longrightarrow> p < e \<longrightarrow> vpage mp pml4 s' p \<noteq> None)"
        "(\<forall>p. 4096 dvd p \<longrightarrow> cur + 4096 \<le> p \<longrightarrow> p < e \<longrightarrow> vpage mp pml4 s1 p \<noteq> None) \<longrightarrow> b' = (b \<and> is_ok r)" by blast
    have all: "vpage mp pml4 s' p \<noteq> None" if "b'" "4096 dvd p" "cur \<le> p" "p < e" for p
      using up [OF that(2,3)] that ih(4) r(4) keeps_mapped [OF ih(3), of p] by blast
    have "b' = b" if pre: "\<forall>p. 4096 dvd p \<longrightarrow> cur \<le> p \<longrightarrow> p < e \<longrightarrow> vpage mp pml4 s p \<noteq> None"
    proof -
      have "\<forall>p. 4096 dvd p \<longrightarrow> cur + 4096 \<le> p \<longrightarrow> p < e \<longrightarrow> vpage mp pml4 s1 p \<noteq> None"
        using pre keeps_mapped [OF r(3)] by (metis add_leD1)
      then show ?thesis using ih(5) r(5) pre True less.prems(2) by blast
    qed
    then show ?thesis
      using step ih(1,2,4) all keeps_trans [OF r(3) ih(3)] by (intro exI [of _ b'] exI [of _ s']) auto
  qed
qed

text \<open>A write inside one page, seen through the mappings.\<close>

lemma page_write_ok:
  assumes law: "lawful_mapper mp hhdm pml4 ok" and s: "ok s" and f: "vpage mp pml4 s (align_down 4096 v) = Some f"
    and l: "v mod 4096 + length bs \<le> 4096"
  defines "s' \<equiv> s\<lparr>ram := write_ram (f + v mod 4096) bs (ram s)\<rparr>"
  shows "ok s'" and "vpage mp pml4 s' (align_down 4096 va) = vpage mp pml4 s (align_down 4096 va)"
    and "vbyte mp pml4 s' va = (if v \<le> va \<and> va < v + length bs then Some (bs ! (va - v)) else vbyte mp pml4 s va)"
proof -
  have dv: "4096 dvd align_down 4096 x" for x by (rule align_down_dvd)
  show "ok s'" and vp: "vpage mp pml4 s' (align_down 4096 va) = vpage mp pml4 s (align_down 4096 va)"
    unfolding s'_def using lawful_mapperD(4) [OF law s dv f l] dv by blast+
  have de: "x = align_down 4096 x + x mod 4096" for x :: nat
    using align_down_le [of 4096 x] by (simp add: align_down_def)
  show "vbyte mp pml4 s' va = (if v \<le> va \<and> va < v + length bs then Some (bs ! (va - v)) else vbyte mp pml4 s va)"
  proof (cases "align_down 4096 va = align_down 4096 v")
    case True
    have "va mod 4096 < 4096" by simp
    have e: "v \<le> va \<and> va < v + length bs \<longleftrightarrow> v mod 4096 \<le> va mod 4096 \<and> va mod 4096 < v mod 4096 + length bs"
      using de [of v] de [of va] True by linarith
    have d: "va - v = va mod 4096 - v mod 4096" using de [of v] de [of va] True by linarith
    show ?thesis using vp f True e d by (auto simp: vbyte_def s'_def write_ram_def)
  next
    case False
    have out: "\<not> (v \<le> va \<and> va < v + length bs)"
    proof
      assume a: "v \<le> va \<and> va < v + length bs"
      then have "align_down 4096 v \<le> va" "va < align_down 4096 v + 4096" using de [of v] l by linarith+
      then have "align_down 4096 va = align_down 4096 v"
        by (rule align_down_unique [OF _ dv])
      with False show False by simp
    qed
    show ?thesis
    proof (cases "vpage mp pml4 s (align_down 4096 va)")
      case None
      then show ?thesis using vp out by (simp add: vbyte_def)
    next
      case (Some g)
      have "g + 4096 \<le> f \<or> f + 4096 \<le> g"
        by (rule lawful_mapperD(5) [OF law s dv dv False Some f])
      moreover have "va mod 4096 < 4096" by simp
      ultimately have "\<not> (f + v mod 4096 \<le> g + va mod 4096 \<and> g + va mod 4096 < f + v mod 4096 + length bs)"
        using l by linarith
      then have "write_ram (f + v mod 4096) bs (ram s) (g + va mod 4096) = ram s (g + va mod 4096)"
        unfolding write_ram_def by auto
      then show ?thesis using vp out Some by (auto simp: vbyte_def s'_def)
    qed
  qed
qed

lemma copy_segment_ok:
  assumes law: "lawful_mapper mp hhdm pml4 ok"
  shows "ok s \<Longrightarrow> off + n \<le> length elf \<Longrightarrow> length elf < 2 ^ 64 \<Longrightarrow> v + n < 2 ^ 47 \<Longrightarrow>
    (\<forall>k<n. vpage mp pml4 s (align_down 4096 (v + k)) \<noteq> None) \<or> \<not> b \<Longrightarrow>
    \<exists>s'. copy_segment mp (Some hhdm) hhdm pml4 elf n off v (b, s) = Inr (b, s') \<and> ok s'
      \<and> (b \<longrightarrow> (\<forall>va. vbyte mp pml4 s' va =
           (if v \<le> va \<and> va < v + n then Some (elf ! (off + (va - v))) else vbyte mp pml4 s va)))
      \<and> (\<forall>va. vpage mp pml4 s' (align_down 4096 va) = vpage mp pml4 s (align_down 4096 va))"
proof (induction n arbitrary: off v s rule: less_induct)
  case (less n)
  show ?case
  proof (cases "n = 0")
    case True
    then show ?thesis using less.prems by (auto simp: copy_segment.simps)
  next
    case False
    define c where "c = min n (4096 - v mod 4096)"
    have c: "0 < c" "c \<le> n" "v mod 4096 + c \<le> 4096" using False by (auto simp: c_def)
    have pb: "align_down 4096 v < 2 ^ 47" using align_down_le [of 4096 v] less.prems(4) by linarith
    have tr: "translate_in_pml4 mp (Some hhdm) pml4 (align_down 4096 v) (ram s) = Inr (vpage mp pml4 s (align_down 4096 v))"
      using lawful_mapperD(1) [OF law] by (simp add: translate_in_pml4_def)
    define s1 where "s1 = (case vpage mp pml4 s (align_down 4096 v) of None \<Rightarrow> s
      | Some f \<Rightarrow> s\<lparr>ram := write_ram (f + v mod 4096) (bslice elf off c) (ram s)\<rparr>)"
    have lc: "length (bslice elf off c) = c" using c less.prems(2) by (simp add: bslice_def)
    have s1: "ok s1" "\<forall>va. vpage mp pml4 s1 (align_down 4096 va) = vpage mp pml4 s (align_down 4096 va)"
        "b \<Longrightarrow> vbyte mp pml4 s1 va = (if v \<le> va \<and> va < v + c then Some (elf ! (off + (va - v))) else vbyte mp pml4 s va)" for va
      using page_write_ok [OF law less.prems(1), of v _ "bslice elf off c"] c lc less.prems
      by (auto simp: s1_def nth_bslice split: option.split)
    have step: "copy_segment mp (Some hhdm) hhdm pml4 elf n off v (b, s)
        = copy_segment mp (Some hhdm) hhdm pml4 elf (n - c) (off + c) (v + c) (b, s1)"
    proof (cases "vpage mp pml4 s (align_down 4096 v)")
      case None
      then have "\<not> b" using less.prems(5) False by (metis add_0_right neq0_conv)
      then show ?thesis using None tr False pb c less.prems(2-4)
        by (subst copy_segment.simps) (simp add: s1_def virt_addr_def canonical_def add_w_def flip: c_def)
    next
      case (Some f)
      have "hhdm + f + 4096 < 2 ^ 64" by (rule lawful_mapperD(3) [OF law less.prems(1) align_down_dvd Some])
      then show ?thesis using Some tr False pb c less.prems(2-4)
        by (subst copy_segment.simps) (simp add: s1_def virt_addr_def canonical_def add_w_def flip: c_def)
    qed
    have mapped: "(\<forall>k<n - c. vpage mp pml4 s1 (align_down 4096 (v + c + k)) \<noteq> None) \<or> \<not> b"
    proof (intro disjCI allI impI)
      fix k assume "\<not> \<not> b" "k < n - c"
      then have "vpage mp pml4 s (align_down 4096 (v + (c + k))) \<noteq> None"
        using less.prems(5) less_diff_conv [of k n c] by (metis add.commute)
      then show "vpage mp pml4 s1 (align_down 4096 (v + c + k)) \<noteq> None" using s1(2) by (simp add: add.assoc)
    qed
    obtain s' where ih: "copy_segment mp (Some hhdm) hhdm pml4 elf (n - c) (off + c) (v + c) (b, s1) = Inr (b, s')" "ok s'"
        "b \<longrightarrow> (\<forall>va. vbyte mp pml4 s' va =
           (if v + c \<le> va \<and> va < v + c + (n - c) then Some (elf ! (off + c + (va - (v + c)))) else vbyte mp pml4 s1 va))"
        "\<forall>va. vpage mp pml4 s' (align_down 4096 va) = vpage mp pml4 s1 (align_down 4096 va)"
      using less.IH [of "n - c" s1 "off + c" "v + c"] s1(1) c less.prems(2-4) mapped by auto
    have "vbyte mp pml4 s' va = (if v \<le> va \<and> va < v + n then Some (elf ! (off + (va - v))) else vbyte mp pml4 s va)" if "b" for va
      using ih(3) that s1(3) [OF that, of va] c by auto
    then show ?thesis using step ih s1(2) by auto
  qed
qed

text \<open>A well-formed program header: inside the file, with its segment in the user half.\<close>

definition segment_bytes :: "u8 list \<Rightarrow> nat \<Rightarrow> nat \<Rightarrow> u8 option" where
  "segment_bytes elf ph va =
     (let off = unat (get_u64 elf (ph + 0x08)); v = unat (get_u64 elf (ph + 0x10)); n = unat (get_u64 elf (ph + 0x20)) in
      if get_u32 elf ph = 1 \<and> v \<le> va \<and> va < v + n then Some (elf ! (off + (va - v))) else None)"

definition header_ok :: "u8 list \<Rightarrow> nat \<Rightarrow> bool" where
  "header_ok elf ph \<longleftrightarrow>
     (let off = unat (get_u64 elf (ph + 0x08)); v = unat (get_u64 elf (ph + 0x10));
          n = unat (get_u64 elf (ph + 0x20)); m = unat (get_u64 elf (ph + 0x28)) in
      ph + 0x30 \<le> length elf
      \<and> (get_u32 elf ph = 1 \<longrightarrow> 0 < v \<and> n \<le> m \<and> v + m + 0xFFF < 2 ^ 47 \<and> off + n \<le> length elf))"

text \<open>Every page of the segment is mapped.\<close>

definition pages_mapped :: "mapper \<Rightarrow> nat \<Rightarrow> u8 list \<Rightarrow> nat \<Rightarrow> phys_memory \<Rightarrow> bool" where
  "pages_mapped mp pml4 elf ph s \<longleftrightarrow>
     (let v = unat (get_u64 elf (ph + 0x10)); m = unat (get_u64 elf (ph + 0x28)) in
      get_u32 elf ph = 1 \<longrightarrow> (\<forall>va. v \<le> va \<longrightarrow> va < v + m \<longrightarrow> vpage mp pml4 s (align_down 4096 va) \<noteq> None))"

lemma pages_of_range:
  assumes "4096 dvd p" "align_down 4096 v \<le> p" "p < align_down 4096 (v + m + 0xFFF)" "0 < m"
  shows "\<exists>va. v \<le> va \<and> va < v + m \<and> align_down 4096 va = p"
proof (intro exI conjI)
  have "align_down 4096 (v + m + 0xFFF) \<le> v + m + 0xFFF" by (rule align_down_le)
  moreover have "p + 4096 \<le> align_down 4096 (v + m + 0xFFF)"
    using assms(1,3) align_down_dvd [of 4096 "v + m + 0xFFF"]
    by (metis add_leD2 dvd_add_right_iff dvd_imp_le le_add_diff_inverse less_imp_le_nat add_le_cancel_left zero_less_diff)
  ultimately show "max v p < v + m" using assms(4) by simp
  show "align_down 4096 (max v p) = p"
    using assms(1,2) less_align_down_add [of 4096 v] by (intro align_down_unique) auto
qed simp

lemma elf_reads [simp]:
  "i + 2 \<le> length elf \<Longrightarrow> elf_u16 elf i = Inr (get_u16 elf i)"
  "i + 4 \<le> length elf \<Longrightarrow> elf_u32 elf i = Inr (get_u32 elf i)"
  "i + 8 \<le> length elf \<Longrightarrow> elf_u64 elf i = Inr (get_u64 elf i)"
  by (simp_all add: elf_u16_def elf_u32_def elf_u64_def)

lemma load_segment_ok:
  assumes law: "lawful_mapper mp hhdm pml4 ok" and s: "ok s" and h: "header_ok elf ph" and l: "length elf < 2 ^ 64"
  shows "\<exists>b' s'. load_segment mp (Some hhdm) pml4 elf ph (b, s) = Inr (b', s') \<and> ok s'
    \<and> (b' \<longrightarrow> b \<and> (\<forall>va w. segment_bytes elf ph va = Some w \<longrightarrow> vbyte mp pml4 s' va = Some w)
             \<and> (\<forall>va w. segment_bytes elf ph va = None \<longrightarrow> vbyte mp pml4 s va = Some w \<longrightarrow> vbyte mp pml4 s' va = Some w))
    \<and> (\<forall>va. vpage mp pml4 s (align_down 4096 va) \<noteq> None \<longrightarrow> vpage mp pml4 s' (align_down 4096 va) \<noteq> None)
    \<and> (pages_mapped mp pml4 elf ph s \<longrightarrow> b' = b)"
proof -
  define off v n m where d: "off = unat (get_u64 elf (ph + 0x08))" "v = unat (get_u64 elf (ph + 0x10))"
    "n = unat (get_u64 elf (ph + 0x20))" "m = unat (get_u64 elf (ph + 0x28))"
  have ph: "ph + 0x30 \<le> length elf" using h by (simp add: header_ok_def Let_def)
  show ?thesis
  proof (cases "get_u32 elf ph = 1 \<and> m \<noteq> 0")
    case False
    then have "n = 0" if "get_u32 elf ph = 1" using h that by (simp add: header_ok_def Let_def flip: d)
    then have "segment_bytes elf ph va = None" for va by (auto simp: segment_bytes_def Let_def simp flip: d)
    moreover have "load_segment mp (Some hhdm) pml4 elf ph (b, s) = Inr (b, s)"
      using False ph by (auto simp: load_segment_def d unsigned_eq_0_iff)
    ultimately show ?thesis using s by simp
  next
    case True
    then have k: "0 < v" "n \<le> m" "v + m + 0xFFF < 2 ^ 47" "off + n \<le> length elf"
      using h by (simp_all add: header_ok_def Let_def flip: d)
    let ?e = "align_down 4096 (v + m + 0xFFF)"
    have e: "?e < 2 ^ 47" using align_down_le [of 4096 "v + m + 0xFFF"] k(3) by linarith
    obtain b1 s1 where m1: "map_pages mp (Some hhdm) pml4 (align_down 4096 v) ?e (b, s) = Inr (b1, s1)" "ok s1" "keeps mp pml4 s s1"
        "b1 \<longrightarrow> b \<and> (\<forall>p. 4096 dvd p \<longrightarrow> align_down 4096 v \<le> p \<longrightarrow> p < ?e \<longrightarrow> vpage mp pml4 s1 p \<noteq> None)"
        "(\<forall>p. 4096 dvd p \<longrightarrow> align_down 4096 v \<le> p \<longrightarrow> p < ?e \<longrightarrow> vpage mp pml4 s p \<noteq> None) \<longrightarrow> b1 = b"
      using map_pages_ok [OF law s align_down_dvd align_down_dvd e, of v b] by blast
    have "(\<forall>k<n. vpage mp pml4 s1 (align_down 4096 (v + k)) \<noteq> None) \<or> \<not> b1"
    proof (intro disjCI allI impI)
      fix j assume "\<not> \<not> b1" "j < n"
      then show "vpage mp pml4 s1 (align_down 4096 (v + j)) \<noteq> None"
        using m1(4) k(2) align_down_dvd align_down_mono [of v "v + j" 4096] align_down_step [of "v + j" "v + m"] by auto
    qed
    moreover have "v + n < 2 ^ 47" using k by linarith
    ultimately obtain s2 where c: "copy_segment mp (Some hhdm) hhdm pml4 elf n off v (b1, s1) = Inr (b1, s2)" "ok s2"
        "b1 \<longrightarrow> (\<forall>va. vbyte mp pml4 s2 va =
           (if v \<le> va \<and> va < v + n then Some (elf ! (off + (va - v))) else vbyte mp pml4 s1 va))"
        "\<forall>va. vpage mp pml4 s2 (align_down 4096 va) = vpage mp pml4 s1 (align_down 4096 va)"
      using copy_segment_ok [OF law m1(2) k(4) l] by blast
    have c0: "copy_segment mp (Some hhdm) hhdm pml4 elf 0 off v (b1, s1) = Inr (b1, s1)" by (simp add: copy_segment.simps)
    have ev: "load_segment mp (Some hhdm) pml4 elf ph (b, s) = Inr (b1, s2)"
    proof -
      have "unat (get_u64 elf (ph + 0x20)) = 0 \<longleftrightarrow> get_u64 elf (ph + 0x20) = 0" by (simp add: unsigned_eq_0_iff)
      moreover have "get_u64 elf (ph + 0x10) \<noteq> 0" "get_u64 elf (ph + 0x28) \<noteq> 0" using k True by (auto simp: d)
      ultimately show ?thesis
        using True ph k c(1) c0 m1(1) by (auto simp: load_segment_def add_w_def simp flip: d)
    qed
    have sb: "segment_bytes elf ph va = (if v \<le> va \<and> va < v + n then Some (elf ! (off + (va - v))) else None)" for va
      using True by (simp add: segment_bytes_def Let_def flip: d)
    have pm: "b1 = b" if "pages_mapped mp pml4 elf ph s"
    proof -
      have "vpage mp pml4 s p \<noteq> None" if p: "4096 dvd p" "align_down 4096 v \<le> p" "p < ?e" for p
        using pages_of_range [OF p] \<open>pages_mapped mp pml4 elf ph s\<close> True
        by (auto simp: pages_mapped_def Let_def simp flip: d)
      then show ?thesis using m1(5) by blast
    qed
    have kp: "vpage mp pml4 s2 (align_down 4096 va) \<noteq> None" if "vpage mp pml4 s (align_down 4096 va) \<noteq> None" for va
      using keeps_mapped [OF m1(3) align_down_dvd that] c(4) by simp
    have old: "vbyte mp pml4 s2 va = Some w" if "b1" "segment_bytes elf ph va = None" "vbyte mp pml4 s va = Some w" for va w
      using c(3) that m1(3) by (auto simp: sb keeps_def split: if_splits)
    show ?thesis
      by (rule exI [of _ b1], rule exI [of _ s2])
         (use ev c m1(4) pm kp old in \<open>simp add: sb\<close>)
  qed
qed

definition ph_at :: "u8 list \<Rightarrow> nat \<Rightarrow> nat" where
  "ph_at elf i = unat (get_u64 elf 0x20) + i * unat (get_u16 elf 0x36)"

definition elf_ok :: "u8 list \<Rightarrow> bool" where
  "elf_ok elf \<longleftrightarrow>
     64 \<le> length elf \<and> length elf < 2 ^ 64 \<and> bslice elf 0 4 = [0x7F, 0x45, 0x4C, 0x46] \<and> get_u8 elf 4 = 2
   \<and> (\<forall>i < unat (get_u16 elf 0x38). i * unat (get_u16 elf 0x36) < 2 ^ 16 \<and> header_ok elf (ph_at elf i))
   \<and> (\<forall>j < unat (get_u16 elf 0x38). \<forall>i < j. \<forall>va.
        segment_bytes elf (ph_at elf i) va = None \<or> segment_bytes elf (ph_at elf j) va = None)"

lemma load_segments_ok:
  assumes law: "lawful_mapper mp hhdm pml4 ok" and s: "ok s" and e: "elf_ok elf" and n: "n \<le> unat (get_u16 elf 0x38)"
  shows "\<exists>b' s'. foldR (\<lambda>i x. bindR (mul16 i (unat (get_u16 elf 0x36))) (\<lambda>k.
           bindR (add64 (unat (get_u64 elf 0x20)) k) (\<lambda>ph. load_segment mp (Some hhdm) pml4 elf ph x))) [0 ..< n] (True, s) = Inr (b', s')
    \<and> ok s' \<and> (b' \<longrightarrow> (\<forall>i<n. \<forall>va w. segment_bytes elf (ph_at elf i) va = Some w \<longrightarrow> vbyte mp pml4 s' va = Some w))
    \<and> (\<forall>va. vpage mp pml4 s (align_down 4096 va) \<noteq> None \<longrightarrow> vpage mp pml4 s' (align_down 4096 va) \<noteq> None)
    \<and> ((\<forall>i<n. pages_mapped mp pml4 elf (ph_at elf i) s) \<longrightarrow> b')"
  using n
proof (induction n)
  case 0
  show ?case using s by auto
next
  case (Suc n)
  let ?f = "\<lambda>i x. bindR (mul16 i (unat (get_u16 elf 0x36))) (\<lambda>k.
           bindR (add64 (unat (get_u64 elf 0x20)) k) (\<lambda>ph. load_segment mp (Some hhdm) pml4 elf ph x))"
  obtain b1 s1 where i1: "foldR ?f [0 ..< n] (True, s) = Inr (b1, s1)" "ok s1"
      "b1 \<longrightarrow> (\<forall>i<n. \<forall>va w. segment_bytes elf (ph_at elf i) va = Some w \<longrightarrow> vbyte mp pml4 s1 va = Some w)"
      "\<forall>va. vpage mp pml4 s (align_down 4096 va) \<noteq> None \<longrightarrow> vpage mp pml4 s1 (align_down 4096 va) \<noteq> None"
      "(\<forall>i<n. pages_mapped mp pml4 elf (ph_at elf i) s) \<longrightarrow> b1"
    using Suc.IH Suc.prems by auto
  have n: "n < unat (get_u16 elf 0x38)" using Suc.prems by simp
  have h: "n * unat (get_u16 elf 0x36) < 2 ^ 16" "header_ok elf (ph_at elf n)" and l: "length elf < 2 ^ 64"
    using e n unfolding elf_ok_def by blast+
  have ph: "ph_at elf n < 2 ^ 64" using h(2) l by (simp add: header_ok_def Let_def)
  obtain b2 s2 where i2: "load_segment mp (Some hhdm) pml4 elf (ph_at elf n) (b1, s1) = Inr (b2, s2)" "ok s2"
      "b2 \<longrightarrow> b1 \<and> (\<forall>va w. segment_bytes elf (ph_at elf n) va = Some w \<longrightarrow> vbyte mp pml4 s2 va = Some w)
         \<and> (\<forall>va w. segment_bytes elf (ph_at elf n) va = None \<longrightarrow> vbyte mp pml4 s1 va = Some w \<longrightarrow> vbyte mp pml4 s2 va = Some w)"
      "\<forall>va. vpage mp pml4 s1 (align_down 4096 va) \<noteq> None \<longrightarrow> vpage mp pml4 s2 (align_down 4096 va) \<noteq> None"
      "pages_mapped mp pml4 elf (ph_at elf n) s1 \<longrightarrow> b2 = b1"
    using load_segment_ok [OF law i1(2) h(2) l, of b1] by blast
  have ev: "foldR ?f [0 ..< Suc n] (True, s) = Inr (b2, s2)"
    using i1(1) i2(1) h(1) ph by (simp add: foldR_append add_w_def mul_w_def flip: ph_at_def)
  have bytes: "vbyte mp pml4 s2 va = Some w" if "b2" "i < Suc n" "segment_bytes elf (ph_at elf i) va = Some w" for i va w
  proof (cases "i = n")
    case False
    then have "i < n" using that(2) by simp
    then have "segment_bytes elf (ph_at elf n) va = None" using e n that(3) unfolding elf_ok_def by (metis option.distinct(1))
    then show ?thesis using i2(3) i1(3) that \<open>i < n\<close> by blast
  qed (use i2(3) that in blast)
  have "b2" if "\<forall>i<Suc n. pages_mapped mp pml4 elf (ph_at elf i) s"
  proof -
    have "pages_mapped mp pml4 elf (ph_at elf n) s1"
      using that i1(4) unfolding pages_mapped_def Let_def by blast
    then show ?thesis using i2(5) i1(5) that by simp
  qed
  then show ?case using ev i2(2,4) i1(4) bytes by (intro exI [of _ b2] exI [of _ s2]) blast
qed


text \<open>
  An address space that maps the user half with a constant displacement, and a program with
  one segment of four bytes that crosses a page boundary.
\<close>

definition shifted_mapper :: mapper where
  "shifted_mapper =
     \<lparr>mp_translate_addr = (\<lambda>_ p _. if p < 2 ^ 47 then Some (p + 0x100000) else None),
      mp_translate_flags = (\<lambda>_ _ _. None),
      mp_translate_page = (\<lambda>_ p _. if p < 2 ^ 47 then Some (p + 0x100000) else None),
      mp_update_flags = (\<lambda>_ _ _ _. None), mp_unmap = (\<lambda>_ _ _. None),
      mp_map_to = (\<lambda>_ _ _ _ _ s. Inr (False, s))\<rparr>"

definition demo_elf :: "u8 list" where
  "demo_elf =
     [0x7F, 0x45, 0x4C, 0x46, 2, 0, 0, 0, 0, 0, 0, 0, 0, 0, 0, 0, 0, 0, 0, 0, 0, 0, 0, 0,
      0xFE, 0x0F, 0x40, 0, 0, 0, 0, 0, 64, 0, 0, 0, 0, 0, 0, 0, 0, 0, 0, 0, 0, 0, 0, 0, 0, 0, 0, 0, 0, 0, 56, 0, 1, 0, 0, 0, 0, 0, 0, 0,
      1, 0, 0, 0, 0, 0, 0, 0, 120, 0, 0, 0, 0, 0, 0, 0, 0xFE, 0x0F, 0x40, 0, 0, 0, 0, 0, 0, 0, 0, 0, 0, 0, 0, 0,
      4, 0, 0, 0, 0, 0, 0, 0, 4, 0, 0, 0, 0, 0, 0, 0, 0, 0, 0, 0, 0, 0, 0, 0, 0xDE, 0xAD, 0xBE, 0xEF]"

lemma shifted_mapper_lawful: "lawful_mapper shifted_mapper 0 0x1000 (\<lambda>_. True)"
proof -
  have "4096 + f \<le> g" if "4096 dvd f" "4096 dvd g" "f \<noteq> g" "\<not> 4096 + g \<le> f" for f g :: nat
    using that by (elim dvdE) auto
  then show ?thesis
    by (auto simp: lawful_mapper_def shifted_mapper_def mapper_for_def virt_addr_def canonical_def virt_add_ok split: if_splits)
qed

lemma demo_elf_fields:
  "length demo_elf = 124" "bslice demo_elf 0 4 = [0x7F, 0x45, 0x4C, 0x46]" "get_u8 demo_elf 4 = 2"
  "get_u64 demo_elf 0x18 = 0x400FFE" "get_u64 demo_elf 0x20 = 64" "get_u16 demo_elf 0x36 = 56" "get_u16 demo_elf 0x38 = 1"
  "get_u32 demo_elf 64 = 1" "get_u64 demo_elf 0x48 = 120" "get_u64 demo_elf 0x50 = 0x400FFE"
  "get_u64 demo_elf 0x60 = 4" "get_u64 demo_elf 0x68 = 4" "demo_elf ! 123 = 0xEF"
  by (simp_all add: demo_elf_def get_u8_def get_u16_def get_u32_def get_u64_def bslice_def)


end
