(* ===== verification/User_Memory.thy ===== *)
theory User_Memory
  imports Address_Space
begin

text \<open>
  How the kernel reaches the memory of the running program: the page walk of the processor,
  loads and stores through it, and the pointer check every system call makes first
  (\<^verbatim>\<open>is_valid_user_memory\<close> of \<^verbatim>\<open>src/core/syscall.rs\<close>). A kernel access to a page that is not present
  ends in the panic of the page fault handler; a store to a read-only page is retried after
  the handler has resolved it.
\<close>

section \<open>The page walk of the processor\<close>

definition page_walk :: "memory \<Rightarrow> nat \<Rightarrow> nat \<Rightarrow> (nat \<times> bool) option" where
  "page_walk m pml4 va =
     (let e4 = entry_at pml4 (level_index 4 va) m; e3 = entry3 m pml4 va;
          e2 = entry2 m pml4 va; e1 = entry1 m pml4 va; w = (\<lambda>e. e AND WRITABLE \<noteq> 0) in
      if e4 AND PRESENT = 0 \<or> e3 AND PRESENT = 0 then None
      else if e3 AND HUGE \<noteq> 0 then Some (align_down (2 ^ 30) (entry_addr e3) + va mod 2 ^ 30, w e4 \<and> w e3)
      else if e2 AND PRESENT = 0 then None
      else if e2 AND HUGE \<noteq> 0 then Some (align_down (2 ^ 21) (entry_addr e2) + va mod 2 ^ 21, w e4 \<and> w e3 \<and> w e2)
      else if e1 AND PRESENT = 0 then None
      else Some (entry_addr e1 + va mod 4096, w e4 \<and> w e3 \<and> w e2 \<and> w e1))"

definition load_byte :: "nat \<Rightarrow> nat \<Rightarrow> memory \<Rightarrow> u8 run" where
  "load_byte cr3 va m = (case page_walk m cr3 va of None \<Rightarrow> Inl ExplicitPanic | Some (p, _) \<Rightarrow> Inr (m p))"

fun read_user :: "nat \<Rightarrow> nat \<Rightarrow> nat \<Rightarrow> memory \<Rightarrow> u8 list run" where
  "read_user cr3 va 0 m = Inr []"
| "read_user cr3 va (Suc n) m =
     bindR (load_byte cr3 va m) (\<lambda>b. bindR (read_user cr3 (va + 1) n m) (\<lambda>bs. Inr (b # bs)))"

partial_function (option) store_retry ::
    "mapper \<Rightarrow> nat option \<Rightarrow> nat \<Rightarrow> nat \<Rightarrow> u8 \<Rightarrow> phys_memory \<Rightarrow> phys_memory run option" where
  [code]: "store_retry mp hhdm_response cr3 va b s =
     (case page_walk (ram s) cr3 va of
        None \<Rightarrow> Some (Inl ExplicitPanic)
      | Some (p, writable) \<Rightarrow>
          if writable then Some (Inr (s\<lparr>ram := (ram s)(p := b)\<rparr>))
          else (case resolve_cow_fault mp hhdm_response cr3 va s of
                  Inl e \<Rightarrow> Some (Inl e)
                | Inr (resolved, s1) \<Rightarrow>
                    if resolved then store_retry mp hhdm_response cr3 va b s1 else Some (Inl ExplicitPanic)))"

definition store_byte :: "mapper \<Rightarrow> nat option \<Rightarrow> nat \<Rightarrow> nat \<Rightarrow> u8 \<Rightarrow> phys_memory \<Rightarrow> phys_memory run" where
  "store_byte mp hhdm_response cr3 va b s =
     (case store_retry mp hhdm_response cr3 va b s of None \<Rightarrow> Inl Diverges | Some r \<Rightarrow> r)"

fun write_user :: "mapper \<Rightarrow> nat option \<Rightarrow> nat \<Rightarrow> nat \<Rightarrow> u8 list \<Rightarrow> phys_memory \<Rightarrow> phys_memory run" where
  "write_user mp hhdm_response cr3 va [] s = Inr s"
| "write_user mp hhdm_response cr3 va (b # bs) s =
     bindR (store_byte mp hhdm_response cr3 va b s) (\<lambda>s1. write_user mp hhdm_response cr3 (va + 1) bs s1)"

section \<open>The pointer check\<close>

function check_pages :: "nat option \<Rightarrow> nat \<Rightarrow> nat \<Rightarrow> nat \<Rightarrow> memory \<Rightarrow> bool run" where
  "check_pages hhdm_response cr3 current_page end_page m =
     (if current_page \<le> end_page
      then bindR (virt_addr current_page) (\<lambda>a.
           bindR (is_user_page_mapped hhdm_response cr3 a m) (\<lambda>mapped.
           if \<not> mapped then Inr False
           else bindR (add64 current_page 4096) (\<lambda>next_page. check_pages hhdm_response cr3 next_page end_page m)))
      else Inr True)"
  by pat_completeness auto
termination
  by (relation "measure (\<lambda>(h, c, cur, e, m). Suc e - cur)") (auto simp: run_simps)

declare check_pages.simps [simp del]

definition is_valid_user_memory :: "nat option \<Rightarrow> nat \<Rightarrow> nat \<Rightarrow> nat \<Rightarrow> memory \<Rightarrow> bool run" where
  "is_valid_user_memory hhdm_response cr3 ptr len m =
     (if ptr = 0 then Inr False
      else if 2 ^ 63 - 1 < len then Inr False
      else if len = 0 then Inr True
      else
        let e = min (ptr + len) (2 ^ 64 - 1) in
        if 0x00007FFFFFFFFFFF < e then Inr False
        else check_pages hhdm_response cr3 (align_down 4096 ptr) (align_down 4096 (e - 1)) m)"

text \<open>What the check looks at: every level present, and the user bit of the last one.\<close>

definition leaf_user :: "memory \<Rightarrow> nat \<Rightarrow> nat \<Rightarrow> bool" where
  "leaf_user m pml4 va \<longleftrightarrow>
     (let e4 = entry_at pml4 (level_index 4 va) m; e3 = entry3 m pml4 va; e2 = entry2 m pml4 va in
      e4 AND PRESENT \<noteq> 0 \<and> e3 AND PRESENT \<noteq> 0
      \<and> (if e3 AND HUGE \<noteq> 0 then entry_user e3
         else e2 AND PRESENT \<noteq> 0 \<and> (if e2 AND HUGE \<noteq> 0 then entry_user e2 else user_entry (entry1 m pml4 va))))"

lemma is_user_page_mapped_leaf:
  "walk_fits hhdm m pml4 va \<Longrightarrow> is_user_page_mapped (Some hhdm) pml4 va m = Inr (leaf_user m pml4 va)"
  by (auto simp: is_user_page_mapped_walk leaf_user_def Let_def user_entry_def entry_user_def)

lemma reachable_leaf_user: "user_reachable m pml4 va \<Longrightarrow> leaf_user m pml4 va"
  by (auto simp: user_reachable_def leaf_user_def Let_def user_entry_def entry_user_def)

lemma leaf_user_walk: "leaf_user m pml4 va \<Longrightarrow> page_walk m pml4 va \<noteq> None"
  by (auto simp: leaf_user_def page_walk_def Let_def user_entry_def split: if_splits)

lemma level_index_page:
  assumes "1 \<le> l"
  shows "level_index l (align_down 4096 va) = level_index l va"
proof -
  have e: "2 ^ (12 + 9 * (l - 1)) = (4096 :: nat) * 2 ^ (9 * (l - 1))" by (simp add: power_add)
  have "align_down 4096 va div 4096 = va div 4096" by (simp add: align_down_eq)
  then show ?thesis unfolding level_index_def e div_mult2_eq by simp
qed

lemma leaf_user_page: "leaf_user m pml4 (align_down 4096 va) = leaf_user m pml4 va"
  by (simp add: leaf_user_def entry3_def entry2_def entry1_def level_index_page)

lemma check_pages_ok:
  assumes fit: "\<forall>va < 2 ^ 47. walk_fits hhdm m cr3 va"
  shows "4096 dvd cur \<Longrightarrow> 4096 dvd e \<Longrightarrow> e < 2 ^ 47 \<Longrightarrow>
    check_pages (Some hhdm) cr3 cur e m = Inr (\<forall>p. 4096 dvd p \<longrightarrow> cur \<le> p \<longrightarrow> p \<le> e \<longrightarrow> leaf_user m cr3 p)"
proof (induction "Suc e - cur" arbitrary: cur rule: less_induct)
  case less
  show ?case
  proof (cases "cur \<le> e")
    case False
    then show ?thesis by (subst check_pages.simps) auto
  next
    case True
    then have c: "cur < 2 ^ 47" using less.prems(3) by simp
    then have m: "is_user_page_mapped (Some hhdm) cr3 cur m = Inr (leaf_user m cr3 cur)"
      using fit by (intro is_user_page_mapped_leaf) blast
    have up: "p = cur \<or> cur + 4096 \<le> p" if "4096 dvd p" "cur \<le> p" for p
    proof -
      have "4096 dvd p - cur" using that less.prems(1) by (intro dvd_diff_nat)
      then show ?thesis using that(2) by (cases "p = cur") (auto dest: dvd_imp_le)
    qed
    have "check_pages (Some hhdm) cr3 (cur + 4096) e m
        = Inr (\<forall>p. 4096 dvd p \<longrightarrow> cur + 4096 \<le> p \<longrightarrow> p \<le> e \<longrightarrow> leaf_user m cr3 p)"
      using less.prems True by (intro less.hyps) auto
    then have "check_pages (Some hhdm) cr3 cur e m
        = Inr (leaf_user m cr3 cur \<and> (\<forall>p. 4096 dvd p \<longrightarrow> cur + 4096 \<le> p \<longrightarrow> p \<le> e \<longrightarrow> leaf_user m cr3 p))"
      using True c m by (subst check_pages.simps) (simp add: virt_addr_def canonical_def add_w_def)
    moreover have "(leaf_user m cr3 cur \<and> (\<forall>p. 4096 dvd p \<longrightarrow> cur + 4096 \<le> p \<longrightarrow> p \<le> e \<longrightarrow> leaf_user m cr3 p))
        \<longleftrightarrow> (\<forall>p. 4096 dvd p \<longrightarrow> cur \<le> p \<longrightarrow> p \<le> e \<longrightarrow> leaf_user m cr3 p)"
      (is "?l \<longleftrightarrow> ?r")
    proof
      assume ?l then show ?r using up by blast
    next
      assume r: ?r
      moreover have "cur \<le> p" if "cur + 4096 \<le> p" for p using that by simp
      ultimately show ?l using True less.prems(1) by blast
    qed
    ultimately show ?thesis by simp
  qed
qed

lemma pages_between:
  assumes "0 < len"
  shows "(\<forall>p. 4096 dvd p \<longrightarrow> align_down 4096 ptr \<le> p \<longrightarrow> p \<le> align_down 4096 (ptr + len - 1) \<longrightarrow> leaf_user m cr3 p)
    \<longleftrightarrow> (\<forall>k<len. leaf_user m cr3 (ptr + k))" (is "?pages \<longleftrightarrow> ?bytes")
proof
  assume p: ?pages
  show ?bytes
  proof (intro allI impI)
    fix k assume "k < len"
    then have "align_down 4096 ptr \<le> align_down 4096 (ptr + k)" "align_down 4096 (ptr + k) \<le> align_down 4096 (ptr + len - 1)"
      by (auto intro!: align_down_mono)
    then have "leaf_user m cr3 (align_down 4096 (ptr + k))" using p align_down_dvd by blast
    then show "leaf_user m cr3 (ptr + k)" by (simp only: leaf_user_page)
  qed
next
  assume b: ?bytes
  show ?pages
  proof (intro allI impI)
    fix p assume p: "4096 dvd p" "align_down 4096 ptr \<le> p" "p \<le> align_down 4096 (ptr + len - 1)"
    define k where "k = max ptr p - ptr"
    have "p \<le> ptr + len - 1" using p(3) align_down_le [of 4096 "ptr + len - 1"] by linarith
    then have k: "k < len" "ptr + k = max ptr p" using assms by (auto simp: k_def)
    have "align_down 4096 (ptr + k) = p"
      using p(1,2) less_align_down_add [of 4096 ptr] unfolding k(2) by (intro align_down_unique) auto
    then show "leaf_user m cr3 p" using b k(1) leaf_user_page [of m cr3 "ptr + k"] by simp
  qed
qed

lemma is_valid_user_memory_ok:
  assumes fit: "\<forall>va < 2 ^ 47. walk_fits hhdm m cr3 va"
  shows "is_valid_user_memory (Some hhdm) cr3 ptr len m
    = Inr (0 < ptr \<and> len < 2 ^ 63 \<and> (0 < len \<longrightarrow> ptr + len < 2 ^ 47 \<and> (\<forall>k<len. leaf_user m cr3 (ptr + k))))"
proof (cases "0 < ptr \<and> 0 < len \<and> ptr + len < 2 ^ 47")
  case True
  then have "align_down 4096 (ptr + len - 1) < 2 ^ 47" using align_down_le [of 4096 "ptr + len - 1"] by linarith
  then have "check_pages (Some hhdm) cr3 (align_down 4096 ptr) (align_down 4096 (ptr + len - 1)) m
      = Inr (\<forall>k<len. leaf_user m cr3 (ptr + k))"
    using check_pages_ok [OF fit align_down_dvd align_down_dvd] pages_between [of len ptr m cr3] True by simp
  then show ?thesis using True by (simp add: is_valid_user_memory_def Let_def min_def)
qed (auto simp: is_valid_user_memory_def Let_def min_def)

lemma read_user_mapped:
  "\<forall>k<n. leaf_user m cr3 (va + k) \<Longrightarrow> \<exists>bs. read_user cr3 va n m = Inr bs \<and> length bs = n"
proof (induction n arbitrary: va)
  case (Suc n)
  have "\<forall>k<n. leaf_user m cr3 (va + 1 + k)"
    using Suc.prems [rule_format, of "Suc _"] by simp
  then obtain bs where "read_user cr3 (va + 1) n m = Inr bs" "length bs = n" using Suc.IH by blast
  moreover have "page_walk m cr3 va \<noteq> None"
    using Suc.prems [rule_format, of 0] leaf_user_walk by simp
  ultimately show ?case by (auto simp: load_byte_def)
qed simp

text \<open>
  C8: the pointer check returns, and what it accepts is safe to use: a buffer that passes is in
  the lower half and the kernel can read all of it without a fault, every page of it has the
  user bit. A buffer in the lower half that Ring 3 can reach, byte by byte, passes.
\<close>

theorem accepted_buffer_is_readable:
  assumes "\<forall>va < 2 ^ 47. walk_fits hhdm m cr3 va"
  shows "\<exists>b. is_valid_user_memory (Some hhdm) cr3 ptr len m = Inr b
    \<and> (b \<and> 0 < len \<longrightarrow> 0 < ptr \<and> ptr + len < 2 ^ 47 \<and> (\<forall>k<len. leaf_user m cr3 (ptr + k))
         \<and> (\<exists>bs. read_user cr3 ptr len m = Inr bs \<and> length bs = len))
    \<and> (0 < ptr \<and> ptr + len < 2 ^ 47 \<and> (\<forall>k<len. user_reachable m cr3 (ptr + k)) \<longrightarrow> b)"
  using is_valid_user_memory_ok [OF assms] reachable_leaf_user read_user_mapped by auto

text \<open>One huge page that maps the first gigabyte for the user, under a PML4 at 0x1000.\<close>

definition huge_tables :: memory where
  "huge_tables = poke64 0x2000 0x87 demo_tables"

lemma huge_tables_entries:
  assumes "\<forall>x < 0x3000. m x = huge_tables x" and "va < 2 ^ 30"
  shows "entry_at 0x1000 (level_index 4 va) m = 0x2007" and "entry3 m 0x1000 va = 0x87"
proof -
  have i: "level_index 4 va = 0" "level_index 3 va = 0"
    using assms(2) by (simp_all add: level_index_def)
  have "entry_at 0x1000 0 m = entry_at 0x1000 0 huge_tables" "entry_at 0x2000 0 m = entry_at 0x2000 0 huge_tables"
    using assms(1) by (auto intro!: entry_at_cong)
  moreover have "entry_at 0x1000 0 huge_tables = 0x2007" "entry_at 0x2000 0 huge_tables = 0x87"
    using demo_entry(1) by (simp_all add: huge_tables_def entry_at_def peek_poke_other)
  ultimately show "entry_at 0x1000 (level_index 4 va) m = 0x2007" "entry3 m 0x1000 va = 0x87"
    by (simp_all add: entry3_def i demo_entry(4))
qed

lemma huge_tables_walk:
  assumes "\<forall>x < 0x3000. m x = huge_tables x" and "va < 2 ^ 30"
  shows "page_walk m 0x1000 va = Some (va, True)" and "user_reachable m 0x1000 va"
  using assms(2)
  by (simp_all add: page_walk_def user_reachable_def user_entry_def huge_tables_entries [OF assms] entry_addr_def PRESENT_def
      WRITABLE_def USER_def HUGE_def PHYS_MASK_def align_down_def)

lemma walk_fits_low: "t + 4096 \<le> 2 ^ 64 \<Longrightarrow> walk_fits 0 m t va"
  using entry_addr_bound [of "entry_at t (level_index 4 va) m"] entry_addr_bound [of "entry3 m t va"] entry_addr_bound [of "entry2 m t va"]
  by (simp add: walk_fits_def)

theorem accepted_buffer_is_readable_witness:
  "is_valid_user_memory (Some 0) 0x1000 0x1234 4 huge_tables = Inr True
   \<and> (\<exists>bs. read_user 0x1000 0x1234 4 huge_tables = Inr bs \<and> length bs = 4)"
proof -
  have f: "\<forall>va < 2 ^ 47. walk_fits 0 huge_tables 0x1000 va" by (simp add: walk_fits_low)
  have "\<forall>k < 4. user_reachable huge_tables 0x1000 (0x1234 + k)" by (simp add: huge_tables_walk)
  then show ?thesis using accepted_buffer_is_readable [OF f, of "0x1234" 4] by auto
qed

end
