(* ===== verification/Syscall.thy ===== *)
theory Syscall
  imports User_Memory Elf Scheduler Keyboard Vfs Display Serial
begin

text \<open>
  The system call layer of \<^verbatim>\<open>src/core/syscall.rs\<close>: one definition per call of the dispatcher,
  over the state of the whole kernel, and the assembly entry that saves and restores the
  registers of the program. The parts it composes are the descriptor tables, the virtual file
  system, the console, the keyboard ring, the task manager, paging and the program loader.
\<close>

section \<open>The state of the kernel\<close>

record 'd kernel =
  ksched :: "vnode sched"
  knext_id :: u64
  kphys :: phys_memory
  kvfs :: vfs
  kdev :: 'd
  kring :: key_ring
  kwriter :: "Writer option"

text \<open>
  The code and hardware outside the sources: the page mapper, the direct map, the font, the
  selectors and trampoline address, block devices and ports, the heap's answer to a request
  for a kernel stack, and what has happened when a halted task continues.
\<close>

record 'd platform =
  pf_mapper :: mapper
  pf_hhdm :: "nat option"
  pf_font :: "u8 \<Rightarrow> u8 list option"
  pf_env :: task_env
  pf_devs :: "nat \<Rightarrow> 'd block_device"
  pf_io :: "'d io_ports"
  pf_stack :: "'d kernel \<Rightarrow> nat option"
  pf_wake :: "nat \<Rightarrow> 'd kernel \<Rightarrow> 'd kernel"

record SyscallRegisters =
  rax :: u64
  rdi :: u64
  rsi :: u64
  rdx :: u64
  r10 :: u64
  r8 :: u64
  r9 :: u64

text \<open>
  How a call ends: it returns to the program, it returns when the program is scheduled again,
  or it never returns.
\<close>

datatype syscall_outcome = Returns SyscallRegisters | Resumes SyscallRegisters | Halts

type_synonym 'd syscall = "SyscallRegisters \<Rightarrow> 'd kernel \<Rightarrow> (syscall_outcome \<times> 'd kernel) run"

definition neg_errno :: "nat \<Rightarrow> u64" where
  "neg_errno n = - of_nat n"

definition syscall_return_err :: "KernelError \<Rightarrow> SyscallRegisters \<Rightarrow> SyscallRegisters" where
  "syscall_return_err kernel_err regs = regs\<lparr>rax := word_of_int (KernelError_to_errno kernel_err)\<rparr>"

definition return_rax :: "u64 \<Rightarrow> 'd syscall" where
  "return_rax v regs k = Inr (Returns (regs\<lparr>rax := v\<rparr>), k)"

text \<open>The running task, as \<^verbatim>\<open>tm.current_task\<close> and the registry give it, and writing to it.\<close>

definition running_task :: "'d kernel \<Rightarrow> (u64 \<times> vnode task) option" where
  "running_task k =
     (case current_task (sman (ksched k)) of
        None \<Rightarrow> None
      | Some i \<Rightarrow> map_option (Pair i) (task_of (sman (ksched k)) i))"

definition put_task :: "u64 \<Rightarrow> vnode task \<Rightarrow> 'd kernel \<Rightarrow> 'd kernel" where
  "put_task i t k =
     (let w = ksched k; tm = sman w in
      k\<lparr>ksched := w\<lparr>sman := tm\<lparr>task_registry := bt_insert i t (task_registry tm)\<rparr>\<rparr>\<rparr>)"

definition put_manager :: "vnode task_manager \<Rightarrow> 'd kernel \<Rightarrow> 'd kernel" where
  "put_manager tm k = k\<lparr>ksched := (ksched k)\<lparr>sman := tm\<rparr>\<rparr>"

definition user_memory_ok :: "'d platform \<Rightarrow> nat \<Rightarrow> nat \<Rightarrow> 'd kernel \<Rightarrow> bool run" where
  "user_memory_ok P ptr len k = is_valid_user_memory (pf_hhdm P) (cr3 (ksched k)) ptr len (ram (kphys k))"

definition copy_to_user :: "'d platform \<Rightarrow> nat \<Rightarrow> u8 list \<Rightarrow> 'd kernel \<Rightarrow> 'd kernel run" where
  "copy_to_user P ptr bs k =
     bindR (write_user (pf_mapper P) (pf_hhdm P) (cr3 (ksched k)) ptr bs (kphys k)) (\<lambda>s. Inr (k\<lparr>kphys := s\<rparr>))"

definition copy_from_user :: "nat \<Rightarrow> nat \<Rightarrow> 'd kernel \<Rightarrow> u8 list run" where
  "copy_from_user ptr n k = read_user (cr3 (ksched k)) ptr n (ram (kphys k))"

section \<open>Reading and writing\<close>

partial_function (option) wait_key :: "(nat \<Rightarrow> 'd kernel \<Rightarrow> 'd kernel) \<Rightarrow> nat \<Rightarrow> 'd kernel \<Rightarrow> (codepoint \<times> 'd kernel) run option" where
  [code]: "wait_key wake n k =
     (case pop_key (kring k) of
        Inl e \<Rightarrow> Some (Inl e)
      | Inr (Some c, r) \<Rightarrow> Some (Inr (c, k\<lparr>kring := r\<rparr>))
      | Inr (None, r) \<Rightarrow> wait_key wake (n + 1) (wake n (k\<lparr>kring := r\<rparr>)))"

definition read_stdin :: "'d platform \<Rightarrow> nat \<Rightarrow> nat \<Rightarrow> 'd syscall" where
  "read_stdin P buffer_ptr len regs k =
     (if 0 < len
      then (case wait_key (pf_wake P) 0 k of
              None \<Rightarrow> Inl Diverges
            | Some r \<Rightarrow>
                bindR r (\<lambda>(c, k1).
                let encoded = encode_utf8 c; bytes_to_copy = min (length encoded) len in
                bindR (copy_to_user P buffer_ptr (take bytes_to_copy encoded) k1) (\<lambda>k2.
                return_rax (of_nat bytes_to_copy) regs k2)))
      else return_rax 0 regs k)"

text \<open>
  The slice over the user buffer is copied in for the node and copied back after it; a node
  reports no errors to its caller.
\<close>

definition read_file :: "'d platform \<Rightarrow> nat \<Rightarrow> nat \<Rightarrow> nat \<Rightarrow> u64 \<times> vnode task \<Rightarrow> vnode \<Rightarrow> nat \<Rightarrow> 'd syscall" where
  "read_file P fd buffer_ptr len it v offset regs k =
     bindR (copy_from_user buffer_ptr len k) (\<lambda>user_slice.
     bindR (vnode_read (pf_devs P) v offset user_slice (kdev k)) (\<lambda>(r, d).
     let (read_bytes, user_slice') = (case r of Inl _ \<Rightarrow> (0, user_slice) | Inr x \<Rightarrow> x) in
     bindR (copy_to_user P buffer_ptr user_slice' (k\<lparr>kdev := d\<rparr>)) (\<lambda>k1.
     if 0 < read_bytes
     then bindR (add64 offset read_bytes) (\<lambda>offset'.
          let (i, t) = it in
          return_rax (of_nat read_bytes) regs
            (put_task i (t\<lparr>fd_table := fd_write_slot fd (RegularFile v offset') (fd_table t)\<rparr>) k1))
     else return_rax 0 regs k1)))"

definition sys_read :: "'d platform \<Rightarrow> 'd syscall" where
  "sys_read P regs k =
     (let fd = unat (rdi regs); buffer_ptr = unat (rsi regs); len = unat (rdx regs) in
      bindR (user_memory_ok P buffer_ptr len k) (\<lambda>valid.
      if \<not> valid then return_rax (neg_errno 14) regs k
      else
        case running_task k of
          None \<Rightarrow> return_rax 0 regs k
        | Some (i, t) \<Rightarrow>
            (case fd_get (fd_table t) fd of
               None \<Rightarrow> return_rax (neg_errno 9) regs k
             | Some Stdin \<Rightarrow> read_stdin P buffer_ptr len regs k
             | Some Stdout \<Rightarrow> return_rax (neg_errno 9) regs k
             | Some Stderr \<Rightarrow> return_rax (neg_errno 9) regs k
             | Some (RegularFile v offset) \<Rightarrow> read_file P fd buffer_ptr len (i, t) v offset regs k)))"

text \<open>Text that is not UTF-8 is dropped, and reported as zero bytes written.\<close>

definition write_console :: "'d platform \<Rightarrow> u8 list \<Rightarrow> u8 list \<Rightarrow> nat \<Rightarrow> nat \<Rightarrow> 'd syscall" where
  "write_console P before after buffer_ptr len regs k =
     bindR (copy_from_user buffer_ptr len k) (\<lambda>slice.
     if from_utf8 slice = None then return_rax 0 regs k
     else bindR (print (pf_font P) (before @ slice @ after) (kwriter k)) (\<lambda>w.
          return_rax (of_nat len) regs (k\<lparr>kwriter := w\<rparr>)))"

definition sys_write :: "'d platform \<Rightarrow> 'd syscall" where
  "sys_write P regs k =
     (let fd = unat (rdi regs); buffer_ptr = unat (rsi regs); len = unat (rdx regs) in
      bindR (user_memory_ok P buffer_ptr len k) (\<lambda>valid.
      if \<not> valid then return_rax (neg_errno 14) regs k
      else
        case current_task (sman (ksched k)) of
          None \<Rightarrow> return_rax 0 regs k
        | Some i \<Rightarrow>
            (case task_of (sman (ksched k)) i of
               None \<Rightarrow> return_rax (neg_errno 9) regs k
             | Some t \<Rightarrow>
                 (case fd_get (fd_table t) fd of
                    Some Stdout \<Rightarrow> write_console P [] [] buffer_ptr len regs k
                  | Some Stderr \<Rightarrow> write_console P [0x1B, 0x5B, 0x33, 0x31, 0x6D] [0x1B, 0x5B, 0x30, 0x6D] buffer_ptr len regs k
                  | _ \<Rightarrow> return_rax (neg_errno 9) regs k))))"

section \<open>Files\<close>

text \<open>The bytes up to a zero byte, at most \<open>n\<close>.\<close>

fun read_cstr :: "nat \<Rightarrow> nat \<Rightarrow> nat \<Rightarrow> memory \<Rightarrow> u8 list run" where
  "read_cstr c va 0 m = Inr []"
| "read_cstr c va (Suc n) m =
     bindR (load_byte c va m) (\<lambda>b.
     if b = 0 then Inr [] else bindR (read_cstr c (va + 1) n m) (\<lambda>bs. Inr (b # bs)))"

definition sys_open :: "'d platform \<Rightarrow> 'd syscall" where
  "sys_open P regs k =
     (let filename_ptr = unat (rdi regs) in
      bindR (user_memory_ok P filename_ptr 256 k) (\<lambda>valid.
      if \<not> valid then return_rax (neg_errno 14) regs k
      else
        bindR (read_cstr (cr3 (ksched k)) filename_ptr 256 (ram (kphys k))) (\<lambda>name.
        bindR (open_vnode (pf_devs P) (kvfs k) (str_or_empty name) (kdev k)) (\<lambda>(r, d).
        let k1 = k\<lparr>kdev := d\<rparr> in
        case r of
          Inr (Some file_vnode) \<Rightarrow>
            (case running_task k1 of
               None \<Rightarrow> return_rax (neg_errno 24) regs k1
             | Some (i, t) \<Rightarrow>
                 bindR (fd_insert (RegularFile file_vnode 0) (fd_table t)) (\<lambda>(new_fd, table).
                 return_rax (if 0 < new_fd then of_nat new_fd else neg_errno 24) regs
                   (put_task i (t\<lparr>fd_table := table\<rparr>) k1)))
        | _ \<Rightarrow> return_rax (neg_errno 2) regs k1))))"

definition sys_close :: "'d syscall" where
  "sys_close regs k =
     (case running_task k of
        None \<Rightarrow> return_rax (neg_errno 9) regs k
      | Some (i, t) \<Rightarrow>
          (case fd_close (unat (rdi regs)) (fd_table t) of
             (closed, table) \<Rightarrow>
               return_rax (if closed then 0 else neg_errno 9) regs (put_task i (t\<lparr>fd_table := table\<rparr>) k)))"

section \<open>Memory\<close>

fun map_user_range :: "mapper \<Rightarrow> nat option \<Rightarrow> nat \<Rightarrow> nat list \<Rightarrow> (phys_memory, KernelError, unit) kop" where
  "map_user_range mp hhdm_response pml4 [] s = Inr (Inr (), s)"
| "map_user_range mp hhdm_response pml4 (a # rest) s =
     bindR (virt_addr a) (\<lambda>va.
     bindR (allocate_and_map_user_page mp hhdm_response pml4 va s) (\<lambda>(r, s1).
     case r of Inl e \<Rightarrow> Inr (Inl e, s1) | Inr _ \<Rightarrow> map_user_range mp hhdm_response pml4 rest s1))"

text \<open>
  A failed mapping writes its error to \<^verbatim>\<open>rax\<close> and leaves the closure, after which \<^verbatim>\<open>rax\<close> gets the
  default \<^verbatim>\<open>-ENOMEM\<close>.
\<close>

definition sys_mmap :: "'d platform \<Rightarrow> 'd syscall" where
  "sys_mmap P regs k =
     (let addr = unat (rdi regs); len = unat (rsi regs) in
      if r10 regs AND 0x20 = 0 then return_rax (neg_errno 22) regs k
      else
        case running_task k of
          None \<Rightarrow> return_rax (neg_errno 12) regs k
        | Some (i, t) \<Rightarrow>
            bindR (add64 len 0xFFF) (\<lambda>l.
            let alloc_size = align_down 4096 l;
                start_addr = (if addr \<noteq> 0 then addr else mmap_base t) in
            if 0x1000 \<le> start_addr \<and> min (start_addr + alloc_size) (2 ^ 64 - 1) \<le> 0x00007FFFFFFFFFFF
            then
              bindR (map_user_range (pf_mapper P) (pf_hhdm P) (pml4_frame t)
                       (map (\<lambda>j. start_addr + j * 4096) [0 ..< alloc_size div 4096]) (kphys k)) (\<lambda>(r, s).
              let k1 = k\<lparr>kphys := s\<rparr> in
              case r of
                Inl kernel_err \<Rightarrow> return_rax (neg_errno 12) (syscall_return_err kernel_err regs) k1
              | Inr _ \<Rightarrow>
                  if addr = 0
                  then bindR (add64 (mmap_base t) alloc_size) (\<lambda>b.
                       return_rax (of_nat start_addr) regs (put_task i (t\<lparr>mmap_base := b\<rparr>) k1))
                  else return_rax (of_nat start_addr) regs k1)
            else return_rax (neg_errno 12) regs k))"

definition sys_brk :: "'d platform \<Rightarrow> 'd syscall" where
  "sys_brk P regs k =
     (let requested_brk = unat (rdi regs) in
      case running_task k of
        None \<Rightarrow> return_rax 0 regs k
      | Some (i, t) \<Rightarrow>
          if requested_brk = 0 then return_rax (of_nat (program_break t)) regs k
          else if requested_brk < heap_start t \<or> 0x700000000000 \<le> requested_brk
          then return_rax (of_nat (program_break t)) regs k
          else
            bindR (add64 (program_break t) 0xFFF) (\<lambda>b.
            bindR (add64 requested_brk 0xFFF) (\<lambda>n.
            let current_page_end = align_down 4096 b; new_page_end = align_down 4096 n in
            if current_page_end < new_page_end
            then
              bindR (map_user_range (pf_mapper P) (pf_hhdm P) (pml4_frame t)
                       (map (\<lambda>j. current_page_end + j * 4096) [0 ..< (new_page_end - current_page_end) div 4096])
                       (kphys k)) (\<lambda>(r, s).
              let k1 = k\<lparr>kphys := s\<rparr> in
              case r of
                Inl _ \<Rightarrow> return_rax (of_nat (program_break t)) regs k1
              | Inr _ \<Rightarrow> return_rax (of_nat requested_brk) regs (put_task i (t\<lparr>program_break := requested_brk\<rparr>) k1))
            else return_rax (of_nat requested_brk) regs (put_task i (t\<lparr>program_break := requested_brk\<rparr>) k))))"

section \<open>Processes\<close>

text \<open>The addresses of the arguments in a block of zero-terminated strings at \<open>p\<close>.\<close>

fun argv_scan :: "nat \<Rightarrow> bool \<Rightarrow> u8 list \<Rightarrow> nat list" where
  "argv_scan p is_new_arg [] = []"
| "argv_scan p is_new_arg (b # bs) =
     (if b = 0 then argv_scan (p + 1) True bs
      else if is_new_arg then p # argv_scan (p + 1) False bs
      else argv_scan (p + 1) False bs)"

text \<open>Pushing a 64-bit value on the new program's stack, through its own page table.\<close>

definition push_user :: "mapper \<Rightarrow> nat option \<Rightarrow> nat \<Rightarrow> nat \<Rightarrow> nat \<times> phys_memory \<Rightarrow> (nat \<times> phys_memory) run" where
  "push_user mp hhdm_response pml4 v = (\<lambda>(top, s).
     bindR (sub64 top 8) (\<lambda>top'.
     bindR (write_user mp hhdm_response pml4 top' (u64_bytes (of_nat v)) s) (\<lambda>s'. Inr (top', s'))))"

definition push_args :: "mapper \<Rightarrow> nat option \<Rightarrow> nat \<Rightarrow> u8 list \<Rightarrow> phys_memory \<Rightarrow> (nat \<times> phys_memory) run" where
  "push_args mp hhdm_response pml4 args_buf s =
     bindR (sub64 (0x7FFFF0000000 + 0x1000) (length args_buf)) (\<lambda>strings_base.
     bindR (write_user mp hhdm_response pml4 strings_base args_buf s) (\<lambda>s1.
     let argv_pointers = argv_scan strings_base True args_buf in
     foldR (push_user mp hhdm_response pml4) ([0, 0] @ rev argv_pointers @ [length argv_pointers])
       (align_down 16 strings_base, s1)))"

definition sys_execve :: "'d platform \<Rightarrow> 'd syscall" where
  "sys_execve P regs k =
     (let filename_ptr = unat (rdi regs); args_ptr = unat (rsi regs); args_len = unat (rdx regs);
          c = cr3 (ksched k); mp = pf_mapper P; hh = pf_hhdm P in
      bindR (user_memory_ok P filename_ptr 64 k) (\<lambda>name_valid.
      if \<not> name_valid then return_rax (neg_errno 14) regs k
      else
      bindR (if 0 < args_len then user_memory_ok P args_ptr args_len k else Inr True) (\<lambda>args_valid.
      if \<not> args_valid then return_rax (neg_errno 14) regs k
      else
      bindR (read_cstr c filename_ptr 64 (ram (kphys k))) (\<lambda>name.
      let filename = str_or_empty name in
      bindR (if 0 < args_len \<and> args_len < 4096 then copy_from_user args_ptr args_len k else Inr (filename @ [0])) (\<lambda>args_buf.
      bindR (find_file filename (kvfs k)) (\<lambda>file.
      case file of
        None \<Rightarrow> return_rax (neg_errno 2) regs k
      | Some elf_slice \<Rightarrow>
      bindR (create_isolated_pml4 hh c (kphys k)) (\<lambda>(frame, s1).
      case frame of
        None \<Rightarrow> return_rax (neg_errno 12) regs (k\<lparr>kphys := s1\<rparr>)
      | Some target_pml4 \<Rightarrow>
      bindR (load_elf mp hh elf_slice target_pml4 s1) (\<lambda>(load_result, s2).
      bindR (allocate_and_map_user_page mp hh target_pml4 0x7FFFF0000000 s2) (\<lambda>(stack, s3).
      case stack of
        Inl kernel_err \<Rightarrow> Inr (Returns (syscall_return_err kernel_err regs), k\<lparr>kphys := s3\<rparr>)
      | Inr _ \<Rightarrow>
      bindR (push_args mp hh target_pml4 args_buf s3) (\<lambda>(user_stack_top, s4).
      let k4 = k\<lparr>kphys := s4\<rparr> in
      case load_result of
        Inl e \<Rightarrow> Inr (Returns (syscall_return_err (KernelError_from_ElfError e) regs), k4)
      | Inr entry_point \<Rightarrow>
      bindR (spawn_dynamic (pf_env P) (pf_stack P k4) entry_point target_pml4 user_stack_top
               \<lparr>manager = sman (ksched k4), next_id = knext_id k4, kmem = smem (ksched k4)\<rparr>) (\<lambda>(r, w).
      let k5 = k4\<lparr>ksched := (ksched k4)\<lparr>sman := manager w, smem := kmem w\<rparr>, knext_id := next_id w\<rparr> in
      case r of
        Inl kernel_err \<Rightarrow> Inr (Returns (syscall_return_err kernel_err regs), k5)
      | Inr tid \<Rightarrow> return_rax tid regs k5)))))))))))"

definition sys_wait4 :: "'d syscall" where
  "sys_wait4 regs k =
     (case wait_for_child (rdi regs) (sman (ksched k)) of
        (will_block, tm) \<Rightarrow>
          if will_block
          then bindR (schedule (ksched (put_manager tm k))) (\<lambda>w. Inr (Resumes (regs\<lparr>rax := rdi regs\<rparr>), k\<lparr>ksched := w\<rparr>))
          else return_rax (neg_errno 10) regs (put_manager tm k))"

definition sys_exit :: "'d syscall" where
  "sys_exit regs k = Inr (Halts, put_manager (exit_current_task (sman (ksched k))) k)"

definition sys_poweroff :: "'d platform \<Rightarrow> 'd syscall" where
  "sys_poweroff P regs k =
     Inr (Halts, k\<lparr>kdev := out16 (pf_io P) 0x604 0x2000 (out32 (pf_io P) 0xF4 0x10 (kdev k))\<rparr>)"

definition sys_clear :: "'d syscall" where
  "sys_clear regs k =
     bindR (case kwriter k of
              None \<Rightarrow> Inr None
            | Some w \<Rightarrow> bindR (clear_screen w) (\<lambda>w1. Inr (Some (reset_cursor w1)))) (\<lambda>w.
     return_rax 0 regs (k\<lparr>kwriter := w\<rparr>))"

definition handle_syscall_rust :: "'d platform \<Rightarrow> 'd syscall" where
  "handle_syscall_rust P regs k =
     (if rax regs = 0 then sys_read P regs k
      else if rax regs = 1 then sys_write P regs k
      else if rax regs = 2 then sys_open P regs k
      else if rax regs = 3 then sys_close regs k
      else if rax regs = 9 then sys_mmap P regs k
      else if rax regs = 12 then sys_brk P regs k
      else if rax regs = 59 then sys_execve P regs k
      else if rax regs = 61 then sys_wait4 regs k
      else if rax regs = 60 then sys_exit regs k
      else if rax regs = 88 then sys_poweroff P regs k
      else if rax regs = 500 then sys_clear regs k
      else return_rax (neg_errno 38) regs k)"

section \<open>The assembly entry\<close>

text \<open>
  The processor as a program's \<^verbatim>\<open>syscall\<close> instruction leaves it: the registers \<open>cpu\<close> of a task, the
  argument registers, and \<^verbatim>\<open>rcx\<close> and \<^verbatim>\<open>r11\<close>, which hold the return address and the flags.
\<close>

record ring3_cpu =
  u_cpu :: cpu
  u_args :: SyscallRegisters
  u_rcx :: u64
  u_r11 :: u64

definition read_regs :: "nat \<Rightarrow> memory \<Rightarrow> SyscallRegisters" where
  "read_regs p m =
     \<lparr>rax = peek64 p m, rdi = peek64 (p + 8) m, rsi = peek64 (p + 16) m, rdx = peek64 (p + 24) m,
      r10 = peek64 (p + 32) m, r8 = peek64 (p + 40) m, r9 = peek64 (p + 48) m\<rparr>"

definition write_regs :: "nat \<Rightarrow> SyscallRegisters \<Rightarrow> memory \<Rightarrow> memory" where
  "write_regs p r m =
     poke64 (p + 48) (r9 r) (poke64 (p + 40) (r8 r) (poke64 (p + 32) (r10 r) (poke64 (p + 24) (rdx r)
       (poke64 (p + 16) (rsi r) (poke64 (p + 8) (rdi r) (poke64 p (rax r) m))))))"

fun cpu_pops :: "nat \<Rightarrow> cpu \<times> memory \<Rightarrow> u64 list \<times> cpu \<times> memory" where
  "cpu_pops 0 x = ([], x)"
| "cpu_pops (Suc n) x = (case cpu_pop x of (v, x1) \<Rightarrow> case cpu_pops n x1 of (vs, x2) \<Rightarrow> (v # vs, x2))"

definition sysretq :: "task_env \<Rightarrow> ring3_cpu \<Rightarrow> ring3_cpu" where
  "sysretq env u =
     u\<lparr>u_cpu := (u_cpu u)\<lparr>rip := u_rcx u, rflags := (u_r11 u AND 0x3C7FD7) OR 2,
                            cs := user_code_selector env OR 3, ss := user_data_selector env OR 3\<rparr>\<rparr>"

text \<open>
  Switch to the kernel stack, save the user stack pointer and the registers, align, call the
  dispatcher, undo it all and return. \<open>ret\<close> is the address the \<^verbatim>\<open>call\<close> pushes.
\<close>

definition syscall_entry :: "task_env \<Rightarrow> 'd syscall \<Rightarrow> u64 \<Rightarrow> ring3_cpu \<Rightarrow> 'd kernel \<Rightarrow> (ring3_cpu option \<times> 'd kernel) run" where
  "syscall_entry env handle ret u k =
     (let a = u_args u;
          (c1, m1) = fold cpu_push
            [of_nat (rsp (u_cpu u)), u_rcx u, u_r11 u, r9 a, r8 a, r10 a, rdx a, rsi a, rdi a, rax a]
            ((u_cpu u)\<lparr>rsp := kernel_rsp (ksched k)\<rparr>, smem (ksched k));
          regs = rsp c1;
          (c2, m2) = cpu_push (r12 c1) (c1, m1);
          c3 = c2\<lparr>r12 := of_nat (rsp c2), rsp := align_down 16 (rsp c2)\<rparr>;
          (c4, m4) = cpu_push ret (c3, m2) in
      bindR (handle (read_regs regs m4) (k\<lparr>ksched := (ksched k)\<lparr>smem := m4\<rparr>\<rparr>)) (\<lambda>(out, k').
      case out of
        Returns r \<Rightarrow>
          let m5 = write_regs regs r (smem (ksched k'));
              (saved_r12, c6, _) = cpu_pop (c3\<lparr>rsp := unat (r12 c3)\<rparr>, m5);
              (vs, c7, _) = cpu_pops 10 (c6\<lparr>r12 := saved_r12\<rparr>, m5) in
          Inr (Some (sysretq env
                 \<lparr>u_cpu = c7\<lparr>rsp := unat (vs ! 9)\<rparr>,
                  u_args = \<lparr>rax = vs ! 0, rdi = vs ! 1, rsi = vs ! 2, rdx = vs ! 3, r10 = vs ! 4, r8 = vs ! 5, r9 = vs ! 6\<rparr>,
                  u_rcx = vs ! 8, u_r11 = vs ! 7\<rparr>),
               k'\<lparr>ksched := (ksched k')\<lparr>smem := m5\<rparr>\<rparr>)
      | Resumes _ \<Rightarrow> Inr (None, k')
      | Halts \<Rightarrow> Inr (None, k')))"

section \<open>Buffers of the running program\<close>

text \<open>
  A buffer the kernel may fill: its bytes are mapped writable to different addresses, and
  none of those addresses holds a page table entry on the way to the buffer.
\<close>

definition buffer_at :: "memory \<Rightarrow> nat \<Rightarrow> nat \<Rightarrow> nat \<Rightarrow> (nat \<Rightarrow> nat) \<Rightarrow> bool" where
  "buffer_at m c ptr len pa \<longleftrightarrow>
     inj_on pa {..<len}
   \<and> (\<forall>m'. (\<forall>x. x \<notin> pa ` {..<len} \<longrightarrow> m' x = m x) \<longrightarrow> (\<forall>k<len. page_walk m' c (ptr + k) = Some (pa k, True)))"

lemma buffer_at_walk: "buffer_at m c ptr len pa \<Longrightarrow> k < len \<Longrightarrow> page_walk m c (ptr + k) = Some (pa k, True)"
  by (simp add: buffer_at_def)

lemma buffer_at_cong:
  assumes "buffer_at m c ptr len pa" and "\<forall>x. x \<notin> pa ` {..<len} \<longrightarrow> m' x = m x"
  shows "buffer_at m' c ptr len pa"
  using assms unfolding buffer_at_def by metis

lemma write_user_from:
  assumes "buffer_at (ram s) c ptr len pa" and "j + length bs \<le> len"
  shows "\<exists>m'. write_user mp h c (ptr + j) bs s = Inr (s\<lparr>ram := m'\<rparr>)
    \<and> (\<forall>i<length bs. m' (pa (j + i)) = bs ! i) \<and> (\<forall>x. x \<notin> pa ` {j..<j + length bs} \<longrightarrow> m' x = ram s x)"
  using assms
proof (induction bs arbitrary: s j)
  case Nil
  show ?case by (rule exI [of _ "ram s"]) simp
next
  case (Cons b bs)
  have j: "j < len" using Cons.prems(2) by simp
  let ?s1 = "s\<lparr>ram := (ram s)(pa j := b)\<rparr>"
  have st: "store_byte mp h c (ptr + j) b s = Inr ?s1"
    using buffer_at_walk [OF Cons.prems(1) j] by (simp add: store_byte_def store_retry.simps)
  have "buffer_at (ram ?s1) c ptr len pa"
    using j by (intro buffer_at_cong [OF Cons.prems(1)]) auto
  moreover have "Suc j + length bs \<le> len" using Cons.prems(2) by simp
  ultimately obtain m' where m': "write_user mp h c (ptr + Suc j) bs ?s1 = Inr (?s1\<lparr>ram := m'\<rparr>)"
      "\<forall>i<length bs. m' (pa (Suc j + i)) = bs ! i" "\<forall>x. x \<notin> pa ` {Suc j..<Suc j + length bs} \<longrightarrow> m' x = ram ?s1 x"
    using Cons.IH by blast
  have inj: "inj_on pa {..<len}" using Cons.prems(1) by (simp add: buffer_at_def)
  have "pa j \<notin> pa ` {Suc j..<Suc j + length bs}"
  proof
    assume "pa j \<in> pa ` {Suc j..<Suc j + length bs}"
    then obtain i where "pa j = pa i" "Suc j \<le> i" "i < Suc j + length bs" by auto
    then show False using inj j Cons.prems(2) by (auto dest: inj_onD)
  qed
  then have pj: "m' (pa j) = b" using m'(3) by simp
  have vals: "m' (pa (j + i)) = (b # bs) ! i" if "i < length (b # bs)" for i
    using m'(2) pj that by (cases i) auto
  have rest: "m' x = ram s x" if "x \<notin> pa ` {j..<j + length (b # bs)}" for x
  proof -
    have "{Suc j..<Suc j + length bs} \<subseteq> {j..<j + length (b # bs)}" "j \<in> {j..<j + length (b # bs)}" by auto
    then have "x \<notin> pa ` {Suc j..<Suc j + length bs}" "x \<noteq> pa j" using that by blast+
    then show ?thesis using m'(3) by simp
  qed
  show ?case using st m'(1) vals rest by (intro exI [of _ m']) simp
qed

lemma write_user_ok:
  assumes "buffer_at (ram s) c ptr (length bs) pa"
  shows "\<exists>m'. write_user mp h c ptr bs s = Inr (s\<lparr>ram := m'\<rparr>) \<and> (\<forall>i<length bs. m' (pa i) = bs ! i)
    \<and> (\<forall>x. x \<notin> pa ` {..<length bs} \<longrightarrow> m' x = ram s x)"
  using write_user_from [OF assms, of 0 bs mp h] by (simp add: atLeast0LessThan)

lemma read_user_from:
  assumes "buffer_at m c ptr len pa" and "j + n \<le> len"
  shows "read_user c (ptr + j) n m = Inr (map (\<lambda>i. m (pa (j + i))) [0 ..< n])"
  using assms(2)
proof (induction n arbitrary: j)
  case (Suc n)
  have "load_byte c (ptr + j) m = Inr (m (pa j))"
    using buffer_at_walk [OF assms(1), of j] Suc.prems by (simp add: load_byte_def)
  moreover have "read_user c (ptr + Suc j) n m = Inr (map (\<lambda>i. m (pa (Suc j + i))) [0 ..< n])"
    using Suc.IH [of "Suc j"] Suc.prems by simp
  moreover have "map (\<lambda>i. m (pa (j + i))) [0 ..< Suc n] = m (pa j) # map (\<lambda>i. m (pa (Suc j + i))) [0 ..< n]"
    by (subst upt_conv_Cons) (simp_all add: map_Suc_upt [symmetric] del: upt_Suc)
  ultimately show ?case by simp
qed simp

lemma buffer_read_back:
  assumes "buffer_at m c ptr len pa" and "\<forall>x. x \<notin> pa ` {..<len} \<longrightarrow> m' x = m x"
    and "\<forall>i<len. m' (pa i) = bs ! i" and "length bs = len"
  shows "read_user c ptr len m' = Inr bs"
proof -
  have "read_user c (ptr + 0) len m' = Inr (map (\<lambda>i. m' (pa (0 + i))) [0 ..< len])"
    using buffer_at_cong [OF assms(1,2)] by (rule read_user_from) simp
  moreover have "map (\<lambda>i. m' (pa i)) [0 ..< len] = bs"
    using assms(3,4) by (intro nth_equalityI) auto
  ultimately show ?thesis by simp
qed

lemma running_task_put [simp]:
  "running_task k = Some (i, t) \<Longrightarrow> running_task (put_task i t' k) = Some (i, t')"
  by (auto simp: running_task_def put_task_def Let_def split: option.splits)

lemma running_task_cong: "ksched k' = ksched k \<Longrightarrow> running_task k' = running_task k"
  by (simp only: running_task_def)

lemma put_task_fields [simp]:
  "kphys (put_task i t k) = kphys k" "kdev (put_task i t k) = kdev k" "kvfs (put_task i t k) = kvfs k"
  "cr3 (ksched (put_task i t k)) = cr3 (ksched k)"
  by (simp_all add: put_task_def Let_def)

text \<open>Reading through any node that fills a prefix of the buffer.\<close>

lemma read_file_ok:
  assumes b: "buffer_at (ram (kphys k)) (cr3 (ksched k)) ptr len pa"
    and r: "running_task k = Some (i, t)"
    and v: "\<forall>buf. length buf = len \<longrightarrow> vnode_read (pf_devs P) v off buf (kdev k) = Inr (Inr (length data, data @ drop (length data) buf), kdev k)"
    and d: "length data \<le> len" and o: "off + length data < 2 ^ 64"
  shows "\<exists>k'. read_file P fd ptr len (i, t) v off regs k = Inr (Returns (regs\<lparr>rax := of_nat (length data)\<rparr>), k')
    \<and> read_user (cr3 (ksched k')) ptr (length data) (ram (kphys k')) = Inr data
    \<and> running_task k' = Some (i, if data = [] then t else
          t\<lparr>fd_table := fd_write_slot fd (RegularFile v (off + length data)) (fd_table t)\<rparr>)
    \<and> kdev k' = kdev k"
proof -
  let ?c = "cr3 (ksched k)"
  define buf where "buf = map (\<lambda>i. ram (kphys k) (pa i)) [0 ..< len]"
  have lb: "length buf = len" by (simp add: buf_def)
  have ru: "read_user ?c ptr len (ram (kphys k)) = Inr buf"
    using read_user_from [OF b, of 0 len] by (simp add: buf_def)
  define out where "out = data @ drop (length data) buf"
  have lo: "length out = len" using d lb by (simp add: out_def)
  obtain m' where m': "write_user (pf_mapper P) (pf_hhdm P) ?c ptr out (kphys k) = Inr ((kphys k)\<lparr>ram := m'\<rparr>)"
      "\<forall>i<len. m' (pa i) = out ! i" "\<forall>x. x \<notin> pa ` {..<len} \<longrightarrow> m' x = ram (kphys k) x"
    using write_user_ok [of "kphys k" ?c ptr out pa "pf_mapper P" "pf_hhdm P"] b lo by auto
  let ?k1 = "k\<lparr>kphys := (kphys k)\<lparr>ram := m'\<rparr>\<rparr>"
  have rd: "read_user ?c ptr (length data) m' = Inr data"
  proof -
    have "read_user ?c (ptr + 0) (length data) m' = Inr (map (\<lambda>i. m' (pa (0 + i))) [0 ..< length data])"
      using buffer_at_cong [OF b m'(3)] d by (intro read_user_from) auto
    moreover have "map (\<lambda>i. m' (pa i)) [0 ..< length data] = data"
      using m'(2) d by (intro nth_equalityI) (auto simp: out_def nth_append)
    ultimately show ?thesis by simp
  qed
  have vr: "vnode_read (pf_devs P) v off buf (kdev k) = Inr (Inr (length data, out), kdev k)"
    using v lb by (simp add: out_def)
  have cp: "copy_to_user P ptr out k = Inr ?k1" using m'(1) by (simp add: copy_to_user_def)
  have kd: "k\<lparr>kdev := kdev k\<rparr> = k" by simp
  have r1: "running_task ?k1 = Some (i, t)" using r running_task_cong [of ?k1 k] by simp
  show ?thesis
  proof (cases "data = []")
    case True
    then have "read_file P fd ptr len (i, t) v off regs k = Inr (Returns (regs\<lparr>rax := of_nat (length data)\<rparr>), ?k1)"
      using ru vr cp by (simp add: read_file_def copy_from_user_def return_rax_def)
    then show ?thesis using rd r1 True by simp
  next
    case False
    let ?k2 = "put_task i (t\<lparr>fd_table := fd_write_slot fd (RegularFile v (off + length data)) (fd_table t)\<rparr>) ?k1"
    have "read_file P fd ptr len (i, t) v off regs k = Inr (Returns (regs\<lparr>rax := of_nat (length data)\<rparr>), ?k2)"
      using ru vr cp False o by (simp add: read_file_def copy_from_user_def return_rax_def add_w_def)
    then show ?thesis using rd r1 False by simp
  qed
qed

text \<open>
  C5: reading an open file of the archive. The call returns the number of bytes that are left, at
  most the length of the buffer; the program's buffer then starts with those bytes of the
  file, and the descriptor's offset has advanced by their number.
\<close>

theorem read_returns_file_bytes:
  assumes "rax regs = 0" and "pf_hhdm P = Some hhdm" and "\<forall>va < 2 ^ 47. walk_fits hhdm (ram (kphys k)) (cr3 (ksched k)) va"
    and "running_task k = Some (i, t)"
    and "fd_get (fd_table t) (unat (rdi regs)) = Some (RegularFile (TarVNode file) off)" and "length file < 2 ^ 63" and "off \<le> length file"
    and "0 < rsi regs" and "unat (rsi regs) + unat (rdx regs) < 2 ^ 47"
    and "\<forall>j < unat (rdx regs). user_reachable (ram (kphys k)) (cr3 (ksched k)) (unat (rsi regs) + j)"
    and "buffer_at (ram (kphys k)) (cr3 (ksched k)) (unat (rsi regs)) (unat (rdx regs)) pa"
    and "data = take (unat (rdx regs)) (drop off file)"
  shows "\<exists>k'. handle_syscall_rust P regs k = Inr (Returns (regs\<lparr>rax := of_nat (length data)\<rparr>), k')
    \<and> read_user (cr3 (ksched k')) (unat (rsi regs)) (length data) (ram (kphys k')) = Inr data
    \<and> running_task k' = Some (i, if data = [] then t else
          t\<lparr>fd_table := fd_write_slot (unat (rdi regs)) (RegularFile (TarVNode file) (off + length data)) (fd_table t)\<rparr>)"
proof -
  have val: "user_memory_ok P (unat (rsi regs)) (unat (rdx regs)) k = Inr True"
    using assms(2,8,9,10) reachable_leaf_user is_valid_user_memory_ok [OF assms(3), of "unat (rsi regs)" "unat (rdx regs)"]
    by (auto simp: user_memory_ok_def word_gt_0 unat_gt_0)
  have v: "\<forall>buf. length buf = unat (rdx regs) \<longrightarrow>
      vnode_read (pf_devs P) (TarVNode file) off buf (kdev k) = Inr (Inr (length data, data @ drop (length data) buf), kdev k)"
    using assms(7,12) by (auto simp: vnode_read_def tar_read_def bslice_def bsplice_def Let_def retK_def min_def)
  have "off + length data < 2 ^ 64" using assms(6,7,12) by auto
  then obtain k' where "read_file P (unat (rdi regs)) (unat (rsi regs)) (unat (rdx regs)) (i, t) (TarVNode file) off regs k
        = Inr (Returns (regs\<lparr>rax := of_nat (length data)\<rparr>), k')"
      "read_user (cr3 (ksched k')) (unat (rsi regs)) (length data) (ram (kphys k')) = Inr data"
      "running_task k' = Some (i, if data = [] then t else
          t\<lparr>fd_table := fd_write_slot (unat (rdi regs)) (RegularFile (TarVNode file) (off + length data)) (fd_table t)\<rparr>)"
    using read_file_ok [OF assms(11,4) v] assms(12) by fastforce
  then show ?thesis using assms(1,4,5) val by (simp add: handle_syscall_rust_def sys_read_def Let_def)
qed

text \<open>A kernel with one task that has a file of the archive open as descriptor 3.\<close>

definition demo_platform :: "(nat \<Rightarrow> u8 list) platform" where
  "demo_platform =
     \<lparr>pf_mapper = shifted_mapper, pf_hhdm = Some 0, pf_font = (\<lambda>_. None), pf_env = demo_env,
      pf_devs = (\<lambda>_. image_device 8),
      pf_io = \<lparr>in8 = (\<lambda>_ h. (0, h)), out8 = (\<lambda>_ _ h. h), out16 = (\<lambda>_ _ h. h), in32 = (\<lambda>_ h. (0, h)), out32 = (\<lambda>_ _ h. h)\<rparr>,
      pf_stack = (\<lambda>_. Some 0x20000), pf_wake = (\<lambda>_ k. k)\<rparr>"

definition reader_task :: "vnode task" where
  "reader_task =
     \<lparr>task_id = 1, parent_id = None, task_rsp = 0x8000, pml4_frame = 0x1000, stack_start = 0x1000,
      stack_end = 0x11000, privilege = UserMode, heap_start = 0x200000000, program_break = 0x200000000,
      mmap_base = 0x400000000000, fd_table = fd_write_slot 3 (RegularFile (TarVNode [7, 8, 9]) 1) FdTable_new\<rparr>"

definition demo_kernel :: "(nat \<Rightarrow> u8 list) kernel" where
  "demo_kernel =
     \<lparr>ksched = \<lparr>sman = \<lparr>ready_queue = [], task_registry = [(1, reader_task)], task_states = [(1, Ready)],
                       current_task = Some 1, ticks = 0\<rparr>,
               boot_rsp = 0, tss_rsp0 = 0, kernel_rsp = 0x11000, cr3 = 0x1000, eoi_count = 0, scpu = demo_cpu, smem = (\<lambda>_. 0)\<rparr>,
      knext_id = 2, kphys = \<lparr>falloc = empty_allocator, ram = huge_tables\<rparr>, kvfs = vfs_empty, kdev = (\<lambda>_. []),
      kring = empty_ring, kwriter = None\<rparr>"

lemma demo_kernel_simps:
  "running_task demo_kernel = Some (1, reader_task)" "cr3 (ksched demo_kernel) = 0x1000"
  "ram (kphys demo_kernel) = huge_tables" "pf_hhdm demo_platform = Some 0"
  by (simp_all add: running_task_def demo_kernel_def demo_platform_def)

lemma demo_buffer: "buffer_at huge_tables 0x1000 0x100000 5 (\<lambda>k. 0x100000 + k)"
  unfolding buffer_at_def
proof (intro conjI allI impI)
  fix m' :: memory and k :: nat
  assume m': "\<forall>x. x \<notin> (\<lambda>k. 0x100000 + k) ` {..<5} \<longrightarrow> m' x = huge_tables x" and k: "k < 5"
  have "x \<notin> (\<lambda>k. 0x100000 + k) ` {..<5}" if "x < 0x3000" for x :: nat using that by auto
  then show "page_walk m' 0x1000 (0x100000 + k) = Some (0x100000 + k, True)"
    using m' k by (intro huge_tables_walk) auto
qed (simp add: inj_on_def)

theorem read_returns_file_bytes_witness:
  "\<exists>k'. handle_syscall_rust demo_platform \<lparr>rax = 0, rdi = 3, rsi = 0x100000, rdx = 5, r10 = 0, r8 = 0, r9 = 0\<rparr> demo_kernel
       = Inr (Returns \<lparr>rax = 2, rdi = 3, rsi = 0x100000, rdx = 5, r10 = 0, r8 = 0, r9 = 0\<rparr>, k')
     \<and> read_user (cr3 (ksched k')) 0x100000 2 (ram (kphys k')) = Inr [8, 9]"
proof -
  let ?r = "\<lparr>rax = 0, rdi = 3, rsi = 0x100000, rdx = 5, r10 = 0, r8 = 0, r9 = 0\<rparr> :: SyscallRegisters"
  note d = demo_kernel_simps
  have fd: "fd_get (fd_table reader_task) (unat (rdi ?r)) = Some (RegularFile (TarVNode [7, 8, 9]) 1)"
    by (simp add: reader_task_def fd_get_def fd_write_slot_def)
  have f: "\<forall>va < 2 ^ 47. walk_fits 0 (ram (kphys demo_kernel)) (cr3 (ksched demo_kernel)) va"
    unfolding d by (simp add: walk_fits_low)
  have ur: "\<forall>j < unat (rdx ?r). user_reachable (ram (kphys demo_kernel)) (cr3 (ksched demo_kernel)) (unat (rsi ?r) + j)"
    unfolding d by (auto intro!: huge_tables_walk)
  have bf: "buffer_at (ram (kphys demo_kernel)) (cr3 (ksched demo_kernel)) (unat (rsi ?r)) (unat (rdx ?r)) (\<lambda>k. 0x100000 + k)"
    unfolding d using demo_buffer by simp
  have da: "[8, 9] = take (unat (rdx ?r)) (drop 1 [7, 8, 9 :: u8])" by simp
  have l: "length [8, 9 :: u8] = 2" by simp
  obtain k' where "handle_syscall_rust demo_platform ?r demo_kernel = Inr (Returns (?r\<lparr>rax := of_nat (length [8, 9 :: u8])\<rparr>), k')"
      "read_user (cr3 (ksched k')) (unat (rsi ?r)) (length [8, 9 :: u8]) (ram (kphys k')) = Inr [8, 9]"
    using read_returns_file_bytes [OF _ d(4) f d(1) fd _ _ _ _ ur bf da] by force
  then show ?thesis unfolding l by auto
qed

section \<open>Registers across a call\<close>

lemma cpu_pushes:
  assumes "8 * length vs \<le> rsp c" and "rsp c < 2 ^ 64"
  shows "\<exists>m'. fold cpu_push vs (c, m) = (c\<lparr>rsp := rsp c - 8 * length vs\<rparr>, m')
    \<and> (\<forall>i<length vs. peek64 (rsp c - 8 * Suc i) m' = vs ! i)
    \<and> (\<forall>x. x < rsp c - 8 * length vs \<or> rsp c \<le> x \<longrightarrow> m' x = m x)"
  using assms
proof (induction vs arbitrary: c m)
  case (Cons v vs)
  let ?c1 = "c\<lparr>rsp := rsp c - 8\<rparr>" and ?m1 = "poke64 (rsp c - 8) v m"
  have st: "cpu_push v (c, m) = (?c1, ?m1)"
    using Cons.prems by (intro cpu_push_rsp) auto
  obtain m' where m': "fold cpu_push vs (?c1, ?m1) = (?c1\<lparr>rsp := rsp ?c1 - 8 * length vs\<rparr>, m')"
      "\<forall>i<length vs. peek64 (rsp ?c1 - 8 * Suc i) m' = vs ! i"
      "\<forall>x. x < rsp ?c1 - 8 * length vs \<or> rsp ?c1 \<le> x \<longrightarrow> m' x = ?m1 x"
  proof -
    have "8 * length vs \<le> rsp ?c1" "rsp ?c1 < 2 ^ 64" using Cons.prems by auto
    then show thesis using Cons.IH [of ?c1 ?m1] that by blast
  qed
  have top: "peek64 (rsp c - 8) m' = v"
  proof -
    have "peek64 (rsp c - 8) m' = peek64 (rsp c - 8) ?m1" using m'(3) by (intro peek64_cong) simp
    then show ?thesis by simp
  qed
  have vals: "peek64 (rsp c - 8 * Suc i) m' = (v # vs) ! i" if "i < length (v # vs)" for i
    using that top m'(2) by (cases i) (auto simp: diff_diff_left)
  have rest: "m' x = m x" if "x < rsp c - 8 * length (v # vs) \<or> rsp c \<le> x" for x
  proof -
    have "m' x = ?m1 x" using that m'(3) by auto
    moreover have "?m1 x = m x" using that Cons.prems by (intro poke64_other) auto
    ultimately show ?thesis by simp
  qed
  show ?case using st m'(1) vals rest by (intro exI [of _ m']) (auto simp: diff_diff_left)
qed simp

lemma cpu_pops_ok:
  assumes "rsp c + 8 * n < 2 ^ 64"
  shows "cpu_pops n (c, m) = (map (\<lambda>i. peek64 (rsp c + 8 * i) m) [0 ..< n], c\<lparr>rsp := rsp c + 8 * n\<rparr>, m)"
  using assms
proof (induction n arbitrary: c)
  case (Suc n)
  have "map (\<lambda>i. peek64 (rsp c + 8 * i) m) [0 ..< Suc n]
      = peek64 (rsp c) m # map (\<lambda>i. peek64 (rsp c + 8 + 8 * i) m) [0 ..< n]"
    by (subst upt_conv_Cons) (simp_all add: map_Suc_upt [symmetric] add.assoc del: upt_Suc)
  then show ?case using Suc.IH [of "c\<lparr>rsp := rsp c + 8\<rparr>"] Suc.prems by (simp add: cpu_pop_def add.assoc del: upt_Suc)
qed simp

lemma write_regs_peek:
  "peek64 p (write_regs p r m) = rax r" "peek64 (p + 8) (write_regs p r m) = rdi r"
  "peek64 (p + 16) (write_regs p r m) = rsi r" "peek64 (p + 24) (write_regs p r m) = rdx r"
  "peek64 (p + 32) (write_regs p r m) = r10 r" "peek64 (p + 40) (write_regs p r m) = r8 r"
  "peek64 (p + 48) (write_regs p r m) = r9 r"
  by (simp_all add: write_regs_def peek_poke_other)

lemma write_regs_other: "q + 8 \<le> p \<or> p + 56 \<le> q \<Longrightarrow> peek64 q (write_regs p r m) = peek64 q m"
  by (elim disjE) (simp_all add: write_regs_def peek_poke_other)

text \<open>The frame the entry leaves on the kernel stack, at the top \<open>K\<close>.\<close>

definition saved_frame :: "nat \<Rightarrow> ring3_cpu \<Rightarrow> memory \<Rightarrow> bool" where
  "saved_frame K u m \<longleftrightarrow>
     read_regs (K - 80) m = u_args u \<and> peek64 (K - 88) m = r12 (u_cpu u)
     \<and> peek64 (K - 24) m = u_r11 u \<and> peek64 (K - 16) m = u_rcx u \<and> peek64 (K - 8) m = of_nat (rsp (u_cpu u))"

lemma peek64_same: "(\<forall>x. a \<le> x \<and> x < b \<longrightarrow> m' x = m x) \<Longrightarrow> a \<le> p \<Longrightarrow> p + 8 \<le> b \<Longrightarrow> peek64 p m' = peek64 p m"
  by (rule peek64_cong) auto

lemma saved_frame_cong:
  assumes "saved_frame K u m" and "\<forall>x. K - 88 \<le> x \<and> x < K \<longrightarrow> m' x = m x" and "88 \<le> K"
  shows "saved_frame K u m'"
proof -
  have "peek64 (K - 88 + d) m' = peek64 (K - 88 + d) m" if "d \<le> 80" for d
    using that assms(3) by (intro peek64_same [OF assms(2)]) auto
  from this [of 0] this [of 8] this [of 16] this [of 24] this [of 32] this [of 40] this [of 48] this [of 56]
    this [of 64] this [of 72] this [of 80]
  show ?thesis using assms(1,3) by (simp add: saved_frame_def read_regs_def)
qed

lemma entry_pushes:
  fixes u :: ring3_cpu and K :: nat
  defines "a \<equiv> u_args u"
  assumes K: "88 \<le> K" "K < 2 ^ 64"
  shows "\<exists>m2. (let (c1, m1) = fold cpu_push
            [of_nat (rsp (u_cpu u)), u_rcx u, u_r11 u, r9 a, r8 a, r10 a, rdx a, rsi a, rdi a, rax a]
            ((u_cpu u)\<lparr>rsp := K\<rparr>, m) in (rsp c1, cpu_push (r12 c1) (c1, m1)))
        = (K - 80, (u_cpu u)\<lparr>rsp := K - 88\<rparr>, m2) \<and> saved_frame K u m2"
proof -
  let ?vs = "[of_nat (rsp (u_cpu u)), u_rcx u, u_r11 u, r9 a, r8 a, r10 a, rdx a, rsi a, rdi a, rax a]"
  let ?c = "(u_cpu u)\<lparr>rsp := K\<rparr>"
  have eq: "fold cpu_push (?vs @ [r12 (u_cpu u)]) (?c, m) = cpu_push (r12 (u_cpu u)) (fold cpu_push ?vs (?c, m))" by simp
  obtain m1 where m1: "fold cpu_push ?vs (?c, m) = (?c\<lparr>rsp := rsp ?c - 8 * length ?vs\<rparr>, m1)"
    using cpu_pushes [of ?vs ?c m] K by auto
  obtain m2 where m2: "fold cpu_push (?vs @ [r12 (u_cpu u)]) (?c, m) = (?c\<lparr>rsp := rsp ?c - 8 * length (?vs @ [r12 (u_cpu u)])\<rparr>, m2)"
      "\<forall>i<length (?vs @ [r12 (u_cpu u)]). peek64 (rsp ?c - 8 * Suc i) m2 = (?vs @ [r12 (u_cpu u)]) ! i"
    using cpu_pushes [of "?vs @ [r12 (u_cpu u)]" ?c m] K by auto
  have "saved_frame K u m2"
  proof -
    have p: "peek64 (K - 8 * Suc i) m2 = (?vs @ [r12 (u_cpu u)]) ! i" if "i < 11" for i using m2(2) that by simp
    have k: "K - 80 + 8 = K - 72" "K - 80 + 16 = K - 64" "K - 80 + 24 = K - 56" "K - 80 + 32 = K - 48" "K - 80 + 40 = K - 40"
        "K - 80 + 48 = K - 32" using K by auto
    show ?thesis
      using p [of 0] p [of 1] p [of 2] p [of 3] p [of 4] p [of 5] p [of 6] p [of 7] p [of 8] p [of 9] p [of 10]
      by (simp add: saved_frame_def read_regs_def k a_def)
  qed
  then show ?thesis using m1 m2(1) eq by (intro exI [of _ m2]) (simp add: Let_def)
qed

lemma frame_pops:
  fixes r :: SyscallRegisters and m :: memory and K :: nat
  defines "m5 \<equiv> write_regs (K - 80) r m"
  assumes sf: "saved_frame K u m" and K: "88 \<le> K" "K < 2 ^ 64"
  shows "cpu_pop (c\<lparr>rsp := K - 88\<rparr>, m5) = (r12 (u_cpu u), c\<lparr>rsp := K - 80\<rparr>, m5)"
    and "cpu_pops 10 (c\<lparr>rsp := K - 80\<rparr>, m5)
      = ([rax r, rdi r, rsi r, rdx r, r10 r, r8 r, r9 r, u_r11 u, u_rcx u, of_nat (rsp (u_cpu u))], c\<lparr>rsp := K\<rparr>, m5)"
proof -
  show "cpu_pop (c\<lparr>rsp := K - 88\<rparr>, m5) = (r12 (u_cpu u), c\<lparr>rsp := K - 80\<rparr>, m5)"
    using sf K by (simp add: cpu_pop_def m5_def write_regs_other saved_frame_def)
  have k: "K - 80 + 56 = K - 24" "K - 80 + 64 = K - 16" "K - 80 + 72 = K - 8" using K by auto
  have o: "peek64 q m5 = peek64 q m" if "K - 24 \<le> q" for q
    unfolding m5_def using that K by (intro write_regs_other) auto
  have hi: "peek64 (K - 24) m5 = u_r11 u" "peek64 (K - 16) m5 = u_rcx u" "peek64 (K - 8) m5 = of_nat (rsp (u_cpu u))"
    using sf K o by (simp_all add: saved_frame_def)
  have lo: "peek64 (K - 80) m5 = rax r" "peek64 (K - 80 + 8) m5 = rdi r" "peek64 (K - 80 + 16) m5 = rsi r"
      "peek64 (K - 80 + 24) m5 = rdx r" "peek64 (K - 80 + 32) m5 = r10 r" "peek64 (K - 80 + 40) m5 = r8 r"
      "peek64 (K - 80 + 48) m5 = r9 r"
    by (simp_all add: m5_def write_regs_peek)
  have "cpu_pops 10 (c\<lparr>rsp := K - 80\<rparr>, m5) = (map (\<lambda>i. peek64 (K - 80 + 8 * i) m5) [0 ..< 10], c\<lparr>rsp := K\<rparr>, m5)"
    using cpu_pops_ok [of "c\<lparr>rsp := K - 80\<rparr>" 10 m5] K by simp
  moreover have "[0 ..< 10] = [0, 1, 2, 3, 4, 5, 6, 7, 8, 9 :: nat]" by (simp add: upt_rec)
  ultimately show "cpu_pops 10 (c\<lparr>rsp := K - 80\<rparr>, m5)
      = ([rax r, rdi r, rsi r, rdx r, r10 r, r8 r, r9 r, u_r11 u, u_rcx u, of_nat (rsp (u_cpu u))], c\<lparr>rsp := K\<rparr>, m5)"
    by (simp add: k hi lo)
qed

text \<open>
  C16: a system call that returns gives the program back exactly what it had: the instruction
  after the call, its stack pointer and every register the dispatcher does not write, with
  the flags the processor allows. The dispatcher sees the registers of the program, and may
  change anything but the saved frame on the kernel stack.
\<close>

theorem syscall_restores_registers:
  assumes "104 \<le> kernel_rsp (ksched k)" and "kernel_rsp (ksched k) < 2 ^ 64" and "rsp (u_cpu u) < 2 ^ 64"
    and "\<forall>m. \<exists>k'. handle (u_args u) (k\<lparr>ksched := (ksched k)\<lparr>smem := m\<rparr>\<rparr>) = Inr (Returns r, k')
          \<and> (\<forall>x. kernel_rsp (ksched k) - 88 \<le> x \<and> x < kernel_rsp (ksched k) \<longrightarrow> smem (ksched k') x = m x)"
  shows "\<exists>k'. syscall_entry env handle ret u k = Inr (Some
      \<lparr>u_cpu = (u_cpu u)\<lparr>rip := u_rcx u, rflags := (u_r11 u AND 0x3C7FD7) OR 2,
                         cs := user_code_selector env OR 3, ss := user_data_selector env OR 3\<rparr>,
       u_args = r, u_rcx = u_rcx u, u_r11 = u_r11 u\<rparr>, k')"
proof -
  let ?K = "kernel_rsp (ksched k)" and ?a = "u_args u"
  obtain m2 where m2: "(let (c1, m1) = fold cpu_push
            [of_nat (rsp (u_cpu u)), u_rcx u, u_r11 u, r9 ?a, r8 ?a, r10 ?a, rdx ?a, rsi ?a, rdi ?a, rax ?a]
            ((u_cpu u)\<lparr>rsp := ?K\<rparr>, smem (ksched k)) in (rsp c1, cpu_push (r12 c1) (c1, m1)))
        = (?K - 80, (u_cpu u)\<lparr>rsp := ?K - 88\<rparr>, m2)" and sf: "saved_frame ?K u m2"
    using entry_pushes [of ?K u "smem (ksched k)"] assms(1,2) by auto
  let ?c3 = "(u_cpu u)\<lparr>r12 := of_nat (?K - 88), rsp := align_down 16 (?K - 88)\<rparr>"
  obtain c4 m4 where c4: "cpu_push ret (?c3, m2) = (c4, m4)" by (cases "cpu_push ret (?c3, m2)") auto
  have al: "8 \<le> align_down 16 (?K - 88)" "align_down 16 (?K - 88) \<le> ?K - 88"
  proof -
    have "align_down 16 16 \<le> align_down 16 (?K - 88)" using assms(1) by (intro align_down_mono) simp
    moreover have "align_down 16 16 = (16 :: nat)" by (simp add: align_down_def)
    ultimately show "8 \<le> align_down 16 (?K - 88)" by linarith
  qed (rule align_down_le)
  have m4: "m4 = poke64 (align_down 16 (?K - 88) - 8) ret m2"
    using c4 cpu_push_rsp [of ?c3 ret m2] al assms(2) by simp
  have out: "m4 x = m2 x" if "?K - 88 \<le> x" for x
    unfolding m4 using that al by (intro poke64_other) auto
  have sf4: "saved_frame ?K u m4" using assms(1) out by (intro saved_frame_cong [OF sf]) auto
  obtain k' where k': "handle ?a (k\<lparr>ksched := (ksched k)\<lparr>smem := m4\<rparr>\<rparr>) = Inr (Returns r, k')"
      "\<forall>x. ?K - 88 \<le> x \<and> x < ?K \<longrightarrow> smem (ksched k') x = m4 x"
    using assms(4) by blast
  have sf5: "saved_frame ?K u (smem (ksched k'))"
    using assms(1) k'(2) by (intro saved_frame_cong [OF sf4]) auto
  define m5 where "m5 = write_regs (?K - 80) r (smem (ksched k'))"
  have regs: "read_regs (?K - 80) m4 = ?a" using sf4 by (simp add: saved_frame_def)
  have r12: "unat (of_nat (?K - 88) :: u64) = ?K - 88" using assms(2) by (simp add: unat_of_nat)
  have pop: "cpu_pop (?c3\<lparr>rsp := ?K - 88\<rparr>, m5) = (r12 (u_cpu u), ?c3\<lparr>rsp := ?K - 80\<rparr>, m5)"
    unfolding m5_def using sf5 assms(1,2) by (intro frame_pops) auto
  have pops: "cpu_pops 10 ((u_cpu u)\<lparr>rsp := ?K - 80\<rparr>, m5)
      = ([rax r, rdi r, rsi r, rdx r, r10 r, r8 r, r9 r, u_r11 u, u_rcx u, of_nat (rsp (u_cpu u))], (u_cpu u)\<lparr>rsp := ?K\<rparr>, m5)"
    unfolding m5_def using sf5 assms(1,2) by (intro frame_pops) auto
  have sp: "unat (of_nat (rsp (u_cpu u)) :: u64) = rsp (u_cpu u)" using assms(3) by (simp add: unat_of_nat)
  obtain c1 m1 where c1: "fold cpu_push
            [of_nat (rsp (u_cpu u)), u_rcx u, u_r11 u, r9 ?a, r8 ?a, r10 ?a, rdx ?a, rsi ?a, rdi ?a, rax ?a]
            ((u_cpu u)\<lparr>rsp := ?K\<rparr>, smem (ksched k)) = (c1, m1)" "rsp c1 = ?K - 80"
      "cpu_push (r12 c1) (c1, m1) = ((u_cpu u)\<lparr>rsp := ?K - 88\<rparr>, m2)"
    using m2 by (auto simp: Let_def split: prod.splits)
  define A B where "A = ?K - 88" and "B = ?K - 80"
  note fold = A_def [symmetric] B_def [symmetric]
  note facts = c1(2,3) [unfolded fold] c4 [unfolded fold] regs [unfolded fold] r12 [unfolded fold]
    m5_def [unfolded fold, symmetric] pop [unfolded fold, simplified] pops [unfolded fold, simplified]
  show ?thesis
    unfolding syscall_entry_def Let_def c1(1) using k'(1) sp by (simp add: facts sysretq_def)
qed

theorem syscall_restores_registers_witness:
  "\<exists>k'. syscall_entry demo_env (handle_syscall_rust demo_platform) 0x7000
        \<lparr>u_cpu = demo_cpu, u_args = \<lparr>rax = 999, rdi = 1, rsi = 2, rdx = 3, r10 = 4, r8 = 5, r9 = 6\<rparr>, u_rcx = 0x401000, u_r11 = 0x202\<rparr>
        demo_kernel
      = Inr (Some \<lparr>u_cpu = demo_cpu\<lparr>rip := 0x401000, rflags := 0x202, cs := 0x23, ss := 0x1B\<rparr>,
                   u_args = \<lparr>rax = neg_errno 38, rdi = 1, rsi = 2, rdx = 3, r10 = 4, r8 = 5, r9 = 6\<rparr>,
                   u_rcx = 0x401000, u_r11 = 0x202\<rparr>, k')"
proof -
  let ?u = "\<lparr>u_cpu = demo_cpu, u_args = \<lparr>rax = 999, rdi = 1, rsi = 2, rdx = 3, r10 = 4, r8 = 5, r9 = 6\<rparr>,
             u_rcx = 0x401000, u_r11 = 0x202\<rparr>"
  let ?r = "\<lparr>rax = neg_errno 38, rdi = 1, rsi = 2, rdx = 3, r10 = 4, r8 = 5, r9 = 6\<rparr>"
  have "\<forall>m. \<exists>k'. handle_syscall_rust demo_platform (u_args ?u) (demo_kernel\<lparr>ksched := (ksched demo_kernel)\<lparr>smem := m\<rparr>\<rparr>) = Inr (Returns ?r, k')
          \<and> (\<forall>x. kernel_rsp (ksched demo_kernel) - 88 \<le> x \<and> x < kernel_rsp (ksched demo_kernel) \<longrightarrow> smem (ksched k') x = m x)"
    by (simp add: handle_syscall_rust_def return_rax_def)
  from syscall_restores_registers [where u = ?u and k = demo_kernel and r = ?r and handle = "handle_syscall_rust demo_platform"
      and env = demo_env and ret = "0x7000", OF _ _ _ this] show ?thesis
    by (simp add: demo_kernel_def demo_cpu_def demo_env_def)
qed

section \<open>Growing the heap\<close>

lemma map_user_range_ok:
  assumes law: "lawful_mapper mp hhdm pml4 ok"
  shows "ok s \<Longrightarrow> \<forall>a \<in> set xs. 4096 dvd a \<and> a < 2 ^ 47 \<Longrightarrow>
    \<exists>r s'. map_user_range mp (Some hhdm) pml4 xs s = Inr (r, s') \<and> ok s' \<and> keeps mp pml4 s s'
      \<and> (is_ok r \<longrightarrow> (\<forall>a \<in> set xs. vpage mp pml4 s' a \<noteq> None))"
proof (induction xs arbitrary: s)
  case Nil
  then show ?case by (simp add: is_ok_def)
next
  case (Cons a xs)
  obtain r s1 where r: "allocate_and_map_user_page mp (Some hhdm) pml4 a s = Inr (r, s1)" "ok s1" "keeps mp pml4 s s1"
      "is_ok r \<longrightarrow> vpage mp pml4 s1 a \<noteq> None"
    using map_page_ok [OF law Cons.prems(1), of a] Cons.prems(2) by auto
  have va: "virt_addr a = Inr a" using Cons.prems(2) by (simp add: virt_addr_def canonical_def)
  show ?case
  proof (cases r)
    case (Inl e)
    then show ?thesis using r va by (simp add: is_ok_def)
  next
    case (Inr u)
    obtain r' s' where r': "map_user_range mp (Some hhdm) pml4 xs s1 = Inr (r', s')" "ok s'" "keeps mp pml4 s1 s'"
        "is_ok r' \<longrightarrow> (\<forall>a \<in> set xs. vpage mp pml4 s' a \<noteq> None)"
      using Cons.IH [OF r(2)] Cons.prems(2) by auto
    have "vpage mp pml4 s' a \<noteq> None"
      using r(4) Inr Cons.prems(2) by (intro keeps_mapped [OF r'(3)]) (auto simp: is_ok_def)
    then show ?thesis using r r' va Inr keeps_trans [OF r(3) r'(3)] by simp
  qed
qed

lemma page_range:
  assumes "4096 dvd a" and "4096 dvd (b :: nat)"
  shows "set (map (\<lambda>j. a + j * 4096) [0 ..< (b - a) div 4096]) = {p. 4096 dvd p \<and> a \<le> p \<and> p < b}"
proof -
  define c :: nat where "c = 4096"
  obtain m n where mn: "a = c * m" "b = c * n" using assms unfolding c_def by (elim dvdE)
  have "0 < c" by (simp add: c_def)
  then have d: "(b - a) div c = n - m" by (simp add: mn flip: diff_mult_distrib2)
  have "(\<lambda>j. a + j * c) ` {0 ..< n - m} = {p. c dvd p \<and> a \<le> p \<and> p < b}"
  proof (intro equalityI subsetI)
    fix p assume "p \<in> {p. c dvd p \<and> a \<le> p \<and> p < b}"
    then obtain k where k: "p = c * k" "c * m \<le> c * k" "c * k < c * n" by (auto simp: mn elim: dvdE)
    then have "m \<le> k" "k < n" using \<open>0 < c\<close> by auto
    then show "p \<in> (\<lambda>j. a + j * c) ` {0 ..< n - m}"
      using k(1) by (intro image_eqI [of _ _ "k - m"]) (auto simp: mn algebra_simps diff_mult_distrib2)
  next
    fix p assume "p \<in> (\<lambda>j. a + j * c) ` {0 ..< n - m}"
    then obtain j where "p = a + j * c" "j \<in> {0 ..< n - m}" by blast
    then have j: "p = c * (m + j)" "m + j < n" by (simp_all add: mn algebra_simps)
    then show "p \<in> {p. c dvd p \<and> a \<le> p \<and> p < b}" using \<open>0 < c\<close> by (auto simp: mn)
  qed
  then show ?thesis using d by (simp add: c_def)
qed

text \<open>Every byte between the start of a task's heap and its break is mapped.\<close>

definition heap_mapped :: "mapper \<Rightarrow> vnode task \<Rightarrow> phys_memory \<Rightarrow> bool" where
  "heap_mapped mp t s \<longleftrightarrow>
     4096 dvd heap_start t \<and> heap_start t \<le> program_break t \<and> program_break t < 0x700000000000
   \<and> (\<forall>va. heap_start t \<le> va \<longrightarrow> va < program_break t \<longrightarrow> vpage mp (pml4_frame t) s (align_down 4096 va) \<noteq> None)"

lemma heap_mapped_mono:
  assumes "heap_mapped mp t s" and "keeps mp (pml4_frame t) s s'"
  shows "heap_mapped mp t s'"
  using assms keeps_mapped [OF assms(2) align_down_dvd] unfolding heap_mapped_def by blast

text \<open>The pages below the break rounded up are the pages of the heap.\<close>

lemma heap_page_below:
  assumes h: "heap_mapped mp t s" and va: "heap_start t \<le> va" and p: "align_down 4096 va < align_down 4096 (program_break t + 0xFFF)"
  shows "vpage mp (pml4_frame t) s (align_down 4096 va) \<noteq> None"
proof (cases "va < program_break t")
  case True
  then show ?thesis using h va by (simp add: heap_mapped_def)
next
  case False
  let ?b = "program_break t" and ?p = "align_down 4096 va"
  have "?p + 4096 \<le> align_down 4096 (?b + 0xFFF)"
    using p align_down_dvd [of 4096 va] align_down_dvd [of 4096 "?b + 0xFFF"] by (elim dvdE) auto
  then have pb: "?p < ?b" using align_down_le [of 4096 "?b + 0xFFF"] by linarith
  have "?b \<noteq> heap_start t"
  proof
    assume "?b = heap_start t"
    then have "align_down 4096 ?b = ?b" using h by (simp add: heap_mapped_def align_down_aligned)
    then show False using pb False align_down_mono [of ?b va 4096] by simp
  qed
  then have "heap_start t \<le> ?b - 1" "?b - 1 < ?b" using h by (auto simp: heap_mapped_def)
  then have "vpage mp (pml4_frame t) s (align_down 4096 (?b - 1)) \<noteq> None" using h by (simp add: heap_mapped_def)
  moreover have "align_down 4096 (?b - 1) = ?p"
    using pb False less_align_down_add [of 4096 va] by (intro align_down_unique align_down_dvd) auto
  ultimately show ?thesis by simp
qed



end
