(* ===== verification/Sync.thy ===== *)
theory Sync
  imports Task_Manager
begin

text \<open>
  The blocking primitives of \<^verbatim>\<open>src/core/sync.rs\<close>: the counting semaphore, the mutex built on it
  and the condition variable. A call is cut where the code can be preempted; the parts the
  code runs with interrupts disabled are single steps. The results are that no more tasks
  hold permits than the semaphore has, and that a wakeup is not lost as long as a parked task
  does not run before it is woken.
\<close>

section \<open>Data\<close>

record Semaphore =
  sem_count :: u32
  waiting_tasks :: "u64 list"

definition Semaphore_new :: "u32 \<Rightarrow> Semaphore" where
  "Semaphore_new initial_count = \<lparr>sem_count = initial_count, waiting_tasks = []\<rparr>"

text \<open>The mutex protects its data by a semaphore with one permit; only the semaphore is state here.\<close>

definition TaskMutex_new :: Semaphore where
  "TaskMutex_new = Semaphore_new 1"

definition CondVar_new :: "u64 list" where
  "CondVar_new = []"

text \<open>
  Where a task is in the calls of a semaphore: outside, before the load of the loop, before the
  \<^verbatim>\<open>compare_exchange\<close> with the value it has loaded, before \<^verbatim>\<open>interrupts::disable\<close>, with a permit, and
  between the \<^verbatim>\<open>fetch_add\<close> and the wakeup of \<^verbatim>\<open>signal\<close>.
\<close>

datatype sync_pc = Idle | WaitLoad | WaitCas u32 | WaitSlow | Holding | SignalWake

section \<open>Steps of the calls\<close>

definition wait_load :: "Semaphore \<Rightarrow> sync_pc" where
  "wait_load s = (if 0 < sem_count s then WaitCas (sem_count s) else WaitSlow)"

definition wait_cas :: "u32 \<Rightarrow> Semaphore \<Rightarrow> sync_pc \<times> Semaphore" where
  "wait_cas current s =
     (if sem_count s = current then (Holding, s\<lparr>sem_count := current - 1\<rparr>) else (WaitLoad, s))"

text \<open>
  With interrupts disabled: the second look at the counter, whose exchange cannot fail here, or
  the task joins the queue and blocks; it continues at the top of the loop.
\<close>

definition wait_slow :: "Semaphore \<times> 'v task_manager \<Rightarrow> sync_pc \<times> Semaphore \<times> 'v task_manager" where
  "wait_slow = (\<lambda>(s, tm).
     if 0 < sem_count s then (Holding, s\<lparr>sem_count := sem_count s - 1\<rparr>, tm)
     else (case current_task tm of
             Some current_id \<Rightarrow>
               (WaitLoad, s\<lparr>waiting_tasks := waiting_tasks s @ [current_id]\<rparr>, block_current_task tm)
           | None \<Rightarrow> (WaitLoad, s, tm)))"

definition signal_add :: "Semaphore \<Rightarrow> Semaphore" where
  "signal_add s = s\<lparr>sem_count := sem_count s + 1\<rparr>"

definition pop_and_unblock :: "u64 list \<times> 'v task_manager \<Rightarrow> u64 list \<times> 'v task_manager" where
  "pop_and_unblock = (\<lambda>(queue, tm).
     case queue of [] \<Rightarrow> ([], tm) | i # rest \<Rightarrow> (rest, unblock_task i tm))"

definition signal_wake :: "Semaphore \<times> 'v task_manager \<Rightarrow> Semaphore \<times> 'v task_manager" where
  "signal_wake = (\<lambda>(s, tm).
     case pop_and_unblock (waiting_tasks s, tm) of (q, tm') \<Rightarrow> (s\<lparr>waiting_tasks := q\<rparr>, tm'))"

definition Semaphore_signal :: "Semaphore \<times> 'v task_manager \<Rightarrow> Semaphore \<times> 'v task_manager" where
  "Semaphore_signal = (\<lambda>(s, tm). signal_wake (signal_add s, tm))"

text \<open>
  \<^verbatim>\<open>CondVar::wait\<close> up to the halt, all with interrupts disabled: join the queue, block, drop the guard.
  It continues with \<^verbatim>\<open>mutex.lock()\<close>.
\<close>

definition CondVar_wait :: "u64 list \<times> Semaphore \<times> 'v task_manager \<Rightarrow> u64 list \<times> Semaphore \<times> 'v task_manager" where
  "CondVar_wait = (\<lambda>(cv, s, tm).
     case current_task tm of
       Some current_id \<Rightarrow> (cv @ [current_id], Semaphore_signal (s, block_current_task tm))
     | None \<Rightarrow> (cv, Semaphore_signal (s, tm)))"

definition notify_one :: "u64 list \<times> 'v task_manager \<Rightarrow> u64 list \<times> 'v task_manager" where
  "notify_one = pop_and_unblock"

definition notify_all :: "u64 list \<times> 'v task_manager \<Rightarrow> u64 list \<times> 'v task_manager" where
  "notify_all = (\<lambda>(cv, tm). ([], fold unblock_task cv tm))"

section \<open>Interleavings\<close>

record 'v sync_world =
  sem :: Semaphore
  condvar :: "u64 list"
  sync_tm :: "'v task_manager"
  pc :: "u64 \<Rightarrow> sync_pc"

definition parked :: "'v sync_world \<Rightarrow> u64 set" where
  "parked w = set (waiting_tasks (sem w)) \<union> set (condvar w)"

text \<open>
  The processor runs the current task. A task that has parked itself runs again before it is
  woken when another part of the kernel unblocks it, or when the scheduler finds no other
  task: \<open>early\<close> says whether executions with such early continuations are considered.
\<close>

definition runs :: "bool \<Rightarrow> 'v sync_world \<Rightarrow> u64 \<Rightarrow> bool" where
  "runs early w i \<longleftrightarrow> current_task (sync_tm w) = Some i \<and> (early \<or> i \<notin> parked w)"

inductive sync_step :: "bool \<Rightarrow> 'v sync_world \<Rightarrow> 'v sync_world \<Rightarrow> bool" for early where
  enter: "runs early w i \<Longrightarrow> pc w i = Idle \<Longrightarrow> sync_step early w (w\<lparr>pc := (pc w)(i := WaitLoad)\<rparr>)"
| load: "runs early w i \<Longrightarrow> pc w i = WaitLoad \<Longrightarrow> sync_step early w (w\<lparr>pc := (pc w)(i := wait_load (sem w))\<rparr>)"
| exchange: "runs early w i \<Longrightarrow> pc w i = WaitCas c \<Longrightarrow> wait_cas c (sem w) = (p, s) \<Longrightarrow>
    sync_step early w (w\<lparr>sem := s, pc := (pc w)(i := p)\<rparr>)"
| slow: "runs early w i \<Longrightarrow> pc w i = WaitSlow \<Longrightarrow> wait_slow (sem w, sync_tm w) = (p, s, tm) \<Longrightarrow>
    sync_step early w (w\<lparr>sem := s, sync_tm := tm, pc := (pc w)(i := p)\<rparr>)"
| signal: "runs early w i \<Longrightarrow> pc w i = Holding \<Longrightarrow>
    sync_step early w (w\<lparr>sem := signal_add (sem w), pc := (pc w)(i := SignalWake)\<rparr>)"
| wake: "runs early w i \<Longrightarrow> pc w i = SignalWake \<Longrightarrow> signal_wake (sem w, sync_tm w) = (s, tm) \<Longrightarrow>
    sync_step early w (w\<lparr>sem := s, sync_tm := tm, pc := (pc w)(i := Idle)\<rparr>)"
| cv_wait: "runs early w i \<Longrightarrow> pc w i = Holding \<Longrightarrow>
    CondVar_wait (condvar w, sem w, sync_tm w) = (cv, s, tm) \<Longrightarrow>
    sync_step early w (w\<lparr>sem := s, condvar := cv, sync_tm := tm, pc := (pc w)(i := WaitLoad)\<rparr>)"
| cv_notify_one: "runs early w i \<Longrightarrow> notify_one (condvar w, sync_tm w) = (cv, tm) \<Longrightarrow>
    sync_step early w (w\<lparr>condvar := cv, sync_tm := tm\<rparr>)"
| cv_notify_all: "runs early w i \<Longrightarrow> notify_all (condvar w, sync_tm w) = (cv, tm) \<Longrightarrow>
    sync_step early w (w\<lparr>condvar := cv, sync_tm := tm\<rparr>)"
| kernel: "sync_step early w (w\<lparr>sync_tm := tm\<rparr>)"

inductive sync_reachable :: "bool \<Rightarrow> u32 \<Rightarrow> 'v sync_world \<Rightarrow> bool" for early n where
  start: "sync_reachable early n \<lparr>sem = Semaphore_new n, condvar = CondVar_new, sync_tm = tm, pc = (\<lambda>_. Idle)\<rparr>"
| step: "sync_reachable early n w \<Longrightarrow> sync_step early w w' \<Longrightarrow> sync_reachable early n w'"

section \<open>Permits\<close>

definition at :: "(u64 \<Rightarrow> sync_pc) \<Rightarrow> sync_pc \<Rightarrow> u64 set" where
  "at f p = {i. f i = p}"

lemma u64_set_finite [simp]: "finite (A :: u64 set)"
  by (rule finite)

text \<open>A move of one task changes the number of tasks at a point by at most one.\<close>

lemma at_enter: "f i \<noteq> p \<Longrightarrow> card (at (f(i := p)) p) = card (at f p) + 1"
proof -
  assume "f i \<noteq> p"
  then have "at (f(i := p)) p = insert i (at f p)" "i \<notin> at f p" by (auto simp: at_def)
  then show ?thesis by simp
qed

lemma at_leave: "f i = p \<Longrightarrow> q \<noteq> p \<Longrightarrow> card (at (f(i := q)) p) + 1 = card (at f p)"
proof -
  assume "f i = p" "q \<noteq> p"
  then have "at (f(i := q)) p = at f p - {i}" "i \<in> at f p" by (auto simp: at_def)
  then show ?thesis using card_Suc_Diff1 [of "at f p" i] by simp
qed

lemma at_other: "f i \<noteq> p \<Longrightarrow> q \<noteq> p \<Longrightarrow> at (f(i := q)) p = at f p"
  by (auto simp: at_def)

definition permits_ok :: "u32 \<Rightarrow> 'v sync_world \<Rightarrow> bool" where
  "permits_ok n w \<longleftrightarrow> unat (sem_count (sem w)) + card (at (pc w) Holding) = unat n \<and> (\<forall>i c. pc w i = WaitCas c \<longrightarrow> 0 < c)"

lemma unat_pred: "0 < (c :: u32) \<Longrightarrow> unat (c - 1) = unat c - 1"
  by (simp add: unat_minus_one word_gt_0)

lemma sem_count_simps [simp]:
  "sem_count (fst (signal_wake (s, tm))) = sem_count s"
  "sem_count (fst (Semaphore_signal (s, tm))) = sem_count s + 1"
  by (auto simp: signal_wake_def Semaphore_signal_def signal_add_def split: prod.splits)

lemma signal_countD: "Semaphore_signal (s, tm) = (s', tm') \<Longrightarrow> sem_count s' = sem_count s + 1"
  using sem_count_simps(2) [of s tm] by simp

lemma unat_suc_permit:
  assumes "permits_ok n w" and "0 < card (at (pc w) Holding)"
  shows "unat (sem_count (sem w) + 1) = unat (sem_count (sem w)) + 1"
proof -
  have "unat (sem_count (sem w)) + 1 < 2 ^ 32"
    using assms unat_less_pow [of n] by (simp add: permits_ok_def)
  then show ?thesis by (simp add: unat_word_ariths)
qed

lemma unat_pred_permit: "0 < (c :: u32) \<Longrightarrow> unat (c - 1) + 1 = unat c"
  using unat_pred [of c] by (simp add: word_gt_0 unat_gt_0)

lemma permits_step:
  assumes "sync_step early w w'" and inv: "permits_ok n w"
  shows "permits_ok n w'"
  using assms
proof cases
  case (enter i)
  then show ?thesis using inv by (auto simp: permits_ok_def at_other)
next
  case (load i)
  then show ?thesis using inv by (auto simp: permits_ok_def wait_load_def at_other)
next
  case (exchange i c p s)
  have "0 < c" using inv exchange(3) by (simp add: permits_ok_def)
  then show ?thesis
    using exchange inv unat_pred_permit [of c]
    by (auto simp: permits_ok_def wait_cas_def at_other at_enter split: if_splits)
next
  case (slow i p s tm)
  then show ?thesis
    using inv unat_pred_permit [of "sem_count (sem w)"]
    by (auto simp: permits_ok_def wait_slow_def at_other at_enter split: if_splits option.splits)
next
  case (signal i)
  then show ?thesis
    using inv at_leave [of "pc w" i Holding SignalWake] unat_suc_permit [OF inv]
    by (auto simp: permits_ok_def signal_add_def)
next
  case (wake i s tm)
  have "sem_count s = sem_count (sem w)" using wake(4) sem_count_simps(1) [of "sem w" "sync_tm w"] by simp
  then show ?thesis
    using wake inv by (auto simp: permits_ok_def at_other)
next
  case (cv_wait i cv s tm)
  have "sem_count s = sem_count (sem w) + 1"
    using cv_wait(4) by (auto simp: CondVar_wait_def dest: signal_countD split: option.splits)
  then show ?thesis
    using cv_wait inv at_leave [of "pc w" i Holding WaitLoad] unat_suc_permit [OF inv]
    by (auto simp: permits_ok_def)
qed (use inv in \<open>simp_all add: permits_ok_def\<close>)

lemma permits_reachable: "sync_reachable early n w \<Longrightarrow> permits_ok n w"
proof (induction rule: sync_reachable.induct)
  case (start tm)
  show ?case by (simp add: permits_ok_def Semaphore_new_def at_def)
next
  case (step w w')
  then show ?case using permits_step by blast
qed


section \<open>Wakeups\<close>

text \<open>Tasks that compete for a permit and will look at the counter again without being woken.\<close>

definition contending :: "sync_pc \<Rightarrow> bool" where
  "contending p \<longleftrightarrow> p = WaitLoad \<or> p = WaitSlow \<or> (\<exists>c. p = WaitCas c)"

text \<open>The tasks that will still act on the counter: contenders, and signallers that have a wakeup to do.\<close>

definition active :: "'v sync_world \<Rightarrow> u64 set" where
  "active w = {i. contending (pc w i) \<and> i \<notin> parked w \<or> pc w i = SignalWake}"

definition wakeups_ok :: "'v sync_world \<Rightarrow> bool" where
  "wakeups_ok w \<longleftrightarrow>
     distinct (waiting_tasks (sem w) @ condvar w) \<and> (\<forall>i \<in> parked w. pc w i = WaitLoad)
   \<and> (\<forall>i c. pc w i = WaitCas c \<longrightarrow> 0 < c)
   \<and> (waiting_tasks (sem w) \<noteq> [] \<longrightarrow> unat (sem_count (sem w)) \<le> card (active w))"

lemma contending_simps [simp]:
  "contending WaitLoad" "contending WaitSlow" "contending (WaitCas c)" "\<not> contending Idle" "\<not> contending Holding" "\<not> contending SignalWake"
  by (simp_all add: contending_def)

lemma active_grows: "active w \<subseteq> active w' \<Longrightarrow> unat (sem_count (sem w)) \<le> card (active w) \<Longrightarrow> unat (sem_count (sem w)) \<le> card (active w')"
  by (meson card_mono le_trans u64_set_finite)

lemma active_leaves:
  assumes "active w - {i} \<subseteq> active w'" and "c \<le> card (active w)"
  shows "c - 1 \<le> card (active w')"
proof -
  have "card (active w) - 1 \<le> card (active w - {i})" by (simp add: card_Diff_singleton_if)
  also have "\<dots> \<le> card (active w')" using assms(1) by (intro card_mono) auto
  finally show ?thesis using assms(2) by linarith
qed

lemma active_gains:
  assumes "insert i (active w) \<subseteq> active w'" and "i \<notin> active w" and "c \<le> card (active w)"
  shows "c + 1 \<le> card (active w')"
  using card_mono [OF _ assms(1)] assms(2,3) by simp

lemma active_swaps:
  assumes "insert j (active w - {i}) \<subseteq> active w'" and "j \<notin> active w" and "i \<in> active w" and "c \<le> card (active w)"
  shows "c \<le> card (active w')"
proof -
  have "card (insert j (active w - {i})) = card (active w)" using assms(2,3) card_Suc_Diff1 [of "active w" i] by simp
  then show ?thesis using card_mono [OF _ assms(1)] assms(4) by simp
qed

lemma unat_add_one_le: "unat ((c :: u32) + 1) \<le> unat c + 1"
  by (simp add: unat_word_ariths mod_less_eq_dividend)

text \<open>What one wakeup does to the queue of the semaphore.\<close>

lemma signal_wake_queue:
  "signal_wake (s, tm) = (s', tm') \<Longrightarrow> waiting_tasks s' = tl (waiting_tasks s) \<and> sem_count s' = sem_count s"
  by (auto simp: signal_wake_def pop_and_unblock_def split: list.splits)

lemma semaphore_signal_queue:
  "Semaphore_signal (s, tm) = (s', tm') \<Longrightarrow> waiting_tasks s' = tl (waiting_tasks s) \<and> sem_count s' = sem_count s + 1"
  using signal_wake_queue [of "signal_add s" tm s' tm'] by (simp add: Semaphore_signal_def signal_add_def)

lemma wakeups_wait:
  assumes inv: "wakeups_ok w" and i: "contending (pc w i)" "i \<notin> parked w" and c: "0 < sem_count (sem w)"
  shows "wakeups_ok (w\<lparr>sem := (sem w)\<lparr>sem_count := sem_count (sem w) - 1\<rparr>, pc := (pc w)(i := Holding)\<rparr>)" (is "wakeups_ok ?w")
proof -
  have "active w - {i} \<subseteq> active ?w" by (auto simp: active_def parked_def)
  then show ?thesis
    using inv i c active_leaves [of w i ?w "unat (sem_count (sem w))"] unat_pred [OF c]
    by (auto simp: wakeups_ok_def parked_def)
qed

lemma wakeups_step:
  assumes st: "sync_step False w w'" and inv: "wakeups_ok w"
  shows "wakeups_ok w'"
  using st
proof cases
  case (enter i)
  then have "active w \<subseteq> active w'" by (auto simp: active_def parked_def runs_def)
  then show ?thesis using enter inv active_grows [of w w'] by (auto simp: wakeups_ok_def parked_def runs_def)
next
  case (load i)
  then have "active w \<subseteq> active w'" by (auto simp: active_def parked_def runs_def wait_load_def)
  then show ?thesis using load inv active_grows [of w w'] by (auto simp: wakeups_ok_def parked_def runs_def wait_load_def)
next
  case (exchange i c p s)
  show ?thesis
  proof (cases "sem_count (sem w) = c")
    case True
    have "0 < c" using inv exchange(3) by (simp add: wakeups_ok_def)
    then show ?thesis
      using True exchange wakeups_wait [OF inv, of i] by (auto simp: wait_cas_def runs_def)
  next
    case False
    then have "active w \<subseteq> active w'" using exchange by (auto simp: active_def parked_def runs_def wait_cas_def)
    then show ?thesis
      using False exchange inv active_grows [of w w'] by (auto simp: wakeups_ok_def parked_def runs_def wait_cas_def)
  qed
next
  case (slow i p s tm)
  show ?thesis
  proof (cases "0 < sem_count (sem w)")
    case True
    then have "wakeups_ok (w\<lparr>sem := s, pc := (pc w)(i := p)\<rparr>)"
      using slow wakeups_wait [OF inv, of i] by (auto simp: wait_slow_def runs_def)
    then show ?thesis using slow by (simp add: wakeups_ok_def active_def parked_def)
  next
    case False
    then have "sem_count (sem w) = 0" by (simp add: word_gt_0)
    then show ?thesis using slow inv by (auto simp: wait_slow_def runs_def wakeups_ok_def parked_def)
  qed
next
  case (signal i)
  have "insert i (active w) \<subseteq> active w'" "i \<notin> active w" using signal by (auto simp: active_def parked_def signal_add_def)
  then show ?thesis
    using signal inv active_gains [of i w w' "unat (sem_count (sem w))"] unat_add_one_le [of "sem_count (sem w)"]
    by (auto simp: wakeups_ok_def parked_def runs_def signal_add_def)
next
  case (wake i s tm)
  note q = signal_wake_queue [OF wake(4)]
  show ?thesis
  proof (cases "waiting_tasks (sem w)")
    case Nil
    then show ?thesis using wake q inv by (auto simp: wakeups_ok_def parked_def runs_def)
  next
    case (Cons a rest)
    have a: "pc w a = WaitLoad" "a \<notin> set rest" "a \<notin> set (condvar w)" "a \<in> parked w"
      using inv Cons by (auto simp: wakeups_ok_def parked_def)
    have "insert a (active w - {i}) \<subseteq> active w'" "a \<notin> active w" "i \<in> active w"
      using wake a q Cons by (auto simp: active_def parked_def)
    then show ?thesis
      using wake q inv Cons active_swaps [of a w i w' "unat (sem_count (sem w))"]
      by (auto simp: wakeups_ok_def parked_def runs_def)
  qed
next
  case (cv_wait i cv s tm)
  obtain tm0 where sg: "Semaphore_signal (sem w, tm0) = (s, tm)" and cv: "cv = condvar w @ [i]"
    using cv_wait by (auto simp: CondVar_wait_def runs_def)
  note q = semaphore_signal_queue [OF sg]
  have i: "i \<notin> parked w" using cv_wait by (simp add: runs_def)
  show ?thesis
  proof (cases "waiting_tasks (sem w)")
    case Nil
    then show ?thesis using cv_wait q inv i cv by (auto simp: wakeups_ok_def parked_def)
  next
    case (Cons a rest)
    have a: "pc w a = WaitLoad" "a \<notin> set rest" "a \<notin> set (condvar w)" "a \<in> parked w"
      using inv Cons by (auto simp: wakeups_ok_def parked_def)
    have "insert a (active w) \<subseteq> active w'" "a \<notin> active w"
      using cv_wait a q Cons cv by (auto simp: active_def parked_def)
    then show ?thesis
      using cv_wait q inv Cons cv i active_gains [of a w w' "unat (sem_count (sem w))"] unat_add_one_le [of "sem_count (sem w)"]
      by (auto simp: wakeups_ok_def parked_def)
  qed
next
  case (cv_notify_one i cv tm)
  have cv: "cv = tl (condvar w)" using cv_notify_one by (auto simp: notify_one_def pop_and_unblock_def split: list.splits)
  then have "active w \<subseteq> active w'" using cv_notify_one by (cases "condvar w") (auto simp: active_def parked_def)
  then show ?thesis
    using cv cv_notify_one inv active_grows [of w w'] by (cases "condvar w") (auto simp: wakeups_ok_def parked_def)
next
  case (cv_notify_all i cv tm)
  have "active w \<subseteq> active w'" using cv_notify_all by (auto simp: active_def parked_def notify_all_def)
  then show ?thesis
    using cv_notify_all inv active_grows [of w w'] by (auto simp: wakeups_ok_def parked_def notify_all_def)
next
  case (kernel tm)
  then show ?thesis using inv by (simp add: wakeups_ok_def parked_def active_def)
qed

lemma wakeups_reachable: "sync_reachable False n w \<Longrightarrow> wakeups_ok w"
proof (induction rule: sync_reachable.induct)
  case (start tm)
  show ?case by (simp add: wakeups_ok_def parked_def Semaphore_new_def CondVar_new_def)
next
  case (step w w')
  then show ?case using wakeups_step by blast
qed


section \<open>Early continuations\<close>

text \<open>
  When a parked task does run early, it joins the queue a second time, and the second entry uses
  up a wakeup that a real waiter needed.
\<close>

definition may_reach :: "bool \<Rightarrow> u32 \<Rightarrow> u64 list \<Rightarrow> (u64 \<Rightarrow> sync_pc) \<Rightarrow> bool" where
  "may_reach early c q f \<longleftrightarrow>
     (\<exists>tm :: unit task_manager. sync_reachable early 1 \<lparr>sem = \<lparr>sem_count = c, waiting_tasks = q\<rparr>, condvar = [], sync_tm = tm, pc = f\<rparr>)"

lemma may_reach_start: "may_reach early 1 [] (\<lambda>_. Idle)"
  using sync_reachable.start [of early 1 TaskManager_empty] by (auto simp: may_reach_def Semaphore_new_def CondVar_new_def)

text \<open>The kernel may make any task current.\<close>

lemma may_reach_run:
  assumes "may_reach early c q f"
  obtains tm :: "unit task_manager" where "current_task tm = Some i"
    "sync_reachable early 1 \<lparr>sem = \<lparr>sem_count = c, waiting_tasks = q\<rparr>, condvar = [], sync_tm = tm, pc = f\<rparr>"
proof -
  let ?tm = "TaskManager_empty\<lparr>current_task := Some i\<rparr> :: unit task_manager"
  obtain tm0 :: "unit task_manager" where
    "sync_reachable early 1 \<lparr>sem = \<lparr>sem_count = c, waiting_tasks = q\<rparr>, condvar = [], sync_tm = tm0, pc = f\<rparr>"
    using assms by (auto simp: may_reach_def)
  from sync_reachable.step [OF this sync_step.kernel [where tm = ?tm]] show thesis
    by (intro that [of ?tm]) simp_all
qed

lemma may_reach_enter: "may_reach early c q f \<Longrightarrow> f i = Idle \<Longrightarrow> early \<or> i \<notin> set q \<Longrightarrow> may_reach early c q (f(i := WaitLoad))"
proof (erule may_reach_run [of early c q f i])
  fix tm :: "unit task_manager"
  assume "f i = Idle" "early \<or> i \<notin> set q" "current_task tm = Some i" and
    r: "sync_reachable early 1 \<lparr>sem = \<lparr>sem_count = c, waiting_tasks = q\<rparr>, condvar = [], sync_tm = tm, pc = f\<rparr>"
  then show ?thesis
    using sync_reachable.step [OF r sync_step.enter [of early _ i]] by (auto simp: may_reach_def runs_def parked_def)
qed

lemma may_reach_load:
  "may_reach early c q f \<Longrightarrow> f i = WaitLoad \<Longrightarrow> early \<or> i \<notin> set q \<Longrightarrow> may_reach early c q (f(i := if 0 < c then WaitCas c else WaitSlow))"
proof (erule may_reach_run [of early c q f i])
  fix tm :: "unit task_manager"
  assume "f i = WaitLoad" "early \<or> i \<notin> set q" "current_task tm = Some i" and
    r: "sync_reachable early 1 \<lparr>sem = \<lparr>sem_count = c, waiting_tasks = q\<rparr>, condvar = [], sync_tm = tm, pc = f\<rparr>"
  then show ?thesis
    using sync_reachable.step [OF r sync_step.load [of early _ i]] by (auto simp: may_reach_def runs_def parked_def wait_load_def)
qed

lemma may_reach_take:
  assumes "may_reach early c q f" and "f i = WaitLoad" and "0 < c" and e: "early \<or> i \<notin> set q"
  shows "may_reach early (c - 1) q (f(i := Holding))"
proof -
  have "may_reach early c q (f(i := WaitCas c))" using may_reach_load [OF assms(1,2) e] assms(3) by simp
  then obtain tm :: "unit task_manager" where "current_task tm = Some i" and
    r: "sync_reachable early 1 \<lparr>sem = \<lparr>sem_count = c, waiting_tasks = q\<rparr>, condvar = [], sync_tm = tm, pc = f(i := WaitCas c)\<rparr>"
    by (rule may_reach_run)
  then show ?thesis
    using e sync_reachable.step [OF r sync_step.exchange [of early _ i c]] by (auto simp: may_reach_def runs_def parked_def wait_cas_def)
qed

lemma may_reach_park:
  assumes "may_reach early 0 q f" and "f i = WaitLoad" and e: "early \<or> i \<notin> set q"
  shows "may_reach early 0 (q @ [i]) f"
proof -
  have "may_reach early 0 q (f(i := WaitSlow))" using may_reach_load [OF assms(1,2) e] by simp
  then obtain tm :: "unit task_manager" where "current_task tm = Some i" and
    r: "sync_reachable early 1 \<lparr>sem = \<lparr>sem_count = 0, waiting_tasks = q\<rparr>, condvar = [], sync_tm = tm, pc = f(i := WaitSlow)\<rparr>"
    by (rule may_reach_run)
  moreover have "f(i := WaitLoad) = f" using assms(2) by auto
  ultimately show ?thesis
    using e sync_reachable.step [OF r sync_step.slow [of early _ i]] by (auto simp: may_reach_def runs_def parked_def wait_slow_def)
qed

lemma may_reach_signal:
  assumes "may_reach early c q f" and "f i = Holding" and e: "early \<or> i \<notin> set q"
  shows "may_reach early (c + 1) q (f(i := SignalWake))"
proof -
  obtain tm :: "unit task_manager" where "current_task tm = Some i" and
    r: "sync_reachable early 1 \<lparr>sem = \<lparr>sem_count = c, waiting_tasks = q\<rparr>, condvar = [], sync_tm = tm, pc = f\<rparr>"
    by (rule may_reach_run [OF assms(1), of i])
  then show ?thesis
    using e assms(2) sync_reachable.step [OF r sync_step.signal [of early _ i]] by (auto simp: may_reach_def runs_def parked_def signal_add_def)
qed

lemma may_reach_release:
  assumes "may_reach early c q f" and "f i = Holding" and e: "early \<or> i \<notin> set q"
  shows "may_reach early (c + 1) (tl q) (f(i := Idle))"
proof -
  have "may_reach early (c + 1) q (f(i := SignalWake))" by (rule may_reach_signal [OF assms])
  then obtain tm :: "unit task_manager" where "current_task tm = Some i" and
    r: "sync_reachable early 1 \<lparr>sem = \<lparr>sem_count = c + 1, waiting_tasks = q\<rparr>, condvar = [], sync_tm = tm, pc = f(i := SignalWake)\<rparr>"
    by (rule may_reach_run)
  then show ?thesis
    using e sync_reachable.step [OF r sync_step.wake [of early _ i]]
    by (cases q) (auto simp: may_reach_def runs_def parked_def signal_wake_def pop_and_unblock_def)
qed

text \<open>A mutex that nobody holds or is about to release, with a task waiting for it forever.\<close>

lemma early_continuation_loses_wakeup:
  "may_reach True 1 [2] ((\<lambda>_. Idle)(2 := WaitLoad))"
proof -
  let ?f = "\<lambda>_ :: u64. Idle"
  have "may_reach True 0 [] (?f(3 := Holding))"
    using may_reach_take [where i = 3, OF may_reach_enter [where i = 3 and early = True, OF may_reach_start]] by simp
  then have "may_reach True 0 [1] (?f(3 := Holding, 1 := WaitLoad))"
    using may_reach_park [OF may_reach_enter [of True 0 "[]" "?f(3 := Holding)" 1], of 1] by simp
  then have "may_reach True 0 [1, 1] (?f(3 := Holding, 1 := WaitLoad))"
    using may_reach_park [of True "[1]" "?f(3 := Holding, 1 := WaitLoad)" 1] by simp
  then have "may_reach True 0 [1, 1, 2] (?f(3 := Holding, 1 := WaitLoad, 2 := WaitLoad))"
    using may_reach_park [OF may_reach_enter [of True 0 "[1, 1]" "?f(3 := Holding, 1 := WaitLoad)" 2], of 2] by simp
  then have "may_reach True 1 [1, 2] (?f(1 := WaitLoad, 2 := WaitLoad))"
    using may_reach_release [of True 0 "[1, 1, 2]" "?f(3 := Holding, 1 := WaitLoad, 2 := WaitLoad)" 3]
    by (simp add: fun_upd_twist [of 3 1] fun_upd_twist [of 3 2] fun_upd_idem)
  then have "may_reach True 0 [1, 2] (?f(1 := Holding, 2 := WaitLoad))"
    using may_reach_take [of True 1 "[1, 2]" "?f(1 := WaitLoad, 2 := WaitLoad)" 1] by (simp add: fun_upd_twist [of 1 2])
  then show ?thesis
    using may_reach_release [of True 0 "[1, 2]" "?f(1 := Holding, 2 := WaitLoad)" 1]
    by (simp add: fun_upd_twist [of 1 2] fun_upd_idem)
qed

section \<open>Witnesses\<close>



end
