(* ===== verification/Disk_Manager.thy ===== *)
theory Disk_Manager
  imports Mbr Ext4_Node Fat Rust_Str
begin

text \<open>
  The disk manager of \<^verbatim>\<open>src/fs/manager.rs\<close>: what the kernel does with a disk a driver has found.
  It reads the partition table, mounts what it recognises and creates a demonstration file on
  every ext4 partition. The result of a run is the list of errors passed to
  \<^verbatim>\<open>log_kernel_error\<close>, in order; the other log lines are left out.
\<close>

definition DEBUG_TEXT :: "u8 list" where
  "DEBUG_TEXT = ascii ''This file was created and written 100% from my own Rust kernel. NWIN OS lives!''"

definition ext4_debug_info :: "'s block_device \<Rightarrow> Ext4Volume \<Rightarrow> ('s, FsError, unit) kop" where
  "ext4_debug_info dev v = bindK (liftR (vol_block_size v)) (\<lambda>_. debug_probe dev v DEBUG_TEXT)"

definition FILE_TEXT :: "u8 list" where
  "FILE_TEXT = ascii ''Hello World! This file was created, mapped and written 100% by NWIN OS.''"

definition FILE_NAME :: "u8 list" where
  "FILE_NAME = ascii ''nwin_core.txt''"

text \<open>Creating the file: data, inode and directory entry. The result of the data write is dropped.\<close>

definition create_file ::
    "'s block_device \<Rightarrow> Ext4Volume \<Rightarrow> Ext4Node \<Rightarrow> u32 \<Rightarrow> u32 \<Rightarrow> ('s, FsError, KernelError list) kop" where
  "create_file dev v root_node inode block =
     bindK (matchK (write_data_to_block dev v block FILE_TEXT)) (\<lambda>_.
     bindK (matchK (write_inode dev v inode (build_file_inode (of_nat (length FILE_TEXT)) block))) (\<lambda>r1.
     bindK (matchK (add_entry dev v root_node FILE_NAME inode)) (\<lambda>r2.
     retK ((case r1 of Inl e \<Rightarrow> [KFs e] | Inr _ \<Rightarrow> []) @ (case r2 of Inl e \<Rightarrow> [KFs e] | Inr _ \<Rightarrow> [])))))"

text \<open>The read-back: the node found, and the bytes read through it.\<close>

definition read_back :: "'s block_device \<Rightarrow> Ext4Volume \<Rightarrow> Ext4Node \<Rightarrow> ('s, FsError, u8 list option) kop" where
  "read_back dev v root_node =
     bindK (ext4_lookup dev v root_node FILE_NAME) (\<lambda>r.
     case r of
       None \<Rightarrow> retK None
     | Some file_node \<Rightarrow>
         bindK (ext4_read dev v file_node 0 (replicate (node_size file_node) 0)) (\<lambda>(bytes_read, read_buf).
         bindK (liftR (assertR (bytes_read \<le> length read_buf) IndexOutOfBounds)) (\<lambda>_.
         retK (Some (take bytes_read read_buf)))))"

definition ext4_demo :: "'s block_device \<Rightarrow> Ext4Volume \<Rightarrow> ('s, FsError, KernelError list) kop" where
  "ext4_demo dev v =
     bindK (ext4_debug_info dev v) (\<lambda>_.
     bindK (new_root dev v) (\<lambda>root_node.
     bindK (matchK (allocate_inode dev v)) (\<lambda>r.
     case r of
       Inl _ \<Rightarrow> retK []
     | Inr inode \<Rightarrow>
         bindK (matchK (allocate_block dev v)) (\<lambda>b.
         case b of
           Inl _ \<Rightarrow> retK []
         | Inr block \<Rightarrow>
             bindK (create_file dev v root_node inode block) (\<lambda>errors.
             bindK (read_back dev v root_node) (\<lambda>_. retK errors))))))"

definition process_partition :: "'s block_device \<Rightarrow> PartitionEntry \<Rightarrow> ('s, FsError, KernelError list) kop" where
  "process_partition dev part =
     (if is_empty part then retK []
      else if is_fat part
      then bindK (matchK (fat_mount dev (unat (start_lba part)))) (\<lambda>r.
           case r of
             Inl e \<Rightarrow> retK [KFs e]
           | Inr fat \<Rightarrow>
               bindK (liftR (fat_debug_info fat)) (\<lambda>_.
               bindK (list_root_dir dev fat) (\<lambda>_. retK [])))
      else if is_linux part
      then bindK (matchK (ext4_mount dev (unat (start_lba part)))) (\<lambda>r.
           case r of
             Inl e \<Rightarrow> retK [KFs e]
           | Inr ext4_vol \<Rightarrow> ext4_demo dev ext4_vol)
      else retK [])"

fun process_partitions :: "'s block_device \<Rightarrow> PartitionEntry list \<Rightarrow> ('s, FsError, KernelError list) kop" where
  "process_partitions dev [] = retK []"
| "process_partitions dev (part # parts) =
     bindK (process_partition dev part) (\<lambda>errors.
     bindK (process_partitions dev parts) (\<lambda>more. retK (errors @ more)))"

definition process_disk :: "'s block_device \<Rightarrow> ('s, FsError, KernelError list) kop" where
  "process_disk dev =
     bindK (matchK (Mbr_read_from dev)) (\<lambda>r.
     case r of
       Inl e \<Rightarrow> retK [KFs e]
     | Inr mbr \<Rightarrow> if is_gpt_protective mbr then retK [] else process_partitions dev mbr)"

section \<open>Disks that are left alone\<close>

text \<open>An unreadable partition table is reported and nothing else happens.\<close>

lemma process_disk_unreadable:
  assumes "rd dev 0 512 s = Inr (Inl e, s')"
  shows "process_disk dev s = Inr (Inr [KFs BlockRead], s')"
  using mbr_read_error [OF assms] by (simp add: process_disk_def bindK_def matchK_def retK_def)

lemma process_partition_ignored:
  "is_empty part \<or> \<not> is_fat part \<and> \<not> is_linux part \<Longrightarrow> process_partition dev part = retK []"
  by (auto simp: process_partition_def)

lemma process_partitions_ignored:
  assumes "\<forall>part \<in> set parts. is_empty part \<or> \<not> is_fat part \<and> \<not> is_linux part"
  shows "process_partitions dev parts s = Inr (Inr [], s)"
  using assms by (induction parts) (simp_all add: process_partition_ignored bindK_def retK_def)

text \<open>
  A disk with a protective table, or without FAT and Linux partitions, is only read: no error is
  reported and every sector keeps its contents.
\<close>

lemma foreign_disk_untouched:
  assumes "sector_store dev ok sectors limit" and "ok s" and "0 < limit"
    and "length boot = 446" and "length mbr = 4" and "list_all entry_ok mbr" and "sectors s 0 = encode_mbr boot mbr"
    and "is_gpt_protective mbr \<or> (\<forall>part \<in> set mbr. is_empty part \<or> \<not> is_fat part \<and> \<not> is_linux part)"
  shows "\<exists>s'. process_disk dev s = Inr (Inr [], s') \<and> ok s' \<and> sectors s' = sectors s"
proof -
  obtain s' where s': "Mbr_read_from dev s = Inr (Inr mbr, s')" "ok s'" "sectors s' = sectors s"
    using sector_store.mbr_read_ok [OF assms(1-7)] by blast
  then have "process_disk dev s = Inr (Inr [], s')"
    using assms(8) process_partitions_ignored [of mbr dev s']
    by (auto simp: process_disk_def bindK_def matchK_def retK_def)
  with s' show ?thesis by blast
qed

text \<open>A partition of type FAT whose boot sector is that of FAT32 stops the boot.\<close>

lemma fat32_partition_hangs:
  assumes "sector_store dev ok sectors limit" and "ok s" and "unat (start_lba part) < limit" and "is_fat part"
    and "get_u8 (sectors s (unat (start_lba part))) 510 = 0x55" and "get_u8 (sectors s (unat (start_lba part))) 511 = 0xAA"
    and "get_u16 (sectors s (unat (start_lba part))) 22 = 0"
  shows "process_partition dev part s = Inl Diverges"
proof -
  obtain v s' where v: "fat_mount dev (unat (start_lba part)) s = Inr (Inr v, s')" "fat_debug_info v = Inl Diverges"
    using fat32_volume_hangs [OF assms(1,2,3,5,6,7)] by blast
  have "\<not> is_empty part" using assms(4) by (auto simp: is_fat_def is_empty_def PART_TYPE_EMPTY_def PART_TYPE_FAT32_CHS_def
      PART_TYPE_FAT32_LBA_def PART_TYPE_FAT16_CHS_def PART_TYPE_FAT16_def)
  then show ?thesis
    using v assms(4) by (simp add: process_partition_def bindK_def matchK_def liftR_def)
qed

end
