(* ===== verification/Pci.thy ===== *)
theory Pci
  imports Serial
begin

text \<open>
  PCI enumeration of \<^verbatim>\<open>src/drivers/bus/pci.rs\<close>: configuration space access through the two ports,
  identification of functions, the scan of all buses and the search for the SATA controller.
  The buses are a parameter behind the ports. The main result is that the scan returns
  exactly the functions that answer, in order.
\<close>

section \<open>Configuration space\<close>

definition PCI_CONFIG_ADDRESS_PORT :: u16 where "PCI_CONFIG_ADDRESS_PORT = 0xCF8"
definition PCI_CONFIG_DATA_PORT :: u16 where "PCI_CONFIG_DATA_PORT = 0xCFC"

definition config_address :: "u8 \<Rightarrow> u8 \<Rightarrow> u8 \<Rightarrow> u8 \<Rightarrow> u32" where
  "config_address bus device func offset =
     push_bit 16 (ucast bus) OR push_bit 11 (ucast device) OR push_bit 8 (ucast func) OR (ucast offset AND 0xFC) OR 0x80000000"

definition pci_read_u32 :: "'h io_ports \<Rightarrow> u8 \<Rightarrow> u8 \<Rightarrow> u8 \<Rightarrow> u8 \<Rightarrow> 'h \<Rightarrow> u32 \<times> 'h" where
  "pci_read_u32 io bus device func offset h =
     in32 io PCI_CONFIG_DATA_PORT (out32 io PCI_CONFIG_ADDRESS_PORT (config_address bus device func offset) h)"

definition pci_write_u32 :: "'h io_ports \<Rightarrow> u8 \<Rightarrow> u8 \<Rightarrow> u8 \<Rightarrow> u8 \<Rightarrow> u32 \<Rightarrow> 'h \<Rightarrow> 'h" where
  "pci_write_u32 io bus device func offset v h =
     out32 io PCI_CONFIG_DATA_PORT v (out32 io PCI_CONFIG_ADDRESS_PORT (config_address bus device func offset) h)"

section \<open>Functions\<close>

datatype Vendor = Intel | Amd | Nvidia | Qemu | UnknownVendor u32

definition Vendor_new :: "u32 \<Rightarrow> Vendor" where
  "Vendor_new i =
     (if i = 0x8086 then Intel else if i = 0x1022 then Amd else if i = 0x10DE then Nvidia
      else if i = 0x1234 then Qemu else UnknownVendor i)"

definition vendor_is_valid :: "Vendor \<Rightarrow> bool" where
  "vendor_is_valid v = (case v of UnknownVendor i \<Rightarrow> i \<noteq> 0xFFFF | _ \<Rightarrow> True)"

datatype DeviceType =
    SataController | IdeController | EthernetController | VgaCompatibleController
  | HostBridge | IsaBridge | UnknownDevice u32 u32

definition DeviceType_new :: "u32 \<Rightarrow> u32 \<Rightarrow> DeviceType" where
  "DeviceType_new base_class sub_class =
     (if base_class = 0x01 \<and> sub_class = 0x01 then IdeController
      else if base_class = 0x01 \<and> sub_class = 0x06 then SataController
      else if base_class = 0x02 \<and> sub_class = 0x00 then EthernetController
      else if base_class = 0x03 \<and> sub_class = 0x00 then VgaCompatibleController
      else if base_class = 0x06 \<and> sub_class = 0x00 then HostBridge
      else if base_class = 0x06 \<and> sub_class = 0x01 then IsaBridge
      else UnknownDevice base_class sub_class)"

record PciDevice =
  pci_bus :: u8
  pci_device :: u8
  pci_function :: u8
  pci_vendor :: Vendor
  device_type :: DeviceType

definition PciDevice_new :: "'h io_ports \<Rightarrow> u8 \<Rightarrow> u8 \<Rightarrow> u8 \<Rightarrow> 'h \<Rightarrow> PciDevice option \<times> 'h" where
  "PciDevice_new io bus device function h =
     (case pci_read_u32 io bus device function 0x00 h of (v0, h1) \<Rightarrow>
      let vendor = Vendor_new (v0 AND 0xFFFF) in
      if \<not> vendor_is_valid vendor then (None, h1)
      else
        case pci_read_u32 io bus device function 0x08 h1 of (class_info, h2) \<Rightarrow>
        (Some \<lparr>pci_bus = bus, pci_device = device, pci_function = function, pci_vendor = vendor,
               device_type = DeviceType_new (drop_bit 24 class_info AND 0xFF) (drop_bit 16 class_info AND 0xFF)\<rparr>, h2))"

definition has_multiple_functions :: "'h io_ports \<Rightarrow> u8 \<Rightarrow> u8 \<Rightarrow> 'h \<Rightarrow> bool \<times> 'h" where
  "has_multiple_functions io bus device h =
     (case pci_read_u32 io bus device 0 0x0C h of (v, h1) \<Rightarrow> (drop_bit 16 v AND 0xFF AND 0x80 \<noteq> 0, h1))"

definition enable_mmio :: "'h io_ports \<Rightarrow> PciDevice \<Rightarrow> 'h \<Rightarrow> 'h" where
  "enable_mmio io d h =
     (case pci_read_u32 io (pci_bus d) (pci_device d) (pci_function d) 0x04 h of (command, h1) \<Rightarrow>
      pci_write_u32 io (pci_bus d) (pci_device d) (pci_function d) 0x04 (command OR 2) h1)"

definition enable_bus_mastering :: "'h io_ports \<Rightarrow> PciDevice \<Rightarrow> 'h \<Rightarrow> 'h" where
  "enable_bus_mastering io d h =
     (case pci_read_u32 io (pci_bus d) (pci_device d) (pci_function d) 0x04 h of (command, h1) \<Rightarrow>
      pci_write_u32 io (pci_bus d) (pci_device d) (pci_function d) 0x04 (command OR 4) h1)"

definition get_bar5 :: "'h io_ports \<Rightarrow> PciDevice \<Rightarrow> 'h \<Rightarrow> u32 \<times> 'h" where
  "get_bar5 io d h =
     (case pci_read_u32 io (pci_bus d) (pci_device d) (pci_function d) 0x24 h of (v, h1) \<Rightarrow> (v AND 0xFFFFFFF0, h1))"

section \<open>The scan\<close>

fun scan_functions :: "'h io_ports \<Rightarrow> u8 \<Rightarrow> u8 \<Rightarrow> u8 list \<Rightarrow> 'h \<Rightarrow> PciDevice list \<times> 'h" where
  "scan_functions io bus device [] h = ([], h)"
| "scan_functions io bus device (f # fs) h =
     (case PciDevice_new io bus device f h of (r, h1) \<Rightarrow>
      case scan_functions io bus device fs h1 of (ds, h2) \<Rightarrow>
      ((case r of None \<Rightarrow> ds | Some d \<Rightarrow> d # ds), h2))"

definition scan_slot :: "'h io_ports \<Rightarrow> u8 \<times> u8 \<Rightarrow> 'h \<Rightarrow> PciDevice list \<times> 'h" where
  "scan_slot io = (\<lambda>(bus, device) h.
     case PciDevice_new io bus device 0 h of
       (None, h1) \<Rightarrow> ([], h1)
     | (Some _, h1) \<Rightarrow>
         (case has_multiple_functions io bus device h1 of (multiple_functions, h2) \<Rightarrow>
          scan_functions io bus device (map of_nat [0 ..< if multiple_functions then 8 else 1]) h2))"

fun scan_slots :: "'h io_ports \<Rightarrow> (u8 \<times> u8) list \<Rightarrow> 'h \<Rightarrow> PciDevice list \<times> 'h" where
  "scan_slots io [] h = ([], h)"
| "scan_slots io (s # slots) h =
     (case scan_slot io s h of (ds, h1) \<Rightarrow> case scan_slots io slots h1 of (rest, h2) \<Rightarrow> (ds @ rest, h2))"

definition all_slots :: "(u8 \<times> u8) list" where
  "all_slots = List.product (map of_nat [0 ..< 256]) (map of_nat [0 ..< 32])"

definition scan_pci_bus :: "'h io_ports \<Rightarrow> 'h \<Rightarrow> PciDevice list \<times> 'h" where
  "scan_pci_bus io = scan_slots io all_slots"

text \<open>The first SATA controller is enabled and handed to the driver, whose start is a parameter.\<close>

definition pci_init :: "'h io_ports \<Rightarrow> (u32 \<Rightarrow> 'h \<Rightarrow> 'h run) \<Rightarrow> 'h \<Rightarrow> (u32 option \<times> 'h) run" where
  "pci_init io ahci_init h =
     (case scan_pci_bus io h of (pci_devices, h1) \<Rightarrow>
      case find (\<lambda>d. device_type d = SataController) pci_devices of
        None \<Rightarrow> Inr (None, h1)
      | Some dev \<Rightarrow>
          (case get_bar5 io dev h1 of (bar5, h2) \<Rightarrow>
           bindR (ahci_init bar5 (enable_bus_mastering io dev (enable_mmio io dev h2))) (\<lambda>h3. Inr (Some bar5, h3))))"

section \<open>Buses\<close>

text \<open>What a configuration space says about a function and about the functions of a slot.\<close>

definition function_of :: "(u32 \<Rightarrow> u32) \<Rightarrow> u8 \<Rightarrow> u8 \<Rightarrow> u8 \<Rightarrow> PciDevice option" where
  "function_of cfg bus device function =
     (let vendor = Vendor_new (cfg (config_address bus device function 0x00) AND 0xFFFF);
          class_info = cfg (config_address bus device function 0x08) in
      if vendor_is_valid vendor
      then Some \<lparr>pci_bus = bus, pci_device = device, pci_function = function, pci_vendor = vendor,
                 device_type = DeviceType_new (drop_bit 24 class_info AND 0xFF) (drop_bit 16 class_info AND 0xFF)\<rparr>
      else None)"

definition slot_devices :: "(u32 \<Rightarrow> u32) \<Rightarrow> u8 \<times> u8 \<Rightarrow> PciDevice list" where
  "slot_devices cfg = (\<lambda>(bus, device).
     if function_of cfg bus device 0 = None then []
     else List.map_filter (function_of cfg bus device)
            (if bit (cfg (config_address bus device 0 0x0C)) 23 then [0, 1, 2, 3, 4, 5, 6, 7] else [0]))"

definition bus_devices :: "(u32 \<Rightarrow> u32) \<Rightarrow> PciDevice list" where
  "bus_devices cfg = concat (map (slot_devices cfg) all_slots)"

lemma header_type_bit: "drop_bit 16 v AND 0xFF AND 0x80 \<noteq> 0 \<longleftrightarrow> bit v 23" for v :: u32
  using and_exp_eq_0_iff_not_bit [of "drop_bit 16 v" 7] by (simp add: bit_simps)

lemma command_bits: "(x AND 6) OR (2 OR 4) = (6 :: u32)"
  by (rule bit_word_eqI) (auto simp: bit_simps)

text \<open>
  Configuration mechanism one: the address port selects a register, the data port reads or
  writes it. Reading changes nothing; writing a register leaves the others, and the memory
  space and bus master bits (1 and 2) of a command register (offset 4) are writable.
\<close>

locale pci_buses =
  fixes io :: "'h io_ports" and ok :: "'h \<Rightarrow> bool" and cfg :: "'h \<Rightarrow> u32 \<Rightarrow> u32"
  assumes config_read: "ok h \<Longrightarrow> \<exists>h'. in32 io 0xCFC (out32 io 0xCF8 a h) = (cfg h a, h') \<and> ok h' \<and> cfg h' = cfg h"
    and config_write: "ok h \<Longrightarrow> ok (out32 io 0xCFC v (out32 io 0xCF8 a h))"
      "ok h \<Longrightarrow> a' \<noteq> a \<Longrightarrow> cfg (out32 io 0xCFC v (out32 io 0xCF8 a h)) a' = cfg h a'"
      "ok h \<Longrightarrow> a = config_address b d f 4 \<Longrightarrow> cfg (out32 io 0xCFC v (out32 io 0xCF8 a h)) a AND 6 = v AND 6"
begin

lemma pci_read_ok: "ok h \<Longrightarrow> \<exists>h'. pci_read_u32 io b d f off h = (cfg h (config_address b d f off), h') \<and> ok h' \<and> cfg h' = cfg h"
  using config_read by (simp add: pci_read_u32_def PCI_CONFIG_ADDRESS_PORT_def PCI_CONFIG_DATA_PORT_def)

lemma PciDevice_new_ok: "ok h \<Longrightarrow> \<exists>h'. PciDevice_new io b d f h = (function_of (cfg h) b d f, h') \<and> ok h' \<and> cfg h' = cfg h"
proof -
  assume "ok h"
  then obtain h1 where h1: "pci_read_u32 io b d f 0x00 h = (cfg h (config_address b d f 0x00), h1)" "ok h1" "cfg h1 = cfg h"
    using pci_read_ok by blast
  obtain h2 where h2: "pci_read_u32 io b d f 0x08 h1 = (cfg h (config_address b d f 0x08), h2)" "ok h2" "cfg h2 = cfg h"
    using pci_read_ok [OF h1(2)] h1(3) by metis
  show ?thesis using h1 h2 by (auto simp: PciDevice_new_def function_of_def Let_def)
qed

lemma scan_functions_ok:
  "ok h \<Longrightarrow> \<exists>h'. scan_functions io b d fs h = (List.map_filter (function_of (cfg h) b d) fs, h') \<and> ok h' \<and> cfg h' = cfg h"
proof (induction fs arbitrary: h)
  case Nil
  then show ?case by (simp add: map_filter_simps)
next
  case (Cons f fs)
  obtain h1 where h1: "PciDevice_new io b d f h = (function_of (cfg h) b d f, h1)" "ok h1" "cfg h1 = cfg h"
    using PciDevice_new_ok [OF Cons.prems] by blast
  obtain h2 where "scan_functions io b d fs h1 = (List.map_filter (function_of (cfg h) b d) fs, h2)" "ok h2" "cfg h2 = cfg h"
    using Cons.IH [OF h1(2)] h1(3) by auto
  then show ?case using h1 by (simp add: map_filter_simps split: option.split)
qed

lemma scan_slot_ok: "ok h \<Longrightarrow> \<exists>h'. scan_slot io s h = (slot_devices (cfg h) s, h') \<and> ok h' \<and> cfg h' = cfg h"
proof -
  assume h: "ok h"
  obtain b d where s: "s = (b, d)" by (cases s)
  obtain h1 where h1: "PciDevice_new io b d 0 h = (function_of (cfg h) b d 0, h1)" "ok h1" "cfg h1 = cfg h"
    using PciDevice_new_ok [OF h] by blast
  obtain h2 where h2: "pci_read_u32 io b d 0 0x0C h1 = (cfg h (config_address b d 0 0x0C), h2)" "ok h2" "cfg h2 = cfg h"
    using pci_read_ok [OF h1(2)] h1(3) by metis
  have multi: "has_multiple_functions io b d h1 = (bit (cfg h (config_address b d 0 0x0C)) 23, h2)"
    using h2(1) by (simp add: has_multiple_functions_def header_type_bit [simplified])
  define fs :: "bool \<Rightarrow> u8 list" where "fs m = map of_nat [0 ..< if m then 8 else 1]" for m
  have fs: "fs m = (if m then [0, 1, 2, 3, 4, 5, 6, 7] else [0 :: u8])" for m
    by (simp add: fs_def upt_rec)
  define n where "n = bit (cfg h (config_address b d 0 0x0C)) 23"
  obtain h3 where "scan_functions io b d (fs n) h2 = (List.map_filter (function_of (cfg h) b d) (fs n), h3)"
      "ok h3" "cfg h3 = cfg h"
    using scan_functions_ok [OF h2(2)] h2(3) by metis
  then show ?thesis
    using h1 multi unfolding s scan_slot_def slot_devices_def prod.case fs_def [symmetric] n_def [symmetric] fs [symmetric]
    by (cases "function_of (cfg h) b d 0") simp_all
qed

lemma scan_slots_ok:
  "ok h \<Longrightarrow> \<exists>h'. scan_slots io slots h = (concat (map (slot_devices (cfg h)) slots), h') \<and> ok h' \<and> cfg h' = cfg h"
proof (induction slots arbitrary: h)
  case (Cons s slots)
  obtain h1 where h1: "scan_slot io s h = (slot_devices (cfg h) s, h1)" "ok h1" "cfg h1 = cfg h"
    using scan_slot_ok [OF Cons.prems] by blast
  obtain h2 where "scan_slots io slots h1 = (concat (map (slot_devices (cfg h)) slots), h2)" "ok h2" "cfg h2 = cfg h"
    using Cons.IH [OF h1(2)] h1(3) by auto
  then show ?case using h1 by simp
qed simp

lemma scan_ok: "ok h \<Longrightarrow> \<exists>h'. scan_pci_bus io h = (bus_devices (cfg h), h') \<and> ok h' \<and> cfg h' = cfg h"
  using scan_slots_ok by (simp add: scan_pci_bus_def bus_devices_def)

lemma command_write_ok:
  "ok h \<Longrightarrow> ok (pci_write_u32 io b d f 4 v h) \<and> cfg (pci_write_u32 io b d f 4 v h) (config_address b d f 4) AND 6 = v AND 6"
  using config_write(1,3) by (simp add: pci_write_u32_def PCI_CONFIG_ADDRESS_PORT_def PCI_CONFIG_DATA_PORT_def)

lemma enable_ok:
  assumes "ok h"
  shows "ok (enable_bus_mastering io d (enable_mmio io d h))
    \<and> cfg (enable_bus_mastering io d (enable_mmio io d h)) (config_address (pci_bus d) (pci_device d) (pci_function d) 4) AND 6 = 6"
proof -
  let ?a = "config_address (pci_bus d) (pci_device d) (pci_function d) 4"
  obtain h1 where h1: "pci_read_u32 io (pci_bus d) (pci_device d) (pci_function d) 4 h = (cfg h ?a, h1)" "ok h1"
    using pci_read_ok [OF assms] by blast
  define h2 where "h2 = enable_mmio io d h"
  have h2: "ok h2" "cfg h2 ?a AND 6 = (cfg h ?a OR 2) AND 6"
    using command_write_ok [OF h1(2)] h1(1) by (auto simp: h2_def enable_mmio_def)
  obtain h3 where h3: "pci_read_u32 io (pci_bus d) (pci_device d) (pci_function d) 4 h2 = (cfg h2 ?a, h3)" "ok h3"
    using pci_read_ok [OF h2(1)] by blast
  have "(cfg h2 ?a OR 4) AND 6 = (cfg h2 ?a AND 6) OR 4" by (simp add: bit.conj_disj_distrib2)
  also have "\<dots> = 6" by (simp add: h2(2) bit.conj_disj_distrib2 or.assoc command_bits)
  finally show ?thesis
    using command_write_ok [OF h3(2)] h3(1) by (auto simp: h2_def [symmetric] enable_bus_mastering_def)
qed

lemma init_ok:
  assumes "ok h" and d: "find (\<lambda>d. device_type d = SataController) (bus_devices (cfg h)) = Some d"
    and bar5: "bar5 = cfg h (config_address (pci_bus d) (pci_device d) (pci_function d) 0x24) AND 0xFFFFFFF0"
  shows "\<exists>h'. pci_init io start h = bindR (start bar5 h') (\<lambda>h3. Inr (Some bar5, h3))
    \<and> cfg h' (config_address (pci_bus d) (pci_device d) (pci_function d) 4) AND 6 = 6"
proof -
  obtain h1 where h1: "scan_pci_bus io h = (bus_devices (cfg h), h1)" "ok h1" "cfg h1 = cfg h"
    using scan_ok [OF assms(1)] by blast
  obtain h2 where h2: "get_bar5 io d h1 = (bar5, h2)" "ok h2"
    using pci_read_ok [OF h1(2), where b = "pci_bus d" and d = "pci_device d" and f = "pci_function d" and off = "0x24"] h1(3) bar5 by (auto simp: get_bar5_def)
  show ?thesis
    using h1(1) d h2(1) enable_ok [OF h2(2), of d] by (auto simp: pci_init_def)
qed

lemma init_without_controller:
  "ok h \<Longrightarrow> find (\<lambda>d. device_type d = SataController) (bus_devices (cfg h)) = None \<Longrightarrow>
    \<exists>h'. pci_init io start h = Inr (None, h') \<and> cfg h' = cfg h"
  using scan_ok by (fastforce simp: pci_init_def)

end

section \<open>An emulated bus\<close>

text \<open>The selected address and the configuration registers.\<close>

definition emulated_bus :: "(u32 \<times> (u32 \<Rightarrow> u32)) io_ports" where
  "emulated_bus =
     \<lparr>in8 = (\<lambda>_ h. (0xFF, h)), out8 = (\<lambda>_ _ h. h), out16 = (\<lambda>_ _ h. h),
      in32 = (\<lambda>p h. (if p = 0xCFC then snd h (fst h) else 0xFFFFFFFF, h)),
      out32 = (\<lambda>p v h. if p = 0xCF8 then (v, snd h) else if p = 0xCFC then (fst h, (snd h)(fst h := v)) else h)\<rparr>"

interpretation emulated_pci: pci_buses emulated_bus "\<lambda>_. True" snd
  by unfold_locales (simp_all add: emulated_bus_def)

text \<open>A bus with one SATA controller in slot 3 of bus 0 and a host bridge in slot 0.\<close>

definition demo_bus :: "u32 \<Rightarrow> u32" where
  "demo_bus a =
     (if a = config_address 0 0 0 0 then 0x12378086 else if a = config_address 0 0 0 8 then 0x06000002
      else if a = config_address 0 3 0 0 then 0x29228086 else if a = config_address 0 3 0 8 then 0x01060102
      else if a = config_address 0 3 0 0x24 then 0xFEBF1008
      else if a AND 0xFC = 0 then 0xFFFFFFFF else 0)"

lemma all_slots_first: "\<exists>rest. all_slots = (0, 0) # (0, 1) # (0, 2) # (0, 3) # rest"
proof -
  have *: "[0 ..< n + k] = [0 ..< k] @ [k ..< n + k]" for n k :: nat
    using upt_add_eq_append [of 0 k n] by (simp add: add.commute)
  have "[0 ..< (32 :: nat)] = [0, 1, 2, 3] @ [4 ..< 32]"
    using * [of 28 4] by (simp add: upt_rec)
  moreover have "[0 ..< (256 :: nat)] = 0 # [1 ..< 256]"
    by (simp add: upt_conv_Cons)
  ultimately show ?thesis by (simp add: all_slots_def)
qed

lemma demo_bus_controller:
  "find (\<lambda>d. device_type d = SataController) (bus_devices demo_bus)
   = Some \<lparr>pci_bus = 0, pci_device = 3, pci_function = 0, pci_vendor = Intel, device_type = SataController\<rparr>"
proof -
  obtain rest where slots: "all_slots = (0, 0) # (0, 1) # (0, 2) # (0, 3) # rest" using all_slots_first by blast
  have "slot_devices demo_bus (0, 0) = [\<lparr>pci_bus = 0, pci_device = 0, pci_function = 0, pci_vendor = Intel, device_type = HostBridge\<rparr>]"
      "slot_devices demo_bus (0, 1) = []" "slot_devices demo_bus (0, 2) = []"
      "slot_devices demo_bus (0, 3) = [\<lparr>pci_bus = 0, pci_device = 3, pci_function = 0, pci_vendor = Intel, device_type = SataController\<rparr>]"
    by code_simp+
  then show ?thesis unfolding bus_devices_def slots by simp
qed

section \<open>Properties\<close>

text \<open>C23: On any buses reached by configuration mechanism one, the scan returns exactly the
  functions that answer, by bus, slot and function number, looking past function 0 only in
  multi-function slots; initialisation returns the BAR5 address of the first SATA controller
  among them and starts the AHCI driver on it with the controller's memory space and bus
  mastering enabled, and without a controller starts nothing.\<close>

theorem scan_is_exact_and_starts_controller:
  assumes "pci_buses io ok cfg" and "ok h"
  shows "(\<exists>h'. scan_pci_bus io h = (bus_devices (cfg h), h')) \<and>
    (case find (\<lambda>d. device_type d = SataController) (bus_devices (cfg h)) of
       None \<Rightarrow> \<exists>h'. pci_init io start h = Inr (None, h') \<and> cfg h' = cfg h
     | Some d \<Rightarrow>
         let bar5 = cfg h (config_address (pci_bus d) (pci_device d) (pci_function d) 0x24) AND 0xFFFFFFF0 in
         \<exists>h'. pci_init io start h = bindR (start bar5 h') (\<lambda>h3. Inr (Some bar5, h3))
           \<and> cfg h' (config_address (pci_bus d) (pci_device d) (pci_function d) 4) AND 6 = 6)"
  using pci_buses.scan_ok [OF assms] pci_buses.init_ok [OF assms] pci_buses.init_without_controller [OF assms]
  by (auto split: option.split)

theorem scan_is_exact_and_starts_controller_witness:
  "\<exists>h'. pci_init emulated_bus (\<lambda>_. Inr) (0, demo_bus) = Inr (Some 0xFEBF1000, h') \<and> snd h' (config_address 0 3 0 4) AND 6 = 6"
  using scan_is_exact_and_starts_controller [OF emulated_pci.pci_buses_axioms, of "(0, demo_bus)" "\<lambda>_. Inr"]
  by (auto simp: demo_bus_controller demo_bus_def config_address_def)

end
