(* ===== verification/Ahci_Init.thy ===== *)
theory Ahci_Init
  imports Ahci Address_Space Disk_Manager
begin

text \<open>
  Bringing up an AHCI controller, \<^verbatim>\<open>init\<close> of \<^verbatim>\<open>src/drivers/block/ahci/mod.rs\<close>: the register file is
  mapped, AHCI mode enabled, and every port with a disk gets its command list, receive area
  and command tables before the disk goes to the disk manager. The main result is that a
  port so set up meets what the sector commands of \<open>Ahci\<close> rely on.
\<close>

section \<open>Host registers\<close>

text \<open>The two registers of \<^verbatim>\<open>HbaMemory\<close> outside the ports that the driver uses.\<close>

record 'h hba_host =
  ghc_read :: "'h \<times> memory \<Rightarrow> u32 \<times> 'h \<times> memory"
  ghc_write :: "u32 \<Rightarrow> 'h \<times> memory \<Rightarrow> 'h \<times> memory"
  pi_read :: "'h \<times> memory \<Rightarrow> u32 \<times> 'h \<times> memory"

definition HOST_CONT_BITS :: u32 where "HOST_CONT_BITS = 0x80000007"
definition HOST_CONT_AE :: u32 where "HOST_CONT_AE = 0x80000000"

definition enable_ahci :: "'h hba_host \<Rightarrow> 'h \<times> memory \<Rightarrow> 'h \<times> memory" where
  "enable_ahci host s =
     (case ghc_read host s of (v, s1) \<Rightarrow> ghc_write host ((v AND HOST_CONT_BITS) OR HOST_CONT_AE) s1)"

section \<open>The register mapping\<close>

definition MMIO_FLAGS :: u64 where "MMIO_FLAGS = PRESENT OR WRITABLE OR 0x10 OR 0x8"

text \<open>A page that cannot be mapped is only logged.\<close>

definition map_registers ::
    "mapper \<Rightarrow> nat option \<Rightarrow> nat \<Rightarrow> u32 \<Rightarrow> nat \<Rightarrow> nat \<Rightarrow> phys_memory \<Rightarrow> phys_memory run" where
  "map_registers mp hhdm_response cr3 bar5_address virtual_bar5 i p =
     bindR (virt_add virtual_bar5 (i * 4096)) (\<lambda>v.
     bindR (mp_map_to mp (system_allocate_frame hhdm_response) cr3 (align_down 4096 v)
              (align_down 4096 (unat bar5_address + i * 4096)) MMIO_FLAGS p) (\<lambda>(_, p1). Inr p1))"

section \<open>Setting up a port\<close>

definition setup_slot :: "nat \<Rightarrow> nat \<Rightarrow> memory \<Rightarrow> memory run" where
  "setup_slot dma_frames_phys slot m =
     bindR (add64 dma_frames_phys 4096) (\<lambda>tables.
     bindR (add64 tables (slot * 256)) (\<lambda>command_table_phys.
     let header = dma_frames_phys + slot * 32 in
     Inr (write_ram (header + 12) (u32_bytes (word_of_nat (command_table_phys div 2 ^ 32)))
         (write_ram (header + 8) (u32_bytes (word_of_nat command_table_phys))
         (write_ram (header + 2) (u16_bytes 8) m)))))"

definition setup_port :: "'h hba \<Rightarrow> nat \<Rightarrow> nat \<Rightarrow> 'h disk_state \<Rightarrow> 'h disk_state run" where
  "setup_port hw hhdm_offset port s =
     (case stop_cmd hw port (controller s, ram (pmem s)) of
        None \<Rightarrow> Inl Diverges
      | Some (h1, m1) \<Rightarrow>
          bindR (allocate_contiguous_frames 3 (falloc (pmem s))) (\<lambda>(r, a).
          bindR (expectR r) (\<lambda>dma_frames_phys.
          bindR (add64 hhdm_offset dma_frames_phys) (\<lambda>dma_frames_virt.
          let s2 = hba_write hw port P_clb (word_of_nat dma_frames_phys) (h1, fill_ram dma_frames_phys 12288 0 m1);
              s3 = hba_write hw port P_clbu (word_of_nat (dma_frames_phys div 2 ^ 32)) s2 in
          bindR (add64 dma_frames_phys 1024) (\<lambda>fb_phys.
          let s4 = hba_write hw port P_fb (word_of_nat fb_phys) s3;
              s5 = hba_write hw port P_fbu (word_of_nat (fb_phys div 2 ^ 32)) s4 in
          bindR (assertR (dma_frames_virt \<noteq> 0 \<and> 4 dvd dma_frames_virt) UndefinedBehaviour) (\<lambda>_.
          bindR (foldR (setup_slot dma_frames_phys) [0 ..< 32] (snd s5)) (\<lambda>m6.
          case start_cmd hw port (fst s5, m6) of
            None \<Rightarrow> Inl Diverges
          | Some (h7, m7) \<Rightarrow> Inr \<lparr>controller = h7, pmem = \<lparr>falloc = a, ram = m7\<rparr>\<rparr>)))))))"

text \<open>
  One turn of the port loop: a port whose link is up and active and whose signature is that of
  a disk is set up and its disk processed; every other port is left alone.
\<close>

definition init_port :: "'h hba \<Rightarrow> nat option \<Rightarrow> nat \<Rightarrow> u32 \<Rightarrow> nat \<Rightarrow> 'h disk_state \<Rightarrow> 'h disk_state run" where
  "init_port hw hhdm_response hhdm_offset ports_impl i s =
     (if \<not> bit ports_impl i then Inr s
      else case hba_read hw i P_ssts (controller s, ram (pmem s)) of (sata_status, h1, m1) \<Rightarrow>
        let s1 = s\<lparr>controller := h1, pmem := (pmem s)\<lparr>ram := m1\<rparr>\<rparr> in
        if sata_status AND 0x0F = 3 \<and> drop_bit 8 sata_status AND 0x0F = 1
        then (case hba_read hw i P_sig (h1, m1) of (sig, h2, m2) \<Rightarrow>
              let s2 = s1\<lparr>controller := h2, pmem := (pmem s1)\<lparr>ram := m2\<rparr>\<rparr> in
              if sig = 0xEB140101 then Inr s2
              else if sig = 0x00000101
              then bindR (setup_port hw hhdm_offset i s2) (\<lambda>s3.
                   bindR (process_disk (ahci_disk hw hhdm_response i) s3) (\<lambda>(_, s4). Inr s4))
              else Inr s2)
        else Inr s1)"

definition ahci_init ::
    "'h hba \<Rightarrow> 'h hba_host \<Rightarrow> mapper \<Rightarrow> nat option \<Rightarrow> nat \<Rightarrow> u32 \<Rightarrow> 'h disk_state \<Rightarrow> 'h disk_state run" where
  "ahci_init hw host mp hhdm_response cr3 bar5_address s =
     bindR (expectR hhdm_response) (\<lambda>offset.
     bindR (virt_addr offset) (\<lambda>hhdm_offset.
     bindR (add64 (unat bar5_address) hhdm_offset) (\<lambda>b.
     bindR (virt_addr b) (\<lambda>virtual_bar5.
     bindR (virt_add hhdm_offset cr3) (\<lambda>_.
     bindR (foldR (map_registers mp hhdm_response cr3 bar5_address virtual_bar5) [0 ..< 2] (pmem s)) (\<lambda>p.
     bindR (assertR (virtual_bar5 \<noteq> 0 \<and> 4 dvd virtual_bar5) UndefinedBehaviour) (\<lambda>_.
     case pi_read host (enable_ahci host (controller s, ram p)) of (ports_impl, h1, m1) \<Rightarrow>
     foldR (init_port hw hhdm_response hhdm_offset ports_impl) [0 ..< 32]
       (s\<lparr>controller := h1, pmem := p\<lparr>ram := m1\<rparr>\<rparr>))))))))"

section \<open>Ports without a disk\<close>

text \<open>A port that is not implemented, has no active link or carries a CD-ROM costs no frame.\<close>

lemma init_port_no_disk:
  assumes "\<And>h m. \<exists>h'. hba_read hw i P_ssts (h, m) = (ssts, h', m)" and "\<And>h m. \<exists>h'. hba_read hw i P_sig (h, m) = (sig, h', m)"
    and "\<not> bit pi i \<or> ssts AND 0x0F \<noteq> 3 \<or> drop_bit 8 ssts AND 0x0F \<noteq> 1 \<or> sig \<noteq> 0x101"
  shows "\<exists>h. init_port hw hhdm_response hhdm pi i s = Inr (s\<lparr>controller := h\<rparr>)"
proof -
  obtain h1 where h1: "hba_read hw i P_ssts (controller s, ram (pmem s)) = (ssts, h1, ram (pmem s))" using assms(1) by blast
  obtain h2 where h2: "hba_read hw i P_sig (h1, ram (pmem s)) = (sig, h2, ram (pmem s))" using assms(2) by blast
  have "init_port hw hhdm_response hhdm pi i s
      = Inr (s\<lparr>controller := if \<not> bit pi i then controller s
                else if ssts AND 0x0F = 3 \<and> drop_bit 8 ssts AND 0x0F = 1 then h2 else h1\<rparr>)"
    using h1 h2 assms(3) by (auto simp: init_port_def Let_def)
  then show ?thesis by blast
qed

section \<open>The command structures\<close>

lemma read_u32_after:
  "read_u32_ram p (write_ram p (u32_bytes w) m) = w"
  "p + 4 \<le> q \<or> q + length bs \<le> p \<Longrightarrow> read_u32_ram p (write_ram q bs m) = read_u32_ram p m"
proof -
  have "read_ram p 4 (write_ram p (u32_bytes w) m) = u32_bytes w" using read_write_ram [of p "u32_bytes w" m] by simp
  then show "read_u32_ram p (write_ram p (u32_bytes w) m) = w"
    using unsigned_less [of w, where ?'a = nat] by (simp add: read_u32_ram_def u32_bytes_def le_nat_to_le)
qed (simp add: read_u32_ram_def read_write_ram_other)

lemma setup_slot_ok:
  assumes "d + 12288 \<le> 2 ^ 64" and "slot < 32"
  shows "\<exists>m'. setup_slot d slot m = Inr m' \<and> table_address (d + slot * 32) m' = d + 4096 + slot * 256
    \<and> (\<forall>j. j \<noteq> slot \<longrightarrow> table_address (d + j * 32) m' = table_address (d + j * 32) m)"
proof -
  define t where "t = d + 4096 + slot * 256"
  define c where "c = d + slot * 32"
  define m' where "m' = write_ram (c + 12) (u32_bytes (word_of_nat (t div 2 ^ 32))) (write_ram (c + 8) (u32_bytes (word_of_nat t))
      (write_ram (c + 2) (u16_bytes 8) m))"
  have t: "t < 2 ^ 64" using assms by (simp add: t_def)
  have "setup_slot d slot m = Inr m'"
    using assms by (simp add: setup_slot_def run_simps Let_def m'_def t_def c_def)
  moreover have "table_address c m' = t"
    using t by (simp add: table_address_def m'_def read_u32_after unat_of_nat take_bit_nat_def less_mult_imp_div_less)
  moreover have "table_address (d + j * 32) m' = table_address (d + j * 32) m" if "j \<noteq> slot" for j
  proof -
    have "d + j * 32 + 32 \<le> c \<or> c + 32 \<le> d + j * 32" using that unfolding c_def by linarith
    then show ?thesis unfolding table_address_def m'_def by (auto simp: read_u32_after(2))
  qed
  ultimately show ?thesis unfolding t_def c_def by blast
qed

lemma setup_slots_ok:
  assumes "d + 12288 \<le> 2 ^ 64" and "n \<le> 32"
  shows "\<exists>m'. foldR (setup_slot d) [0 ..< n] m = Inr m' \<and> (\<forall>j < n. table_address (d + j * 32) m' = d + 4096 + j * 256)"
  using assms(2)
proof (induction n)
  case (Suc n)
  then obtain m1 where m1: "foldR (setup_slot d) [0 ..< n] m = Inr m1" "\<forall>j < n. table_address (d + j * 32) m1 = d + 4096 + j * 256"
    by auto
  obtain m2 where m2: "setup_slot d n m1 = Inr m2" "table_address (d + n * 32) m2 = d + 4096 + n * 256"
      "\<forall>j. j \<noteq> n \<longrightarrow> table_address (d + j * 32) m2 = table_address (d + j * 32) m1"
    using setup_slot_ok [OF assms(1), of n m1] Suc.prems by auto
  have "foldR (setup_slot d) [0 ..< Suc n] m = Inr m2" using m1(1) m2(1) by (simp add: foldR_append)
  then show ?case using m1(2) m2 by (auto simp: less_Suc_eq)
qed simp

lemma base_of_words: "d < 2 ^ 64 \<Longrightarrow> unat (word_of_nat (d div 2 ^ 32) :: u32) * 2 ^ 32 + unat (word_of_nat d :: u32) = d"
  by (simp add: unat_of_nat take_bit_nat_def less_mult_imp_div_less)

section \<open>A port that obeys the protocol\<close>

text \<open>From \<open>s\<close> the command register shows one of \<open>bits\<close> \<open>k\<close> times and then none, ending in \<open>t\<close>.\<close>

fun clears :: "'h hba \<Rightarrow> nat \<Rightarrow> u32 \<Rightarrow> nat \<Rightarrow> 'h \<times> memory \<Rightarrow> 'h \<times> memory \<Rightarrow> bool" where
  "clears hw port bits 0 s t = (case hba_read hw port P_cmd s of (v, s1) \<Rightarrow> v AND bits = 0 \<and> s1 = t)"
| "clears hw port bits (Suc k) s t =
     (case hba_read hw port P_cmd s of (v, s1) \<Rightarrow> v AND bits \<noteq> 0 \<and> clears hw port bits k s1 t)"

lemma wait_cmd_clear_clears:
  "clears hw port (PORT_CMD_BITS AND bits) k s t \<Longrightarrow> wait_cmd_clear hw port bits s = Some t"
  by (induction k arbitrary: s) (subst wait_cmd_clear.simps, auto simp: and.assoc split: prod.splits)+

text \<open>
  The states of a port: idle with some configuration (\<open>rok\<close>), stopped (\<open>sok\<close>), and running on a
  command list (\<open>hok clb\<close>, an \<open>ahci_controller\<close>). Clearing ST and FRE (0x11) stops the port after
  finitely many polls of CR and FR (0xC000); a stopped port shows neither and takes new base
  addresses; setting ST and FRE starts it on the list they name.
\<close>

locale ahci_port =
  fixes hw :: "'h hba" and port capacity :: nat and rok sok :: "'h \<Rightarrow> bool" and hok :: "nat \<Rightarrow> 'h \<Rightarrow> bool"
    and clb_of clbu_of :: "'h \<Rightarrow> u32" and media :: "'h \<Rightarrow> nat \<Rightarrow> u8 list"
  assumes runs: "clb < 2 ^ 64 \<Longrightarrow> ahci_controller hw port clb capacity (hok clb) media"
    and cmd_idle: "rok h \<Longrightarrow> \<exists>v h'. hba_read hw port P_cmd (h, m) = (v, h', m) \<and> rok h' \<and> media h' = media h"
    and cmd_stop: "rok h \<Longrightarrow> v AND 0x11 = 0 \<Longrightarrow>
        \<exists>k h'. clears hw port 0xC000 k (hba_write hw port P_cmd v (h, m)) (h', m) \<and> sok h' \<and> media h' = media h"
    and cmd_stopped: "sok h \<Longrightarrow> \<exists>v. hba_read hw port P_cmd (h, m) = (v, h, m) \<and> v AND 0xC000 = 0"
    and bases: "sok h \<Longrightarrow> reg \<in> {P_clb, P_clbu, P_fb, P_fbu} \<Longrightarrow>
        \<exists>h'. hba_write hw port reg v (h, m) = (h', m) \<and> sok h' \<and> media h' = media h
          \<and> clb_of h' = (if reg = P_clb then v else clb_of h) \<and> clbu_of h' = (if reg = P_clbu then v else clbu_of h)"
    and cmd_start: "sok h \<Longrightarrow> v AND 0x11 = 0x11 \<Longrightarrow>
        \<exists>h'. hba_write hw port P_cmd v (h, m) = (h', m) \<and> media h' = media h
          \<and> hok (unat (clbu_of h) * 2 ^ 32 + unat (clb_of h)) h'"
begin

lemma stop_ok: "rok h \<Longrightarrow> \<exists>h'. stop_cmd hw port (h, m) = Some (h', m) \<and> sok h' \<and> media h' = media h"
proof -
  assume "rok h"
  then obtain v h1 where h1: "hba_read hw port P_cmd (h, m) = (v, h1, m)" "rok h1" "media h1 = media h" using cmd_idle by blast
  define w where "w = v AND PORT_CMD_BITS AND NOT (PORT_CMD_ST OR PORT_CMD_FRE)"
  have "w AND 0x11 = 0" by (simp add: w_def PORT_CMD_BITS_def PORT_CMD_ST_def PORT_CMD_FRE_def and.assoc)
  then obtain k h2 where h2: "clears hw port 0xC000 k (hba_write hw port P_cmd w (h1, m)) (h2, m)" "sok h2" "media h2 = media h1"
    using cmd_stop h1(2) by blast
  have "wait_cmd_clear hw port (PORT_CMD_CR OR PORT_CMD_FR) (hba_write hw port P_cmd w (h1, m)) = Some (h2, m)"
    by (rule wait_cmd_clear_clears [of _ _ _ k]) (use h2(1) in \<open>simp add: PORT_CMD_BITS_def PORT_CMD_CR_def PORT_CMD_FR_def\<close>)
  then show ?thesis using h1 h2 by (simp add: stop_cmd_def w_def)
qed

lemma start_ok:
  "sok h \<Longrightarrow> \<exists>h'. start_cmd hw port (h, m) = Some (h', m) \<and> media h' = media h \<and> hok (unat (clbu_of h) * 2 ^ 32 + unat (clb_of h)) h'"
proof -
  assume h: "sok h"
  then obtain v where v: "hba_read hw port P_cmd (h, m) = (v, h, m)" "v AND 0xC000 = 0" using cmd_stopped by blast
  have "v AND 0x8000 = (v AND 0xC000) AND 0x8000" by (simp add: and.assoc)
  then have "wait_cmd_clear hw port PORT_CMD_CR (h, m) = Some (h, m)"
    using v by (subst wait_cmd_clear.simps) (simp add: PORT_CMD_BITS_def PORT_CMD_CR_def and.assoc)
  moreover have "((v AND PORT_CMD_BITS) OR (PORT_CMD_FRE OR PORT_CMD_ST)) AND 0x11 = 0x11"
    by (rule bit_word_eqI) (auto simp: bit_simps PORT_CMD_BITS_def PORT_CMD_FRE_def PORT_CMD_ST_def)
  ultimately show ?thesis using cmd_start [OF h] v(1) by (fastforce simp: start_cmd_def)
qed

lemma program_ok:
  assumes "sok h"
  shows "\<exists>h'. hba_write hw port P_fbu w (hba_write hw port P_fb v (hba_write hw port P_clbu u (hba_write hw port P_clb t (h, m)))) = (h', m)
    \<and> sok h' \<and> media h' = media h \<and> clb_of h' = t \<and> clbu_of h' = u"
proof -
  obtain h2 where h2: "hba_write hw port P_clb t (h, m) = (h2, m)" "sok h2" "media h2 = media h" "clb_of h2 = t"
    using bases [OF assms, of P_clb t m] by auto
  obtain h3 where h3: "hba_write hw port P_clbu u (h2, m) = (h3, m)" "sok h3" "media h3 = media h2" "clb_of h3 = t" "clbu_of h3 = u"
    using bases [OF h2(2), of P_clbu u m] h2(4) by auto
  obtain h4 where h4: "hba_write hw port P_fb v (h3, m) = (h4, m)" "sok h4" "media h4 = media h3" "clb_of h4 = t" "clbu_of h4 = u"
    using bases [OF h3(2), of P_fb v m] h3(4,5) by auto
  show ?thesis using bases [OF h4(2), of P_fbu w m] h2 h3 h4 by auto
qed

text \<open>
  Setting up a port from three contiguous free frames: the port runs on the new command list,
  every slot has its own command table, and the driver's state invariant holds.
\<close>

lemma setup_ok:
  assumes rok: "rok (controller s)" and inv: "allocator_inv (falloc (pmem s))"
    and k: "first_fit (falloc (pmem s)) 3 = Some k"
    and spare: "\<exists>f. refs (falloc (pmem s)) f = Some 0 \<and> f \<notin> {k ..< k + 3}"
    and direct: "\<forall>f. refs (falloc (pmem s)) f = Some 0 \<longrightarrow> hhdm + f * 4096 + 4096 \<le> 2 ^ 64" and hhdm: "4 dvd hhdm" "0 < hhdm"
  shows "\<exists>s'. setup_port hw hhdm port s = Inr s' \<and> media (controller s') = media (controller s)
    \<and> refs (falloc (pmem s')) = (\<lambda>f. if f \<in> {k ..< k + 3} then Some 1 else refs (falloc (pmem s)) f)
    \<and> (\<forall>j < 32. table_address (k * 4096 + j * 32) (ram (pmem s')) = k * 4096 + 4096 + j * 256)
    \<and> ahci_controller.disk_ok (k * 4096) (hok (k * 4096)) hhdm (k * 4096 + 4096) s'"
proof -
  let ?a = "falloc (pmem s)" and ?d = "k * 4096"
  have free: "refs ?a f = Some 0" if "f \<in> {k ..< k + 3}" for f
    using k that by (auto simp: first_fit_def find_Some_iff run_free_iff)
  then have top: "hhdm + ?d + 12288 \<le> 2 ^ 64" using direct [rule_format, of "k + 2"] by simp
  obtain h1 where h1: "stop_cmd hw port (controller s, ram (pmem s)) = Some (h1, ram (pmem s))" "sok h1" "media h1 = media (controller s)"
    using stop_ok rok by blast
  obtain a where a: "allocate_contiguous_frames 3 ?a = Inr (Some ?d, a)" "allocator_inv a"
      "refs a = (\<lambda>f. if f \<in> {k ..< k + 3} then Some 1 else refs ?a f)"
    using allocate_contiguous_frames_spec [OF inv, of 3] k by (auto simp: FRAME_SIZE_def)
  define m2 where "m2 = fill_ram ?d 12288 0 (ram (pmem s))"
  obtain h5 where h5: "hba_write hw port P_fbu (word_of_nat ((?d + 1024) div 2 ^ 32)) (hba_write hw port P_fb (word_of_nat (?d + 1024))
        (hba_write hw port P_clbu (word_of_nat (?d div 2 ^ 32)) (hba_write hw port P_clb (word_of_nat ?d) (h1, m2)))) = (h5, m2)"
      "sok h5" "media h5 = media h1" "clb_of h5 = word_of_nat ?d" "clbu_of h5 = word_of_nat (?d div 2 ^ 32)"
    using program_ok [OF h1(2)] by blast
  obtain m6 where m6: "foldR (setup_slot ?d) [0 ..< 32] m2 = Inr m6" "\<forall>j < 32. table_address (?d + j * 32) m6 = ?d + 4096 + j * 256"
    using setup_slots_ok [of ?d 32 m2] top by auto
  obtain h7 where h7: "start_cmd hw port (h5, m6) = Some (h7, m6)" "media h7 = media h5" "hok ?d h7"
    using start_ok [OF h5(2), of m6] base_of_words [of ?d] top h5(4,5) by auto
  define s' where "s' = \<lparr>controller = h7, pmem = \<lparr>falloc = a, ram = m6\<rparr>\<rparr>"
  have virt: "4 dvd hhdm + ?d" using hhdm(1) by simp
  have "setup_port hw hhdm port s = Inr s'"
    using h1(1) a(1) top h5(1) m6(1) h7(1) hhdm(2) virt
    by (simp add: setup_port_def run_simps Let_def m2_def [symmetric] s'_def)
  moreover have "ahci_controller.disk_ok ?d (hok ?d) hhdm (?d + 4096) s'"
  proof -
    have ctl: "ahci_controller hw port ?d capacity (hok ?d) media" using runs top by simp
    have "ahci_controller.layout_ok ?d hhdm (?d + 4096) m6"
      using m6(2) [rule_format, of 0] top hhdm virt by (simp add: ahci_controller.layout_ok_def [OF ctl] add.commute dvd_add_right_iff)
    moreover have "hhdm + f * 4096 < 2 ^ 64 \<and> (f * 4096 + 4096 \<le> ?d \<or> ?d + 32 \<le> f * 4096)
        \<and> (f * 4096 + 4096 \<le> ?d + 4096 \<or> ?d + 4096 + 144 \<le> f * 4096)" if "refs a f = Some 0" for f
    proof -
      have f: "refs ?a f = Some 0" "f < k \<or> k + 3 \<le> f" using that by (auto simp: a(3) split: if_splits)
      then show ?thesis using direct [rule_format, of f] by auto
    qed
    moreover have "\<exists>f. refs a f = Some 0" using spare by (auto simp: a(3))
    ultimately show ?thesis using h7(3) a(2) by (simp add: ahci_controller.disk_ok_def [OF ctl] s'_def FRAME_SIZE_def)
  qed
  ultimately show ?thesis using h1(3) h5(3) h7(2) a(3) m6(2) by (auto simp: s'_def)
qed

end

section \<open>An emulated port\<close>

text \<open>The port of \<open>Ahci\<close> with its two base registers and an attached disk of \<open>cap\<close> sectors.\<close>

type_synonym emu_state = "(u32 \<times> u32) \<times> (nat \<Rightarrow> u8 list)"

definition emu_base :: "emu_state \<Rightarrow> nat" where
  "emu_base h = unat (snd (fst h)) * 2 ^ 32 + unat (fst (fst h))"

definition emu_port :: "emu_state hba" where
  "emu_port =
     \<lparr>hba_read = (\<lambda>port reg s.
        (case reg of P_clb \<Rightarrow> fst (fst (fst s)) | P_clbu \<Rightarrow> snd (fst (fst s)) | P_tfd \<Rightarrow> 0x50 | P_sig \<Rightarrow> 0x101 | P_ssts \<Rightarrow> 0x113 | _ \<Rightarrow> 0, s)),
      hba_write = (\<lambda>port reg v ((r, im), m).
        case reg of P_clb \<Rightarrow> (((v, snd r), im), m) | P_clbu \<Rightarrow> (((fst r, v), im), m)
        | P_ci \<Rightarrow> if v = 1 then (case emu_exec (emu_base (r, im)) (im, m) of (im', m') \<Rightarrow> ((r, im'), m')) else ((r, im), m)
        | _ \<Rightarrow> ((r, im), m))\<rparr>"

definition emu_running :: "nat \<Rightarrow> nat \<Rightarrow> emu_state \<Rightarrow> bool" where
  "emu_running cap clb h \<longleftrightarrow> emu_base h = clb \<and> image_ok cap (snd h)"

lemma emu_base_words: "emu_base ((l, u), im) div 2 ^ 32 = unat u" "word_of_nat (emu_base ((l, u), im)) = l"
proof -
  have l: "unat l < 2 ^ 32" using unsigned_less [of l, where ?'a = nat] by simp
  then show "emu_base ((l, u), im) div 2 ^ 32 = unat u" by (simp add: emu_base_def)
  have z: "(4294967296 :: u32) = 0" by simp
  have "u * 4294967296 = 0" unfolding z by simp
  then show "word_of_nat (emu_base ((l, u), im)) = l" by (simp add: emu_base_def)
qed

lemma emu_hba_completes: "completes (emu_hba c) 0 k s t \<longleftrightarrow> k = 0 \<and> s = t"
  by (cases k) (auto simp: emu_hba_def)

lemma emu_port_issue:
  assumes "emu_base (r, im) = c" and "completes (emu_hba c) 0 k (hba_write (emu_hba c) 0 P_ci 1 (im, m)) (im', m')"
  shows "completes emu_port 0 0 (hba_write emu_port 0 P_ci 1 ((r, im), m)) ((r, im'), m')"
  using assms by (simp add: emu_hba_completes) (simp add: emu_hba_def emu_port_def)

lemma emu_port_runs:
  assumes "clb < 2 ^ 64"
  shows "ahci_controller emu_port 0 clb (min cap (2 ^ 48)) (emu_running cap clb) snd"
proof -
  define base :: u64 where "base = word_of_nat clb"
  have b: "clb = unat base" using assms by (simp add: base_def unat_of_nat take_bit_nat_def)
  show ?thesis
  proof unfold_locales
    fix h :: emu_state and lba m p
    assume a: "emu_running cap clb h" "lba < min cap (2 ^ 48)" "command_at clb m 5 0x25 lba p" "p < 2 ^ 64" "even p"
    obtain r im where h: "h = (r, im)" by (cases h)
    then have i: "emu_base (r, im) = clb" "image_ok cap im" using a(1) by (auto simp: emu_running_def)
    obtain k im' m' where x: "completes (emu_hba clb) 0 k (hba_write (emu_hba clb) 0 P_ci 1 (im, m)) (im', m')" "image_ok cap im'" "im' = im"
        "\<forall>x. \<not> (p \<le> x \<and> x < p + 512) \<and> \<not> (clb + 4 \<le> x \<and> x < clb + 8) \<longrightarrow> m' x = m x"
        "p + 512 \<le> clb + 4 \<or> clb + 8 \<le> p \<longrightarrow> read_ram p 512 m' = im lba"
      using emulated.dma_read [OF i(2) a(2) a(3) [unfolded b] a(4,5)] unfolding b by blast
    show "\<exists>k h' m'. completes emu_port 0 k (hba_write emu_port 0 P_ci 1 (h, m)) (h', m') \<and> emu_running cap clb h' \<and> snd h' = snd h
        \<and> (\<forall>x. \<not> (p \<le> x \<and> x < p + 512) \<and> \<not> (clb + 4 \<le> x \<and> x < clb + 8) \<longrightarrow> m' x = m x)
        \<and> (p + 512 \<le> clb + 4 \<or> clb + 8 \<le> p \<longrightarrow> read_ram p 512 m' = snd h lba)"
      using emu_port_issue [OF i(1) x(1)] x(2-5) a(1) unfolding h
      by (intro exI [of _ 0] exI [of _ "(r, im')"] exI [of _ m']) (auto simp: h)
  next
    fix h :: emu_state and lba m p
    assume a: "emu_running cap clb h" "lba < min cap (2 ^ 48)" "command_at clb m 0x45 0x35 lba p" "p < 2 ^ 64" "even p"
    obtain r im where h: "h = (r, im)" by (cases h)
    then have i: "emu_base (r, im) = clb" "image_ok cap im" using a(1) by (auto simp: emu_running_def)
    obtain k im' m' where x: "completes (emu_hba clb) 0 k (hba_write (emu_hba clb) 0 P_ci 1 (im, m)) (im', m')" "image_ok cap im'"
        "im' = im(lba := read_ram p 512 m)" "\<forall>x. \<not> (clb + 4 \<le> x \<and> x < clb + 8) \<longrightarrow> m' x = m x"
      using emulated.dma_write [OF i(2) a(2) a(3) [unfolded b] a(4,5)] unfolding b by blast
    show "\<exists>k h' m'. completes emu_port 0 k (hba_write emu_port 0 P_ci 1 (h, m)) (h', m') \<and> emu_running cap clb h'
        \<and> snd h' = (snd h)(lba := read_ram p 512 m) \<and> (\<forall>x. \<not> (clb + 4 \<le> x \<and> x < clb + 8) \<longrightarrow> m' x = m x)"
      using emu_port_issue [OF i(1) x(1)] x(2-4) i(1) unfolding h
      by (intro exI [of _ 0] exI [of _ "(r, im')"] exI [of _ m']) (auto simp: emu_running_def emu_base_def)
  qed (use assms in \<open>auto simp: emu_port_def emu_running_def image_ok_def emu_base_words [simplified]\<close>)
qed

interpretation emulated_port: ahci_port emu_port 0 "min cap (2 ^ 48)" "\<lambda>h. image_ok cap (snd h)" "\<lambda>h. image_ok cap (snd h)"
    "emu_running cap" "\<lambda>h. fst (fst h)" "\<lambda>h. snd (fst h)" snd
proof (rule ahci_port.intro)
  fix clb :: nat
  assume "clb < 2 ^ 64"
  then show "ahci_controller emu_port 0 clb (min cap (2 ^ 48)) (emu_running cap clb) snd" by (rule emu_port_runs)
next
  fix h :: emu_state and v m
  assume h: "image_ok cap (snd h)"
  show "\<exists>k h'. clears emu_port 0 0xC000 k (hba_write emu_port 0 P_cmd v (h, m)) (h', m) \<and> image_ok cap (snd h') \<and> snd h' = snd h"
    using h by (intro exI [of _ 0] exI [of _ h]) (auto simp: emu_port_def split: prod.split)
qed (auto simp: emu_port_def emu_running_def emu_base_def)

section \<open>Properties\<close>

text \<open>C13: Setting up a port turns it into a working disk. From an idle port that follows the AHCI
  protocol and three contiguous free frames, set-up ends, reserves exactly the first such frames,
  gives each of the 32 command slots a command table of its own inside them, and leaves a state
  from which every sector of the medium is read back as it was and stays readable after a
  write.\<close>

theorem port_setup_makes_disk:
  assumes hw: "ahci_port hw port capacity rok sok hok clb_of clbu_of media" and rok: "rok (controller s)"
    and inv: "allocator_inv (falloc (pmem s))" and k: "first_fit (falloc (pmem s)) 3 = Some k"
    and spare: "\<exists>f. refs (falloc (pmem s)) f = Some 0 \<and> f \<notin> {k ..< k + 3}"
    and direct: "\<forall>f. refs (falloc (pmem s)) f = Some 0 \<longrightarrow> hhdm + f * 4096 + 4096 \<le> 2 ^ 64"
    and hhdm: "4 dvd hhdm" "0 < hhdm"
  shows "\<exists>s'. setup_port hw hhdm port s = Inr s'
    \<and> refs (falloc (pmem s')) = (\<lambda>f. if f \<in> {k ..< k + 3} then Some 1 else refs (falloc (pmem s)) f)
    \<and> (\<forall>slot < 32. table_address (k * 4096 + slot * 32) (ram (pmem s')) = k * 4096 + 4096 + slot * 256)
    \<and> (\<forall>lba < capacity. \<exists>s2. ahci_read_block hw (Some hhdm) port lba 512 s' = Inr (Inr (media (controller s) lba), s2))
    \<and> (\<forall>lba < capacity. \<forall>bs. length bs = 512 \<longrightarrow>
         (\<exists>s2 s3. ahci_write_block hw (Some hhdm) port lba bs s' = Inr (Inr (), s2)
            \<and> ahci_read_block hw (Some hhdm) port lba 512 s2 = Inr (Inr bs, s3)))"
proof -
  obtain s' where s': "setup_port hw hhdm port s = Inr s'" "media (controller s') = media (controller s)"
      "refs (falloc (pmem s')) = (\<lambda>f. if f \<in> {k ..< k + 3} then Some 1 else refs (falloc (pmem s)) f)"
      "\<forall>slot < 32. table_address (k * 4096 + slot * 32) (ram (pmem s')) = k * 4096 + 4096 + slot * 256"
      "ahci_controller.disk_ok (k * 4096) (hok (k * 4096)) hhdm (k * 4096 + 4096) s'"
    using ahci_port.setup_ok [OF hw rok inv k spare direct hhdm] by blast
  have "hhdm + k * 4096 + 4096 \<le> 2 ^ 64"
    using k direct [rule_format, of k] by (auto simp: first_fit_def find_Some_iff run_free_iff)
  then have ctl: "ahci_controller hw port (k * 4096) capacity (hok (k * 4096)) media" using ahci_port.runs [OF hw] by simp
  have "\<exists>s2 s3. ahci_write_block hw (Some hhdm) port lba bs s' = Inr (Inr (), s2)
      \<and> ahci_read_block hw (Some hhdm) port lba 512 s2 = Inr (Inr bs, s3)" if "lba < capacity" "length bs = 512" for lba bs
  proof -
    note l = that
    obtain s2 where s2: "ahci_write_block hw (Some hhdm) port lba bs s' = Inr (Inr (), s2)"
        "ahci_controller.disk_ok (k * 4096) (hok (k * 4096)) hhdm (k * 4096 + 4096) s2" "media (controller s2) lba = bs"
      using ahci_controller.write_law_ahci [OF ctl s'(5) l] by auto
    then show ?thesis using ahci_controller.read_law_ahci [OF ctl s2(2) l(1)] by auto
  qed
  moreover have "\<exists>s2. ahci_read_block hw (Some hhdm) port lba 512 s' = Inr (Inr (media (controller s) lba), s2)" if "lba < capacity" for lba
    using ahci_controller.read_law_ahci [OF ctl s'(5) that] s'(2) by auto
  ultimately show ?thesis using s'(1,3,4) by blast
qed

text \<open>Five frames, the first of them in use.\<close>

definition five_frames :: frame_allocator where
  "five_frames = \<lparr>bitmap = [1], ref_counts = [1, 0, 0, 0, 0], total_frames = 5, last_free_frame_hint = 0\<rparr>"

lemma five_frames_refs: "refs five_frames f = (if f = 0 then Some 1 else if f < 5 then Some 0 else None)"
  by (auto simp: refs_def five_frames_def nth_Cons split: nat.split)

lemma five_frames_inv: "allocator_inv five_frames"
proof -
  have "f < 5 \<longleftrightarrow> f = 0 \<or> f = 1 \<or> f = 2 \<or> f = 3 \<or> f = (4 :: nat)" for f by auto
  then show ?thesis by (simp add: allocator_inv_def shape_ok_def busy_bit_def five_frames_def bit_simps)
qed

theorem port_setup_makes_disk_witness:
  "\<exists>s' s2. setup_port emu_port 4096 0 \<lparr>controller = ((0, 0), \<lambda>_. replicate 512 7), pmem = \<lparr>falloc = five_frames, ram = \<lambda>_. 0\<rparr>\<rparr> = Inr s'
     \<and> refs (falloc (pmem s')) 3 = Some 1 \<and> refs (falloc (pmem s')) 4 = Some 0
     \<and> ahci_read_block emu_port (Some 4096) 0 5 512 s' = Inr (Inr (replicate 512 7), s2)"
proof -
  let ?s = "\<lparr>controller = ((0, 0), \<lambda>_. replicate 512 7), pmem = \<lparr>falloc = five_frames, ram = \<lambda>_. 0\<rparr>\<rparr> :: emu_state disk_state"
  have "total_frames five_frames = 5" by (simp add: five_frames_def)
  then have k: "first_fit five_frames 3 = Some 1"
    by (simp add: first_fit_def run_free_def five_frames_refs upt_rec)
  have pre: "image_ok 16 (snd (controller ?s))" "allocator_inv (falloc (pmem ?s))" "first_fit (falloc (pmem ?s)) 3 = Some 1"
      "\<forall>f. refs (falloc (pmem ?s)) f = Some 0 \<longrightarrow> 4096 + f * 4096 + 4096 \<le> 2 ^ 64"
    by (simp_all add: image_ok_def five_frames_inv k five_frames_refs)
  have free: "\<exists>f. refs (falloc (pmem ?s)) f = Some 0 \<and> f \<notin> {1 ..< 1 + 3}"
    by (rule exI [of _ 4]) (simp add: five_frames_refs)
  obtain s' where s': "setup_port emu_port 4096 0 ?s = Inr s'"
      "refs (falloc (pmem s')) = (\<lambda>f. if f \<in> {1 ..< 1 + 3} then Some 1 else refs (falloc (pmem ?s)) f)"
      "\<forall>lba < min 16 (2 ^ 48). \<exists>s2. ahci_read_block emu_port (Some 4096) 0 lba 512 s' = Inr (Inr (snd (controller ?s) lba), s2)"
    using port_setup_makes_disk [OF emulated_port.ahci_port_axioms pre(1-3) free pre(4)] by auto
  obtain s2 where "ahci_read_block emu_port (Some 4096) 0 5 512 s' = Inr (Inr (replicate 512 7), s2)"
    using s'(3) [rule_format, of 5] by auto
  then show ?thesis using s'(1,2) by (auto simp: five_frames_refs)
qed

end
