(* ===== verification/Interrupts.thy ===== *)
theory Interrupts
  imports Syscall
begin

text \<open>
  Interrupts and exceptions, \<^verbatim>\<open>src/core/idt.rs\<close>: the handlers over the state of the whole kernel,
  the table that installs them, and the programming of the timer and interrupt controllers.
  The main result is that a fault of a program kills that program's task and nothing else,
  while a fault of the kernel panics.
\<close>

section \<open>Vectors and the table\<close>

definition PIC_1_OFFSET :: u8 where "PIC_1_OFFSET = 32"
definition PIC_2_OFFSET :: u8 where "PIC_2_OFFSET = PIC_1_OFFSET + 8"

datatype InterruptIndex = Timer | KeyboardIrq | Spurious

definition as_u8 :: "InterruptIndex \<Rightarrow> u8" where
  "as_u8 i = (case i of Timer \<Rightarrow> PIC_1_OFFSET | KeyboardIrq \<Rightarrow> PIC_1_OFFSET + 1 | Spurious \<Rightarrow> PIC_1_OFFSET + 7)"

datatype gate =
    divide_error | breakpoint | invalid_opcode | double_fault | general_protection_fault | page_fault
  | irq InterruptIndex

text \<open>The gate behind a vector; the architecture fixes the numbers of the exceptions.\<close>

definition IDT :: "u8 \<Rightarrow> gate option" where
  "IDT v =
     (if v = 0 then Some divide_error
      else if v = 3 then Some breakpoint
      else if v = 6 then Some invalid_opcode
      else if v = 8 then Some double_fault
      else if v = 13 then Some general_protection_fault
      else if v = 14 then Some page_fault
      else if v = as_u8 Timer then Some (irq Timer)
      else if v = as_u8 KeyboardIrq then Some (irq KeyboardIrq)
      else if v = as_u8 Spurious then Some (irq Spurious)
      else None)"

section \<open>Exceptions\<close>

text \<open>A handler returns to the interrupted code, or another task runs in its place.\<close>

datatype fault_outcome = Continues | Killed

text \<open>
  The endless loop after a task has been killed: it ends for this task once another one is
  current, either through the loop's own \<^verbatim>\<open>schedule\<close> or through an interrupt while halted.
\<close>

partial_function (option) abandon_loop ::
    "(nat \<Rightarrow> 'd kernel \<Rightarrow> 'd kernel) \<Rightarrow> nat \<Rightarrow> 'd kernel \<Rightarrow> 'd kernel run option" where
  [code]: "abandon_loop wake n k =
     (case schedule (ksched k) of
        Inl e \<Rightarrow> Some (Inl e)
      | Inr w \<Rightarrow>
          if current_task (sman w) \<noteq> None then Some (Inr (k\<lparr>ksched := w\<rparr>))
          else let k1 = wake n (k\<lparr>ksched := w\<rparr>) in
               if current_task (sman (ksched k1)) \<noteq> None then Some (Inr k1)
               else abandon_loop wake (n + 1) k1)"

definition terminate_current :: "'d platform \<Rightarrow> 'd kernel \<Rightarrow> (fault_outcome \<times> 'd kernel) run" where
  "terminate_current P k =
     (case abandon_loop (pf_wake P) 0 (put_manager (exit_current_task (sman (ksched k))) k) of
        None \<Rightarrow> Inl Diverges
      | Some r \<Rightarrow> bindR r (\<lambda>k1. Inr (Killed, k1)))"

definition breakpoint_handler :: "'d kernel \<Rightarrow> (fault_outcome \<times> 'd kernel) run" where
  "breakpoint_handler k = Inr (Continues, k)"

definition page_fault_handler :: "'d platform \<Rightarrow> nat \<Rightarrow> u64 \<Rightarrow> 'd kernel \<Rightarrow> (fault_outcome \<times> 'd kernel) run" where
  "page_fault_handler P fault_addr error_code k =
     (let is_present = bit error_code 0; is_write = bit error_code 1; is_user = bit error_code 2 in
      bindR (if is_present \<and> is_write
             then resolve_cow_fault (pf_mapper P) (pf_hhdm P) (cr3 (ksched k)) fault_addr (kphys k)
             else Inr (False, kphys k)) (\<lambda>(resolved, s).
      if resolved then Inr (Continues, k\<lparr>kphys := s\<rparr>)
      else if is_user then terminate_current P (k\<lparr>kphys := s\<rparr>)
      else Inl ExplicitPanic))"

definition general_protection_fault_handler :: "'d platform \<Rightarrow> u64 \<Rightarrow> 'd kernel \<Rightarrow> (fault_outcome \<times> 'd kernel) run" where
  "general_protection_fault_handler P code_segment k =
     (if code_segment AND 3 = 3 then terminate_current P k else Inl ExplicitPanic)"

definition SIGFPE_TEXT :: "u8 list" where
  "SIGFPE_TEXT = ascii ''Signal SIGFPE: divide-by-zero detected. Killing task...'' @ [10]"

definition divide_error_handler :: "'d platform \<Rightarrow> u64 \<Rightarrow> 'd kernel \<Rightarrow> (fault_outcome \<times> 'd kernel) run" where
  "divide_error_handler P code_segment k =
     (if code_segment AND 3 = 3
      then bindR (print (pf_font P) SIGFPE_TEXT (kwriter k)) (\<lambda>w. terminate_current P (k\<lparr>kwriter := w\<rparr>))
      else Inl ExplicitPanic)"

definition SIGILL_TEXT :: "u8 list" where
  "SIGILL_TEXT = ascii ''Signal SIGILL: illegal instruction detected. Killing task...'' @ [10]"

definition invalid_opcode_handler :: "'d platform \<Rightarrow> u64 \<Rightarrow> 'd kernel \<Rightarrow> (fault_outcome \<times> 'd kernel) run" where
  "invalid_opcode_handler P code_segment k =
     (if code_segment AND 3 = 3
      then bindR (print (pf_font P) SIGILL_TEXT (kwriter k)) (\<lambda>w. terminate_current P (k\<lparr>kwriter := w\<rparr>))
      else Inl ExplicitPanic)"

definition double_fault_handler :: "'d kernel \<Rightarrow> (fault_outcome \<times> 'd kernel) run" where
  "double_fault_handler k = Inl ExplicitPanic"

section \<open>Hardware interrupts\<close>

definition notify_end_of_interrupt :: "'d kernel \<Rightarrow> 'd kernel" where
  "notify_end_of_interrupt k = k\<lparr>ksched := (ksched k)\<lparr>eoi_count := eoi_count (ksched k) + 1\<rparr>\<rparr>"

definition spurious_interrupt_handler :: "'d kernel \<Rightarrow> 'd kernel" where
  "spurious_interrupt_handler k = k"

definition timer_interrupt_handler :: "'d kernel \<Rightarrow> 'd kernel run" where
  "timer_interrupt_handler k =
     (let k1 = notify_end_of_interrupt k in bindR (schedule (ksched k1)) (\<lambda>w. Inr (k1\<lparr>ksched := w\<rparr>)))"

definition keyboard_interrupt_handler ::
    "'d platform \<Rightarrow> ('x \<Rightarrow> u8 \<Rightarrow> DecodedKey option \<times> 'x) \<Rightarrow> 'x \<times> 'd kernel \<Rightarrow> ('x \<times> 'd kernel) run" where
  "keyboard_interrupt_handler P decode = (\<lambda>(x, k).
     case in8 (pf_io P) 0x60 (kdev k) of (scancode, d) \<Rightarrow>
     bindR (process_scancode decode scancode (x, \<lparr>ring = kring k, kmanager = sman (ksched k)\<rparr>)) (\<lambda>(x', kw).
     Inr (x', notify_end_of_interrupt (put_manager (kmanager kw) (k\<lparr>kdev := d, kring := ring kw\<rparr>)))))"

section \<open>Delivery\<close>

text \<open>What the processor pushes and the fault address register; the decoder's state travels along.\<close>

record trap =
  trap_vector :: u8
  trap_cs :: u64
  trap_error :: u64
  trap_cr2 :: nat

definition deliver ::
    "'d platform \<Rightarrow> ('x \<Rightarrow> u8 \<Rightarrow> DecodedKey option \<times> 'x) \<Rightarrow> trap \<Rightarrow> 'x \<times> 'd kernel
      \<Rightarrow> (fault_outcome \<times> 'x \<times> 'd kernel) run option" where
  "deliver P decode t = (\<lambda>(x, k).
     let with = (\<lambda>r. bindR r (\<lambda>(out, k'). Inr (out, x, k'))) in
     map_option (\<lambda>g. case g of
         divide_error \<Rightarrow> with (divide_error_handler P (trap_cs t) k)
       | breakpoint \<Rightarrow> with (breakpoint_handler k)
       | invalid_opcode \<Rightarrow> with (invalid_opcode_handler P (trap_cs t) k)
       | double_fault \<Rightarrow> with (double_fault_handler k)
       | general_protection_fault \<Rightarrow> with (general_protection_fault_handler P (trap_cs t) k)
       | page_fault \<Rightarrow> with (page_fault_handler P (trap_cr2 t) (trap_error t) k)
       | irq Timer \<Rightarrow> bindR (timer_interrupt_handler k) (\<lambda>k'. Inr (Continues, x, k'))
       | irq KeyboardIrq \<Rightarrow> bindR (keyboard_interrupt_handler P decode (x, k)) (\<lambda>y. Inr (Continues, y))
       | irq Spurious \<Rightarrow> Inr (Continues, x, spurious_interrupt_handler k))
       (IDT (trap_vector t)))"

section \<open>Initialisation\<close>

text \<open>The two operations of the \<^verbatim>\<open>pic8259\<close> crate that initialisation uses.\<close>

record 'h pics =
  pic_initialize :: "'h \<Rightarrow> 'h"
  pic_write_masks :: "u8 \<Rightarrow> u8 \<Rightarrow> 'h \<Rightarrow> 'h"

definition io_wait :: "'h io_ports \<Rightarrow> 'h \<Rightarrow> 'h" where
  "io_wait io h = out8 io 0x80 0 h"

definition idt_init :: "'h io_ports \<Rightarrow> 'h pics \<Rightarrow> 'h \<Rightarrow> 'h" where
  "idt_init io pics h =
     (let h1 = io_wait io (out8 io 0x43 0x36 h);
          h2 = io_wait io (out8 io 0x40 0x9B h1);
          h3 = io_wait io (out8 io 0x40 0x2E h2);
          h4 = io_wait io (pic_initialize pics h3) in
      io_wait io (pic_write_masks pics 0xFC 0xFF h4))"

section \<open>The timer's rate\<close>

text \<open>
  A programmable interval timer: command 0x36 (channel 0, low byte then high byte, mode 3) is
  followed by the two halves of the divisor. The state is what is known of the divisor.
\<close>

datatype pit = PitIdle | PitLow | PitHigh u8 | PitRuns nat

definition pit_ports :: "pit io_ports" where
  "pit_ports =
     \<lparr>in8 = (\<lambda>_ h. (0, h)),
      out8 = (\<lambda>p v h. if p = 0x43 \<and> v = 0x36 then PitLow
        else if p = 0x40 then (case h of PitLow \<Rightarrow> PitHigh v | PitHigh l \<Rightarrow> PitRuns (unat l + 256 * unat v) | _ \<Rightarrow> h)
        else h),
      out16 = (\<lambda>_ _ h. h), in32 = (\<lambda>_ h. (0, h)), out32 = (\<lambda>_ _ h. h)\<rparr>"

text \<open>
  The divisor programmed is 0x2E9B, low byte first, which makes the timer tick a hundred times a
  second. The comment at the source gives it as 0x9B2E, which would be thirty.
\<close>

lemma timer_divisor:
  "idt_init pit_ports \<lparr>pic_initialize = id, pic_write_masks = (\<lambda>_ _. id)\<rparr> PitIdle = PitRuns 0x2E9B"
  "1193182 div 0x2E9B = (100 :: nat)" "1193182 div 0x9B2E = (30 :: nat)"
  by (simp_all add: idt_init_def io_wait_def pit_ports_def Let_def)

section \<open>Interrupts that return\<close>

text \<open>A key press acknowledges its interrupt once, whatever the key was.\<close>

lemma keyboard_acknowledges:
  assumes "keyboard_interrupt_handler P decode (x, k) = Inr (x', k')"
  shows "eoi_count (ksched k') = eoi_count (ksched k) + 1"
  using assms
  by (auto simp: keyboard_interrupt_handler_def notify_end_of_interrupt_def put_manager_def bindR_def split: prod.splits sum.splits)

text \<open>
  A timer tick acknowledges its interrupt twice, once in the handler and once in \<^verbatim>\<open>schedule\<close>. The
  second command can end a different interrupt that is still in service.
\<close>

lemma store_slot_same [simp]:
  "eoi_count (store_slot slot r w) = eoi_count w" "task_states (sman (store_slot slot r w)) = task_states (sman w)"
  by (simp_all add: store_slot_def split: rsp_slot.split)

lemma schedule_after_pick:
  assumes "schedule_pick (sman w) = Inr (tm, tss, nc, sw)"
  shows "\<exists>w3. eoi_count w3 = eoi_count w + 1 \<and> sman w3 = tm \<and> scpu w3 = scpu w \<and> smem w3 = smem w
    \<and> schedule w = (case sw of
        None \<Rightarrow> Inr w3
      | Some (slot, new_rsp) \<Rightarrow>
          (case context_switch (Some slot) new_rsp (scpu w3, smem w3) of
             None \<Rightarrow> Inl ExplicitPanic
           | Some (saved, c, m) \<Rightarrow> Inr (store_slot slot saved (w3\<lparr>scpu := c, smem := m\<rparr>))))"
proof -
  define w1 where "w1 = w\<lparr>sman := tm, tss_rsp0 := (case tss of None \<Rightarrow> tss_rsp0 w | Some a \<Rightarrow> a), eoi_count := eoi_count w + 1\<rparr>"
  define w2 where "w2 = (case current_task tm of None \<Rightarrow> w1
      | Some n \<Rightarrow> (case task_of tm n of None \<Rightarrow> w1 | Some t \<Rightarrow> w1\<lparr>kernel_rsp := stack_end t\<rparr>))"
  define w3 where "w3 = (case nc of None \<Rightarrow> w2 | Some p \<Rightarrow> if cr3 w2 \<noteq> p then w2\<lparr>cr3 := p\<rparr> else w2)"
  have "eoi_count w3 = eoi_count w + 1" "sman w3 = tm" "scpu w3 = scpu w" "smem w3 = smem w"
    by (simp_all add: w1_def w2_def w3_def split: option.split)
  moreover have "schedule w = (case sw of None \<Rightarrow> Inr w3 | Some (slot, new_rsp) \<Rightarrow>
      (case context_switch (Some slot) new_rsp (scpu w3, smem w3) of None \<Rightarrow> Inl ExplicitPanic
       | Some (saved, c, m) \<Rightarrow> Inr (store_slot slot saved (w3\<lparr>scpu := c, smem := m\<rparr>))))"
    unfolding w3_def w2_def w1_def by (simp only: schedule_def assms bindR_def sum.case prod.case Let_def)
  ultimately show ?thesis by blast
qed

lemma schedule_acknowledges:
  assumes "schedule w = Inr w'"
  shows "eoi_count w' = eoi_count w + 1"
proof -
  obtain tm tss nc sw where p: "schedule_pick (sman w) = Inr (tm, tss, nc, sw)"
    using assms by (cases "schedule_pick (sman w)") (auto simp: schedule_def)
  obtain w3 where w3: "eoi_count w3 = eoi_count w + 1" "schedule w = (case sw of None \<Rightarrow> Inr w3 | Some (slot, new_rsp) \<Rightarrow>
      (case context_switch (Some slot) new_rsp (scpu w3, smem w3) of None \<Rightarrow> Inl ExplicitPanic
       | Some (saved, c, m) \<Rightarrow> Inr (store_slot slot saved (w3\<lparr>scpu := c, smem := m\<rparr>))))"
    using schedule_after_pick [OF p] by blast
  show ?thesis using assms w3(1) unfolding w3(2) by (auto split: option.splits)
qed

lemma timer_acknowledges_twice:
  "timer_interrupt_handler k = Inr k' \<Longrightarrow> eoi_count (ksched k') = eoi_count (ksched k) + 2"
  using schedule_acknowledges
  by (fastforce simp: timer_interrupt_handler_def notify_end_of_interrupt_def bindR_def Let_def split: sum.splits)

section \<open>Killing the running task\<close>

lemma exit_current_states:
  assumes "tm_inv tm" and "current_task tm = Some i"
  shows "state_of (exit_current_task tm) j = (if j = i then Some Dead else state_of tm j)"
    and "task_of (exit_current_task tm) j = task_of tm j" and "current_task (exit_current_task tm) = None"
    and "ready_queue (exit_current_task tm) = filter (\<lambda>x. x \<noteq> i) (ready_queue tm)"
proof -
  have "state_of tm i \<noteq> Some Ready \<Longrightarrow> i \<notin> set (ready_queue tm)" using assms(1) by (auto simp: tm_inv_def)
  then show "ready_queue (exit_current_task tm) = filter (\<lambda>x. x \<noteq> i) (ready_queue tm)"
    using assms(2) by (auto simp: exit_current_task_def set_task_state_queue intro!: filter_True [symmetric])
  show "state_of (exit_current_task tm) j = (if j = i then Some Dead else state_of tm j)"
    using assms by (simp add: exit_current_task_def tm_inv_def)
qed (use assms in \<open>simp_all add: exit_current_task_def\<close>)

lemma schedule_runs:
  assumes inv: "tm_inv (sman w)" and can: "tasks_canonical (sman w)" and q: "tick_queue (sman w) = n # q"
    and new: "current_task (sman w) \<noteq> Some n" and t: "task_of (sman w) n = Some t" "task_rsp t \<noteq> 0"
  shows "\<exists>w'. schedule w = Inr w' \<and> task_states (sman w') = task_states (sman w)"
proof -
  obtain tm tss nc slot where p: "schedule_pick (sman w) = Inr (tm, tss, nc, Some (slot, task_rsp t))"
    using schedule_pick_cons [OF inv can q] new t by auto
  have s: "task_states tm = task_states (sman w)" using schedule_pick_inv [OF inv p can] by simp
  obtain saved c m where "context_switch (Some slot) (task_rsp t) (scpu w, smem w) = Some (saved, c, m)"
    using t(2) by (cases "context_switch (Some slot) (task_rsp t) (scpu w, smem w)") (auto simp: context_switch_def split: prod.splits)
  then show ?thesis using schedule_after_pick [OF p] s by auto
qed

text \<open>The kill when another task is ready: it becomes current at once, and only the killed task changes state.\<close>

lemma terminate_ok:
  fixes k :: "'d kernel"
  defines "tm \<equiv> sman (ksched k)"
  assumes inv: "tm_inv tm" and can: "tasks_canonical tm" and cur: "current_task tm = Some i"
    and q: "filter (\<lambda>x. x \<noteq> i) (ready_queue tm) = n # q" and t: "task_of tm n = Some t" "task_rsp t \<noteq> 0"
  shows "\<exists>w'. terminate_current P k = Inr (Killed, k\<lparr>ksched := w'\<rparr>) \<and> tm_inv (sman w') \<and> current_task (sman w') = Some n
    \<and> ready_queue (sman w') = q \<and> cr3 w' = pml4_frame t \<and> kernel_rsp w' = stack_end t
    \<and> (\<forall>j. state_of (sman w') j = (if j = i then Some Dead else state_of tm j))"
proof -
  note e = exit_current_states [OF inv cur]
  define w where "w = (ksched k)\<lparr>sman := exit_current_task tm\<rparr>"
  have w: "tm_inv (sman w)" "tasks_canonical (sman w)" "tick_queue (sman w) = n # q" "current_task (sman w) \<noteq> Some n"
      "task_of (sman w) n = Some t"
    using exit_current_task_inv [OF inv] can e q t(1) by (simp_all add: w_def tasks_canonical_def tick_queue_def)
  obtain w' where w': "schedule w = Inr w'" "task_states (sman w') = task_states (sman w)"
    using schedule_runs [OF w t(2)] by blast
  have s: "current_task (sman w') = Some n" "cr3 w' = pml4_frame t" "kernel_rsp w' = stack_end t" "tm_inv (sman w')"
      "ready_queue (sman w') = q"
    using schedule_switches [OF w(1-4) w'(1)] w(5) by auto
  have "terminate_current P k = Inr (Killed, k\<lparr>ksched := w'\<rparr>)"
    using w'(1) s(1) by (simp add: terminate_current_def put_manager_def abandon_loop.simps w_def tm_def)
  moreover have "state_of (sman w') j = (if j = i then Some Dead else state_of tm j)" for j
    using e(1) [of j] w'(2) by (simp add: w_def)
  ultimately show ?thesis using s by blast
qed

section \<open>Faults\<close>

text \<open>
  The faults of a program, by the privilege bits of the saved code segment, and for page faults
  by the error code when copy-on-write does not settle them; and the same faults of the kernel.
\<close>

definition program_fault :: "'d platform \<Rightarrow> trap \<Rightarrow> 'd kernel \<Rightarrow> bool" where
  "program_fault P t k \<longleftrightarrow>
     trap_vector t \<in> {0, 6, 13} \<and> trap_cs t AND 3 = 3
   \<or> trap_vector t = 14 \<and> bit (trap_error t) 2
      \<and> (bit (trap_error t) 0 \<and> bit (trap_error t) 1 \<longrightarrow>
           resolve_cow_fault (pf_mapper P) (pf_hhdm P) (cr3 (ksched k)) (trap_cr2 t) (kphys k) = Inr (False, kphys k))"

definition kernel_fault :: "trap \<Rightarrow> bool" where
  "kernel_fault t \<longleftrightarrow>
     trap_vector t \<in> {0, 6, 13} \<and> trap_cs t AND 3 \<noteq> 3 \<or> trap_vector t = 8
   \<or> trap_vector t = 14 \<and> \<not> bit (trap_error t) 2 \<and> \<not> (bit (trap_error t) 0 \<and> bit (trap_error t) 1)"

definition console_ok :: "'d platform \<Rightarrow> 'd kernel \<Rightarrow> bool" where
  "console_ok P k \<longleftrightarrow> (\<forall>w. kwriter k = Some w \<longrightarrow> writer_ok w) \<and> (\<forall>c g. pf_font P c = Some g \<longrightarrow> length g = 8)"

lemma print_returns: "console_ok P k \<Longrightarrow> \<exists>w. print (pf_font P) bs (kwriter k) = Inr w"
  using print_safe [of _ "pf_font P" bs] by (cases "kwriter k") (fastforce simp: console_ok_def print_def)+

text \<open>Every fault of a program ends in \<open>terminate_current\<close>, from a state that differs on the console at most.\<close>

lemma program_fault_terminates:
  assumes "program_fault P t k" and "console_ok P k"
  shows "\<exists>w. deliver P decode t (x, k)
    = Some (bindR (terminate_current P (k\<lparr>kwriter := w\<rparr>)) (\<lambda>(out, k'). Inr (out, x, k')))"
proof -
  have same: "k\<lparr>kwriter := kwriter k\<rparr> = k" "k\<lparr>kphys := kphys k\<rparr> = k" by simp_all
  consider "trap_vector t = 0" "trap_cs t AND 3 = 3" | "trap_vector t = 6" "trap_cs t AND 3 = 3"
    | "trap_vector t = 13" "trap_cs t AND 3 = 3" | "trap_vector t = 14"
    using assms(1) by (auto simp: program_fault_def)
  then show ?thesis
  proof cases
    case 1
    then show ?thesis using print_returns [OF assms(2), of SIGFPE_TEXT]
      by (auto simp: deliver_def IDT_def divide_error_handler_def)
  next
    case 2
    then show ?thesis using print_returns [OF assms(2), of SIGILL_TEXT]
      by (auto simp: deliver_def IDT_def invalid_opcode_handler_def)
  next
    case 3
    then show ?thesis
      by (intro exI [of _ "kwriter k"]) (simp add: deliver_def IDT_def general_protection_fault_handler_def same)
  next
    case 4
    then show ?thesis using assms(1)
      by (intro exI [of _ "kwriter k"]) (auto simp: deliver_def IDT_def page_fault_handler_def program_fault_def Let_def same)
  qed
qed

lemma kernel_fault_panics:
  assumes "kernel_fault t"
  shows "deliver P decode t (x, k) = Some (Inl ExplicitPanic)"
proof -
  consider "trap_vector t = 0" "trap_cs t AND 3 \<noteq> 3" | "trap_vector t = 6" "trap_cs t AND 3 \<noteq> 3"
    | "trap_vector t = 13" "trap_cs t AND 3 \<noteq> 3" | "trap_vector t = 8"
    | "trap_vector t = 14" "\<not> bit (trap_error t) 2" "\<not> (bit (trap_error t) 0 \<and> bit (trap_error t) 1)"
    using assms unfolding kernel_fault_def by blast
  then show ?thesis
    by cases (auto simp: deliver_def IDT_def divide_error_handler_def invalid_opcode_handler_def
        general_protection_fault_handler_def double_fault_handler_def page_fault_handler_def Let_def)
qed

section \<open>Properties\<close>

text \<open>C9: A fault of a program (divide error, invalid opcode, general protection fault, or a page
  fault that copy-on-write does not settle) while another task is ready kills the running task
  and nothing else: the next task of the queue is current in its own address space, every other
  task keeps its state, and physical memory, the file system, devices and pending keys are
  untouched. The same faults raised by the kernel, and a double fault, panic.\<close>

theorem program_fault_kills_only_its_task:
  fixes k :: "'d kernel"
  defines "tm \<equiv> sman (ksched k)"
  assumes "tm_inv tm" and "tasks_canonical tm" and "console_ok P k" and "current_task tm = Some i"
    and "filter (\<lambda>x. x \<noteq> i) (ready_queue tm) = n # q" and "task_of tm n = Some nt" and "task_rsp nt \<noteq> 0"
  shows "(program_fault P t k \<longrightarrow>
       (\<exists>k'. deliver P decode t (x, k) = Some (Inr (Killed, x, k'))
          \<and> tm_inv (sman (ksched k')) \<and> current_task (sman (ksched k')) = Some n \<and> ready_queue (sman (ksched k')) = q
          \<and> cr3 (ksched k') = pml4_frame nt \<and> kernel_rsp (ksched k') = stack_end nt
          \<and> (\<forall>j. state_of (sman (ksched k')) j = (if j = i then Some Dead else state_of tm j))
          \<and> kphys k' = kphys k \<and> kvfs k' = kvfs k \<and> kdev k' = kdev k \<and> kring k' = kring k))
    \<and> (kernel_fault t \<longrightarrow> deliver P decode t (x, k) = Some (Inl ExplicitPanic))"
proof (intro conjI impI)
  assume "program_fault P t k"
  from program_fault_terminates [OF this assms(4)]
  obtain w where w: "deliver P decode t (x, k)
      = Some (bindR (terminate_current P (k\<lparr>kwriter := w\<rparr>)) (\<lambda>(out, k'). Inr (out, x, k')))" ..
  have ks: "ksched (k\<lparr>kwriter := w\<rparr>) = ksched k" by simp
  have "\<exists>w'. terminate_current P (k\<lparr>kwriter := w\<rparr>) = Inr (Killed, k\<lparr>kwriter := w, ksched := w'\<rparr>)
      \<and> tm_inv (sman w') \<and> current_task (sman w') = Some n \<and> ready_queue (sman w') = q \<and> cr3 w' = pml4_frame nt
      \<and> kernel_rsp w' = stack_end nt \<and> (\<forall>j. state_of (sman w') j = (if j = i then Some Dead else state_of tm j))"
    using terminate_ok [of "k\<lparr>kwriter := w\<rparr>", unfolded ks, OF assms(2,3,5-8) [unfolded tm_def]] unfolding tm_def .
  then obtain w' where w': "terminate_current P (k\<lparr>kwriter := w\<rparr>) = Inr (Killed, k\<lparr>kwriter := w, ksched := w'\<rparr>)"
      "tm_inv (sman w') \<and> current_task (sman w') = Some n \<and> ready_queue (sman w') = q \<and> cr3 w' = pml4_frame nt
      \<and> kernel_rsp w' = stack_end nt \<and> (\<forall>j. state_of (sman w') j = (if j = i then Some Dead else state_of tm j))"
    by blast
  have "deliver P decode t (x, k) = Some (Inr (Killed, x, k\<lparr>kwriter := w, ksched := w'\<rparr>))"
    unfolding w w'(1) by simp
  then show "\<exists>k'. deliver P decode t (x, k) = Some (Inr (Killed, x, k'))
          \<and> tm_inv (sman (ksched k')) \<and> current_task (sman (ksched k')) = Some n \<and> ready_queue (sman (ksched k')) = q
          \<and> cr3 (ksched k') = pml4_frame nt \<and> kernel_rsp (ksched k') = stack_end nt
          \<and> (\<forall>j. state_of (sman (ksched k')) j = (if j = i then Some Dead else state_of tm j))
          \<and> kphys k' = kphys k \<and> kvfs k' = kvfs k \<and> kdev k' = kdev k \<and> kring k' = kring k"
    using w'(2) by (intro exI [of _ "k\<lparr>kwriter := w, ksched := w'\<rparr>"]) simp
next
  assume "kernel_fault t"
  then show "deliver P decode t (x, k) = Some (Inl ExplicitPanic)" by (rule kernel_fault_panics)
qed

text \<open>Two programs; the running one divides by zero.\<close>

definition two_programs :: "(nat \<Rightarrow> u8 list) kernel" where
  "two_programs = demo_kernel\<lparr>ksched := (ksched demo_kernel)\<lparr>sman :=
     \<lparr>ready_queue = [2], task_registry = [(1, reader_task), (2, reader_task\<lparr>task_id := 2, pml4_frame := 0x2000\<rparr>)],
      task_states = [(1, Ready), (2, Ready)], current_task = Some 1, ticks = 0\<rparr>\<rparr>\<rparr>"

theorem program_fault_kills_only_its_task_witness:
  "\<exists>k'. deliver demo_platform (\<lambda>x _. (None, x)) \<lparr>trap_vector = 0, trap_cs = 0x23, trap_error = 0, trap_cr2 = 0\<rparr> ((), two_programs)
       = Some (Inr (Killed, (), k'))
     \<and> current_task (sman (ksched k')) = Some 2 \<and> cr3 (ksched k') = 0x2000
     \<and> state_of (sman (ksched k')) 1 = Some Dead \<and> state_of (sman (ksched k')) 2 = Some Ready"
proof -
  let ?tm = "sman (ksched two_programs)"
  have tm: "?tm = \<lparr>ready_queue = [2], task_registry = [(1, reader_task), (2, reader_task\<lparr>task_id := 2, pml4_frame := 0x2000\<rparr>)],
      task_states = [(1, Ready), (2, Ready)], current_task = Some 1, ticks = 0\<rparr>"
    by (simp add: two_programs_def)
  have pre: "tm_inv ?tm" "tasks_canonical ?tm" "console_ok demo_platform two_programs" "current_task ?tm = Some 1"
      "filter (\<lambda>x. x \<noteq> 1) (ready_queue ?tm) = 2 # []"
      "task_of ?tm 2 = Some (reader_task\<lparr>task_id := 2, pml4_frame := 0x2000\<rparr>)" "task_rsp (reader_task\<lparr>task_id := 2, pml4_frame := 0x2000\<rparr>) \<noteq> 0"
    unfolding tm by (auto simp: tm_inv_def reader_task_def tasks_canonical_def canonical_def console_ok_def two_programs_def
        demo_kernel_def demo_platform_def split: if_splits)
  have "program_fault demo_platform \<lparr>trap_vector = 0, trap_cs = 0x23, trap_error = 0, trap_cr2 = 0\<rparr> two_programs"
    by (simp add: program_fault_def)
  then obtain k' where "deliver demo_platform (\<lambda>x _. (None, x)) \<lparr>trap_vector = 0, trap_cs = 0x23, trap_error = 0, trap_cr2 = 0\<rparr> ((), two_programs)
       = Some (Inr (Killed, (), k'))" "current_task (sman (ksched k')) = Some 2" "cr3 (ksched k') = 0x2000"
      "\<forall>j. state_of (sman (ksched k')) j = (if j = 1 then Some Dead else state_of ?tm j)"
    using program_fault_kills_only_its_task [OF pre, of "\<lparr>trap_vector = 0, trap_cs = 0x23, trap_error = 0, trap_cr2 = 0\<rparr>" "\<lambda>x _. (None, x)" "()"]
    by auto
  then show ?thesis by (auto simp: tm)
qed

end
