(* ===== verification/Cpu_Init.thy ===== *)
theory Cpu_Init
  imports Syscall
begin

text \<open>
  Processor set-up: \<^verbatim>\<open>src/core/cpu.rs\<close> (control registers), \<^verbatim>\<open>src/core/gdt.rs\<close> (segments and
  the task state segment), the MSRs of \<^verbatim>\<open>src/core/syscall.rs\<close> and the one-way jump of
  \<^verbatim>\<open>src/task/usermode.rs\<close>. The lemmas show that the order of the descriptors is the one that
  \<^verbatim>\<open>sysretq\<close> needs, so that it returns to the selectors tasks are created with.
\<close>

section \<open>Registers\<close>

record cpu_regs =
  c_cr0 :: u64
  c_cr4 :: u64
  c_apic_base :: u64
  c_efer :: u64
  c_star :: u64
  c_lstar :: u64
  c_sfmask :: u64
  c_segments :: "u16 list"
  c_tr :: u16

definition CR0_MP :: u64 where "CR0_MP = 0x2"
definition CR0_EM :: u64 where "CR0_EM = 0x4"
definition CR4_OSFXSR :: u64 where "CR4_OSFXSR = 0x200"
definition CR4_OSXMMEXCPT :: u64 where "CR4_OSXMMEXCPT = 0x400"

definition cpu_init :: "cpu_regs \<Rightarrow> cpu_regs" where
  "cpu_init r =
     r\<lparr>c_cr0 := (c_cr0 r AND NOT CR0_EM) OR CR0_MP,
       c_cr4 := c_cr4 r OR CR4_OSFXSR OR CR4_OSXMMEXCPT,
       c_apic_base := c_apic_base r AND NOT (push_bit 11 1)\<rparr>"

section \<open>Segments\<close>

datatype Descriptor =
  kernel_code_segment | kernel_data_segment | user_data_segment | user_code_segment | tss_segment

record Selectors =
  sel_kernel_code :: u16
  sel_kernel_data :: u16
  sel_user_code :: u16
  sel_user_data :: u16
  sel_tss :: u16

text \<open>The table of the \<^verbatim>\<open>x86_64\<close> crate is a parameter: adding an entry gives its selector.\<close>

definition build_gdt :: "(Descriptor \<Rightarrow> 'g \<Rightarrow> u16 \<times> 'g) \<Rightarrow> 'g \<Rightarrow> 'g \<times> Selectors" where
  "build_gdt add new =
     (case add kernel_code_segment new of (kernel_code_selector, g1) \<Rightarrow>
      case add kernel_data_segment g1 of (kernel_data_selector, g2) \<Rightarrow>
      case add user_data_segment g2 of (user_data, g3) \<Rightarrow>
      case add user_code_segment g3 of (user_code, g4) \<Rightarrow>
      case add tss_segment g4 of (tss_selector, g5) \<Rightarrow>
      (g5, \<lparr>sel_kernel_code = kernel_code_selector, sel_kernel_data = kernel_data_selector,
            sel_user_code = user_code, sel_user_data = user_data, sel_tss = tss_selector\<rparr>))"

text \<open>CS, DS, ES, SS, FS and GS, then the task register.\<close>

definition gdt_init :: "Selectors \<Rightarrow> cpu_regs \<Rightarrow> cpu_regs" where
  "gdt_init sel r =
     r\<lparr>c_segments := [sel_kernel_code sel, sel_kernel_data sel, sel_kernel_data sel, sel_kernel_data sel,
                      sel_kernel_data sel, sel_kernel_data sel],
       c_tr := sel_tss sel\<rparr>"

definition DOUBLE_FAULT_IST_INDEX :: nat where "DOUBLE_FAULT_IST_INDEX = 0"

record TaskStateSegment =
  privilege_stack_table :: "nat list"
  interrupt_stack_table :: "nat list"

text \<open>The two static stacks are of five pages; their addresses are the linker's.\<close>

definition TSS_new :: "nat \<Rightarrow> nat \<Rightarrow> TaskStateSegment run" where
  "TSS_new rsp0_stack ist_stack =
     bindR (virt_addr rsp0_stack) (\<lambda>a. bindR (virt_add a (4096 * 5)) (\<lambda>rsp0.
     bindR (virt_addr ist_stack) (\<lambda>b. bindR (virt_add b (4096 * 5)) (\<lambda>stack_end.
     Inr \<lparr>privilege_stack_table = (replicate 3 0)[0 := rsp0],
          interrupt_stack_table = (replicate 7 0)[DOUBLE_FAULT_IST_INDEX := stack_end]\<rparr>))))"

definition set_tss_rsp0 :: "nat \<Rightarrow> TaskStateSegment \<Rightarrow> TaskStateSegment" where
  "set_tss_rsp0 rsp0 t = t\<lparr>privilege_stack_table := (privilege_stack_table t)[0 := rsp0]\<rparr>"

section \<open>The system call MSRs\<close>

definition EFER_SCE :: u64 where "EFER_SCE = 1"
definition RFLAGS_IF :: u64 where "RFLAGS_IF = 0x200"

text \<open>\<^verbatim>\<open>Star::write\<close> of the crate, a parameter, refuses selectors that do not fit together.\<close>

definition syscall_init ::
    "(u16 \<Rightarrow> u16 \<Rightarrow> u16 \<Rightarrow> u16 \<Rightarrow> u64 option) \<Rightarrow> nat \<Rightarrow> Selectors \<Rightarrow> cpu_regs \<Rightarrow> cpu_regs run" where
  "syscall_init star_write syscall_entry_address sel r =
     bindR (expectR (star_write (sel_user_code sel) (sel_user_data sel) (sel_kernel_code sel) (sel_kernel_data sel))) (\<lambda>star.
     bindR (virt_addr syscall_entry_address) (\<lambda>a.
     Inr (r\<lparr>c_efer := c_efer r OR EFER_SCE, c_star := star, c_lstar := of_nat a, c_sfmask := RFLAGS_IF\<rparr>)))"

section \<open>The jump to Ring 3\<close>

definition jump_to_user_mode :: "Selectors \<Rightarrow> u64 \<Rightarrow> u64 \<Rightarrow> cpu \<times> memory \<Rightarrow> cpu \<times> memory" where
  "jump_to_user_mode sel entry_point user_stack s =
     (let user_data = ucast (sel_user_data sel OR 3); user_code = ucast (sel_user_code sel OR 3) in
      iretq (fold cpu_push [user_data, user_stack, 0x202, user_code, entry_point] s))"

section \<open>The documented table\<close>

text \<open>
  The crate's table: entries follow the null descriptor in the order they are added, the task
  state segment takes two, and a selector is the entry's offset with the descriptor's level.
\<close>

definition flat_add :: "Descriptor \<Rightarrow> nat \<Rightarrow> u16 \<times> nat" where
  "flat_add d n =
     (of_nat (8 * n) OR (if d = user_data_segment \<or> d = user_code_segment then 3 else 0),
      if d = tss_segment then n + 2 else n + 1)"

definition star_checked :: "u16 \<Rightarrow> u16 \<Rightarrow> u16 \<Rightarrow> u16 \<Rightarrow> u64 option" where
  "star_checked cs_sysret ss_sysret cs_syscall ss_syscall =
     (if cs_sysret = ss_sysret + 8 \<and> ss_syscall = cs_syscall + 8 \<and> ss_sysret AND 3 = 3 \<and> ss_syscall AND 3 = 0
      then Some (push_bit 48 (ucast (ss_sysret - 8)) OR push_bit 32 (ucast cs_syscall)) else None)"

definition kernel_selectors :: Selectors where
  "kernel_selectors = \<lparr>sel_kernel_code = 0x08, sel_kernel_data = 0x10, sel_user_code = 0x23, sel_user_data = 0x1B, sel_tss = 0x28\<rparr>"

lemma build_gdt_selectors: "snd (build_gdt flat_add 1) = kernel_selectors"
  by (simp add: build_gdt_def flat_add_def kernel_selectors_def)

text \<open>What the processor takes from the STAR register for \<^verbatim>\<open>sysretq\<close> and for \<^verbatim>\<open>syscall\<close>.\<close>

definition star_sysret :: "u64 \<Rightarrow> u64 \<times> u64" where
  "star_sysret star = ((drop_bit 48 star + 16) OR 3, (drop_bit 48 star + 8) OR 3)"

definition star_syscall :: "u64 \<Rightarrow> u64 \<times> u64" where
  "star_syscall star = (drop_bit 32 star AND 0xFFFC, (drop_bit 32 star AND 0xFFFC) + 8)"

text \<open>
  With the table in the order the kernel builds it the MSRs are accepted, \<^verbatim>\<open>sysretq\<close> loads the
  user selectors with Ring 3 privilege, \<^verbatim>\<open>syscall\<close> loads the kernel's, and interrupts are off
  on entry.
\<close>

lemma syscall_init_selectors:
  assumes "canonical a"
  shows "\<exists>r'. syscall_init star_checked a (snd (build_gdt flat_add 1)) r = Inr r'
    \<and> star_sysret (c_star r') = (ucast (sel_user_code kernel_selectors) OR 3, ucast (sel_user_data kernel_selectors) OR 3)
    \<and> star_syscall (c_star r') = (ucast (sel_kernel_code kernel_selectors), ucast (sel_kernel_data kernel_selectors))
    \<and> unat (c_lstar r') = a \<and> bit (c_efer r') 0 \<and> bit (c_sfmask r') 9"
proof -
  have "a < 2 ^ 64" using assms by (auto simp: canonical_def)
  then show ?thesis
    using assms unfolding build_gdt_selectors
    by (simp add: syscall_init_def star_checked_def kernel_selectors_def virt_addr_def star_sysret_def star_syscall_def
        EFER_SCE_def RFLAGS_IF_def unat_of_nat take_bit_nat_def bit_simps)
qed

text \<open>A table with the two user descriptors exchanged is refused, and the kernel panics.\<close>

lemma swapped_selectors_refused:
  "syscall_init star_checked a (kernel_selectors\<lparr>sel_user_code := 0x1B, sel_user_data := 0x23\<rparr>) r = Inl ExpectFailed"
  by (simp add: syscall_init_def star_checked_def kernel_selectors_def expectR_def)

section \<open>Results\<close>

text \<open>SSE instructions are allowed, and the local APIC is off whatever it was.\<close>

lemma cpu_init_bits:
  "bit (c_cr0 (cpu_init r)) 1" "\<not> bit (c_cr0 (cpu_init r)) 2"
  "bit (c_cr4 (cpu_init r)) 9" "bit (c_cr4 (cpu_init r)) 10" "\<not> bit (c_apic_base (cpu_init r)) 11"
  by (simp_all add: cpu_init_def CR0_EM_def CR0_MP_def CR4_OSFXSR_def CR4_OSXMMEXCPT_def bit_simps)

text \<open>The jump lands in Ring 3 at the entry point, on the user stack, with interrupts on.\<close>

lemma jump_to_user_mode_lands:
  assumes "40 \<le> rsp c" and "rsp c < 2 ^ 64"
  shows "\<exists>m'. jump_to_user_mode sel entry_point user_stack (c, m)
    = (c\<lparr>rip := entry_point, cs := ucast (sel_user_code sel OR 3), rflags := 0x202, rsp := unat user_stack,
          ss := ucast (sel_user_data sel OR 3)\<rparr>, m')"
proof -
  let ?vs = "[ucast (sel_user_data sel OR 3), user_stack, 0x202, ucast (sel_user_code sel OR 3), entry_point] :: u64 list"
  obtain m' where m': "fold cpu_push ?vs (c, m) = (c\<lparr>rsp := rsp c - 40\<rparr>, m')"
      "\<forall>i<5. peek64 (rsp c - 8 * Suc i) m' = ?vs ! i"
    using cpu_pushes [of ?vs c m] assms by auto
  define b where "b = rsp c - 40"
  have "peek64 (b + 32) m' = ?vs ! 0" "peek64 (b + 24) m' = ?vs ! 1" "peek64 (b + 16) m' = ?vs ! 2"
      "peek64 (b + 8) m' = ?vs ! 3" "peek64 b m' = ?vs ! 4"
    using m'(2) [rule_format, of 0] m'(2) [rule_format, of 1] m'(2) [rule_format, of 2] m'(2) [rule_format, of 3]
      m'(2) [rule_format, of 4] assms(1) by (simp_all add: b_def)
  then show ?thesis
    using m'(1) iretq_eq [of "c\<lparr>rsp := b\<rparr>" m'] assms by (simp add: jump_to_user_mode_def Let_def b_def)
qed

end
