(* ===== verification/Boot.thy ===== *)
theory Boot
  imports Interrupts Cpu_Init Pci Ahci_Init
begin

text \<open>
  Start-up and housekeeping: the kernel heap (\<^verbatim>\<open>src/mm/allocator.rs\<close>), memory management
  (\<^verbatim>\<open>src/mm/mod.rs\<close>), the initial file system (\<^verbatim>\<open>src/fs/mod.rs\<close>), the first tasks and the
  reaper thread (\<^verbatim>\<open>src/task/mod.rs\<close>), and the order of it all in \<^verbatim>\<open>src/main.rs\<close>. Messages on
  the console and the serial port are left out. The main results are that the reaper gives
  back all memory of dead programs, and what set of tasks boot leaves.
\<close>

section \<open>The heap\<close>

definition HEAP_START :: nat where "HEAP_START = 0x444444440000"
definition HEAP_SIZE :: nat where "HEAP_SIZE = 1024 * 1024"

definition heap_pages :: "nat list" where
  "heap_pages = map (\<lambda>i. align_down 4096 HEAP_START + i * 4096)
     [0 ..< (align_down 4096 (HEAP_START + HEAP_SIZE - 1) - align_down 4096 HEAP_START) div 4096 + 1]"

text \<open>The loop of \<^verbatim>\<open>init_heap\<close>; false is a \<^verbatim>\<open>MapToError\<close>.\<close>

fun map_heap :: "mapper \<Rightarrow> nat option \<Rightarrow> nat \<Rightarrow> nat list \<Rightarrow> phys_memory \<Rightarrow> (bool \<times> phys_memory) run" where
  "map_heap mp hhdm_response pml4 [] s = Inr (True, s)"
| "map_heap mp hhdm_response pml4 (page # pages) s =
     bindR (system_allocate_frame hhdm_response s) (\<lambda>(r, s1).
     case r of
       None \<Rightarrow> Inr (False, s1)
     | Some frame \<Rightarrow>
         bindR (mp_map_to mp (system_allocate_frame hhdm_response) pml4 page frame (PRESENT OR WRITABLE) s1) (\<lambda>(ok, s2).
         if ok then map_heap mp hhdm_response pml4 pages s2 else Inr (False, s2)))"

definition init_heap :: "mapper \<Rightarrow> nat option \<Rightarrow> nat \<Rightarrow> phys_memory \<Rightarrow> (bool \<times> phys_memory) run" where
  "init_heap mp hhdm_response pml4 s = map_heap mp hhdm_response pml4 heap_pages s"

section \<open>Memory management\<close>

definition mm_init :: "memmap_entry list option \<Rightarrow> mapper \<Rightarrow> nat option \<Rightarrow> nat \<times> phys_memory \<Rightarrow> (nat \<times> phys_memory) run" where
  "mm_init memmap mp hhdm_response = (\<lambda>(cr3, s).
     bindR (expectR hhdm_response) (\<lambda>offset.
     bindR (virt_addr offset) (\<lambda>phys_offset.
     bindR (init_allocator memmap hhdm_response (falloc s)) (\<lambda>a.
     bindR (isolate_and_init_paging hhdm_response phys_offset cr3 (s\<lparr>falloc := a\<rparr>)) (\<lambda>(new_pml4, s1).
     bindR (init_heap mp hhdm_response new_pml4 s1) (\<lambda>(ok, s2).
     bindR (assertR ok ExpectFailed) (\<lambda>_. Inr (new_pml4, s2))))))))"

section \<open>The file system\<close>

text \<open>The modules of the boot loader; the first is the archive.\<close>

definition init_filesystem :: "u8 list list option \<Rightarrow> vfs \<Rightarrow> vfs run" where
  "init_filesystem modules fs =
     (case modules of
        None \<Rightarrow> Inr fs
      | Some [] \<Rightarrow> Inr fs
      | Some (tar # _) \<Rightarrow> build_vfs_tree_from_tar (vfs_init tar fs))"

section \<open>The reaper thread\<close>

text \<open>One turn of its loop, after the halt: the dead tasks of the moment are purged in order.\<close>

fun reap :: "nat option \<Rightarrow> u64 list \<Rightarrow> 'v task_manager \<times> phys_memory \<Rightarrow> ('v task_manager \<times> phys_memory) run" where
  "reap hhdm_response [] x = Inr x"
| "reap hhdm_response (tid # ids) (tm, s) =
     (case kill tid tm of (t, tm1) \<Rightarrow>
      bindR (case t of
               None \<Rightarrow> Inr s
             | Some dead \<Rightarrow>
                 if privilege dead = UserMode then destroy_user_address_space hhdm_response (pml4_frame dead) s
                 else Inr s) (\<lambda>s1.
      reap hhdm_response ids (tm1, s1)))"

definition reaper_pass :: "nat option \<Rightarrow> 'v task_manager \<times> phys_memory \<Rightarrow> ('v task_manager \<times> phys_memory) run" where
  "reaper_pass hhdm_response = (\<lambda>(tm, s). reap hhdm_response (dead_tasks tm) (tm, s))"

section \<open>The first tasks\<close>

definition SHELL_NAME :: "u8 list" where
  "SHELL_NAME = ascii ''shell.elf''"

definition task_world_of :: "'d kernel \<Rightarrow> vnode task_world" where
  "task_world_of k = \<lparr>manager = sman (ksched k), next_id = knext_id k, kmem = smem (ksched k)\<rparr>"

definition put_world :: "vnode task_world \<Rightarrow> 'd kernel \<Rightarrow> 'd kernel" where
  "put_world w k = k\<lparr>ksched := (ksched k)\<lparr>sman := manager w, smem := kmem w\<rparr>, knext_id := next_id w\<rparr>"

text \<open>Every \<^verbatim>\<open>panic!\<close> of the function is an outcome; the result of mapping the stack is dropped.\<close>

definition start_shell :: "'d platform \<Rightarrow> 'd kernel \<Rightarrow> 'd kernel run" where
  "start_shell P k =
     bindR (find_file SHELL_NAME (kvfs k)) (\<lambda>file.
     case file of
       None \<Rightarrow> Inl ExplicitPanic
     | Some elf_slice \<Rightarrow>
     bindR (create_isolated_pml4 (pf_hhdm P) (cr3 (ksched k)) (kphys k)) (\<lambda>(frame, s1).
     case frame of
       None \<Rightarrow> Inl ExplicitPanic
     | Some target_pml4 \<Rightarrow>
     bindR (load_elf (pf_mapper P) (pf_hhdm P) elf_slice target_pml4 s1) (\<lambda>(load_result, s2).
     let user_stack_base = 0x800000; user_stack_top = user_stack_base + 0x1000 in
     bindR (allocate_and_map_user_page (pf_mapper P) (pf_hhdm P) target_pml4 user_stack_base s2) (\<lambda>(_, s3).
     case load_result of
       Inl e \<Rightarrow> Inl ExplicitPanic
     | Inr entry_point \<Rightarrow>
     let k3 = k\<lparr>kphys := s3\<rparr> in
     bindR (spawn_dynamic (pf_env P) (pf_stack P k3) entry_point target_pml4 user_stack_top (task_world_of k3)) (\<lambda>(r, w).
     case r of
       Inl e \<Rightarrow> Inl ExplicitPanic
     | Inr _ \<Rightarrow> Inr (put_world w k3))))))"

definition init_multitasking :: "'d platform \<Rightarrow> u64 \<Rightarrow> 'd kernel \<Rightarrow> 'd kernel run" where
  "init_multitasking P hilo_segador k0 =
     (let k = put_manager TaskManager_empty k0 in
      bindR (spawn (pf_env P) (pf_stack P k) hilo_segador (cr3 (ksched k)) KernelMode (task_world_of k)) (\<lambda>(r, w).
      case r of
        Inl e \<Rightarrow> Inl ExplicitPanic
      | Inr _ \<Rightarrow> start_shell P (put_world w k)))"

section \<open>The whole boot\<close>

text \<open>What the boot loader, the linker and the hardware supply.\<close>

record 'd boot =
  bt_platform :: "'d platform"
  bt_base_revision :: bool
  bt_framebuffer :: "boot_framebuffer option"
  bt_memmap :: "memmap_entry list option"
  bt_modules :: "u8 list list option"
  bt_gdt_add :: "Descriptor \<Rightarrow> nat \<Rightarrow> u16 \<times> nat"
  bt_stacks :: "nat \<times> nat"
  bt_star :: "u16 \<Rightarrow> u16 \<Rightarrow> u16 \<Rightarrow> u16 \<Rightarrow> u64 option"
  bt_syscall_entry :: nat
  bt_reaper_entry :: u64
  bt_pics :: "'d pics"
  bt_hba :: "'d hba"
  bt_host :: "'d hba_host"

text \<open>The ports, as operations on the kernel state.\<close>

definition kernel_io :: "'d io_ports \<Rightarrow> 'd kernel io_ports" where
  "kernel_io io =
     \<lparr>in8 = (\<lambda>p k. case in8 io p (kdev k) of (v, d) \<Rightarrow> (v, k\<lparr>kdev := d\<rparr>)),
      out8 = (\<lambda>p v k. k\<lparr>kdev := out8 io p v (kdev k)\<rparr>),
      out16 = (\<lambda>p v k. k\<lparr>kdev := out16 io p v (kdev k)\<rparr>),
      in32 = (\<lambda>p k. case in32 io p (kdev k) of (v, d) \<Rightarrow> (v, k\<lparr>kdev := d\<rparr>)),
      out32 = (\<lambda>p v k. k\<lparr>kdev := out32 io p v (kdev k)\<rparr>)\<rparr>"

definition kernel_ahci_init :: "'d boot \<Rightarrow> u32 \<Rightarrow> 'd kernel \<Rightarrow> 'd kernel run" where
  "kernel_ahci_init B bar5 k =
     bindR (ahci_init (bt_hba B) (bt_host B) (pf_mapper (bt_platform B)) (pf_hhdm (bt_platform B)) (cr3 (ksched k)) bar5
              \<lparr>controller = kdev k, pmem = kphys k\<rparr>) (\<lambda>s.
     Inr (k\<lparr>kdev := controller s, kphys := pmem s\<rparr>))"

definition kernel_start :: "'d boot \<Rightarrow> 'd kernel \<times> cpu_regs \<Rightarrow> ('d kernel \<times> cpu_regs) run" where
  "kernel_start B = (\<lambda>(k0, r0).
     let P = bt_platform B; sel = snd (build_gdt (bt_gdt_add B) 1) in
     bindR (assertR (bt_base_revision B) AssertionFailed) (\<lambda>_.
     bindR (display_init (bt_framebuffer B)) (\<lambda>w.
     bindR (TSS_new (fst (bt_stacks B)) (snd (bt_stacks B))) (\<lambda>tss.
     let k1 = k0\<lparr>kwriter := w, ksched := (ksched k0)\<lparr>tss_rsp0 := privilege_stack_table tss ! 0\<rparr>,
                 kdev := idt_init (pf_io P) (bt_pics B) (kdev k0)\<rparr> in
     bindR (syscall_init (bt_star B) (bt_syscall_entry B) sel (gdt_init sel (cpu_init r0))) (\<lambda>r.
     bindR (mm_init (bt_memmap B) (pf_mapper P) (pf_hhdm P) (cr3 (ksched k1), kphys k1)) (\<lambda>(c, s).
     let k2 = k1\<lparr>ksched := (ksched k1)\<lparr>cr3 := c\<rparr>, kphys := s\<rparr> in
     bindR (pci_init (kernel_io (pf_io P)) (kernel_ahci_init B) k2) (\<lambda>(_, k3).
     bindR (init_filesystem (bt_modules B) (kvfs k3)) (\<lambda>fs.
     bindR (init_multitasking P (bt_reaper_entry B) (k3\<lparr>kvfs := fs\<rparr>)) (\<lambda>k4.
     Inr (k4\<lparr>kdev := pit_init (pf_io P) (kdev k4)\<rparr>, r))))))))))"

section \<open>Heap pages\<close>

lemma heap_pages_range: "heap_pages = map (\<lambda>i. 0x444444440000 + i * 4096) [0 ..< 256]"
  by (simp add: heap_pages_def HEAP_START_def HEAP_SIZE_def align_down_def del: upt_rec_numeral)

text \<open>
  The heap lies in the lower half of the address space, and its page table entries carry no
  user bit: a fresh address space shares them, and Ring 3 does not reach them.
\<close>

lemma heap_in_lower_half: "page \<in> set heap_pages \<Longrightarrow> page < 2 ^ 47 \<and> level_index 4 page = 136"
  by (auto simp: heap_pages_range level_index_def)

section \<open>A pass of the reaper\<close>

lemma reap_eq:
  "reap hhdm ids (tm, s) = bindR (foldR (destroy_user_address_space hhdm)
       (map pml4_frame (filter (\<lambda>t. privilege t = UserMode) (fst (purge ids tm)))) s) (\<lambda>s'. Inr (snd (purge ids tm), s'))"
proof (induction ids arbitrary: tm s)
  case (Cons i ids)
  obtain t tm1 where k: "kill i tm = (t, tm1)" by (cases "kill i tm")
  show ?case
    by (cases t) (auto simp: k Cons.IH bindR_assoc split: prod.split cong: bindR_cong)
qed simp

lemma owned4_cong:
  assumes "\<forall>x \<in> area (tables4 m t). m' x = m x"
  shows "owned4 m' t = owned4 m t \<and> tables4 m' t = tables4 m t"
proof -
  define L :: "nat list" where "L = [0 ..< 256]"
  have L: "\<forall>i \<in> set L. i < 512" "\<forall>i \<in> set L. i < 256"
    unfolding L_def set_upt by (auto simp del: upt_rec_numeral)
  have e: "\<forall>x \<in> {t ..< t + 4096} \<union> area (sub_tables tables3 False t L m). m' x = m x"
    using assms unfolding tables4_def L_def [symmetric] by simp
  have "entry_at t i m' = entry_at t i m" if "i \<in> set L" for i
    using e L(2) that by (intro entry_at_cong) force
  then show ?thesis
    using owned_cong [OF releases_levels(3) L(1), of t m' m False] e
    unfolding owned4_def tables4_def L_def [symmetric] by simp
qed

text \<open>How often a list of references names a frame, and that a frame's count covers it.\<close>

definition uses :: "nat list \<Rightarrow> nat \<Rightarrow> nat" where
  "uses ps f = count_list (map (\<lambda>p. p div FRAME_SIZE) ps) f"

definition covers :: "frame_allocator \<Rightarrow> nat list \<Rightarrow> bool" where
  "covers a ps \<longleftrightarrow> (\<forall>f. uses ps f \<le> (case refs a f of None \<Rightarrow> 0 | Some n \<Rightarrow> n))"

lemma uses_append [simp]: "uses (ps @ qs) f = uses ps f + uses qs f" "uses [] f = 0"
  by (simp_all add: uses_def)

text \<open>Tearing down a list of address spaces whose tables lie in different frames.\<close>

lemma destroy_all_ok:
  assumes "tables_ok hhdm (concat (map (tables4 (ram s)) ps))" and "canonical hhdm" and "allocator_inv (falloc s)"
    and "covers (falloc s) (concat (map (owned4 (ram s)) ps))"
  shows "\<exists>s'. foldR (destroy_user_address_space (Some hhdm)) ps s = Inr s' \<and> allocator_inv (falloc s')
    \<and> (\<forall>f. refs (falloc s') f = map_option (\<lambda>n. n - uses (concat (map (owned4 (ram s)) ps)) f) (refs (falloc s) f))
    \<and> (\<forall>x. x \<notin> area (concat (map (tables4 (ram s)) ps)) \<longrightarrow> ram s' x = ram s x)"
  using assms
proof (induction ps arbitrary: s)
  case Nil
  then show ?case by (auto simp: map_option_case split: option.splits)
next
  case (Cons p ps)
  let ?rest = "concat (map (tables4 (ram s)) ps)" and ?own = "concat (map (owned4 (ram s)) ps)"
  have t: "tables_ok hhdm (tables4 (ram s) p @ ?rest)" using Cons.prems(1) by simp
  have c: "uses (owned4 (ram s) p) f + uses ?own f \<le> (case refs (falloc s) f of None \<Rightarrow> 0 | Some n \<Rightarrow> n)" for f
    using Cons.prems(4) by (simp add: covers_def)
  then have c1: "\<forall>f. count_list (map (\<lambda>p. p div FRAME_SIZE) (owned4 (ram s) p)) f \<le> (case refs (falloc s) f of None \<Rightarrow> 0 | Some n \<Rightarrow> n)"
    unfolding uses_def [symmetric] using add_leD1 by blast
  obtain r where r: "destroy_user_address_space (Some hhdm) p s
      = bindR (foldR deallocate_frame (owned4 (ram s) p) (falloc s)) (\<lambda>a. Inr \<lparr>falloc = a, ram = r\<rparr>)"
      "\<forall>x. x \<notin> area (tables4 (ram s) p) \<longrightarrow> r x = ram s x"
    using destroy_ok [OF _ Cons.prems(2), of s p] t by (auto simp: tables_ok_def)
  obtain a where a: "foldR deallocate_frame (owned4 (ram s) p) (falloc s) = Inr a" "allocator_inv a"
      "\<forall>f. refs a f = map_option (\<lambda>n. n - uses (owned4 (ram s) p) f) (refs (falloc s) f)"
    using foldR_deallocate [OF Cons.prems(3) c1] unfolding uses_def by blast
  let ?s1 = "\<lparr>falloc = a, ram = r\<rparr>"
  have same: "owned4 r q = owned4 (ram s) q \<and> tables4 r q = tables4 (ram s) q" if "q \<in> set ps" for q
  proof (rule owned4_cong, rule ballI)
    fix x assume "x \<in> area (tables4 (ram s) q)"
    then have "x \<in> area ?rest" using that by (auto simp: area_def)
    then show "r x = ram s x" using area_disjoint [OF t] r(2) by blast
  qed
  then have eq: "map (tables4 r) ps = map (tables4 (ram s)) ps" "map (owned4 r) ps = map (owned4 (ram s)) ps" by simp_all
  have "covers a ?own"
    unfolding covers_def
  proof
    fix f
    show "uses ?own f \<le> (case refs a f of None \<Rightarrow> 0 | Some n \<Rightarrow> n)"
      using c [of f] a(3) [rule_format, of f] by (cases "refs (falloc s) f") auto
  qed
  moreover have "tables_ok hhdm ?rest" using t by (auto simp: tables_ok_def)
  ultimately obtain s' where s': "foldR (destroy_user_address_space (Some hhdm)) ps ?s1 = Inr s'" "allocator_inv (falloc s')"
      "\<forall>f. refs (falloc s') f = map_option (\<lambda>n. n - uses ?own f) (refs a f)"
      "\<forall>x. x \<notin> area ?rest \<longrightarrow> ram s' x = r x"
    using Cons.IH [of ?s1] Cons.prems(2) a(2) by (auto simp: eq)
  show ?case
    using r a(1,3) s' by (intro exI [of _ s']) (simp add: option.map_comp comp_def)
qed

section \<open>Start of the first tasks\<close>

text \<open>A boot without a shell in its archive panics, after the reaper has been registered.\<close>

lemma no_shell_panics:
  assumes "find_file SHELL_NAME (kvfs k) = Inr None"
  shows "\<exists>e. init_multitasking P entry k = Inl e"
proof -
  have "start_shell P (put_world w (put_manager TaskManager_empty k)) = Inl ExplicitPanic" for w
    using assms by (simp add: start_shell_def put_world_def put_manager_def)
  then show ?thesis
    by (auto simp: init_multitasking_def Let_def bindR_def split: sum.split)
qed

text \<open>
  With a shell that loads and stacks from the heap, exactly two tasks are ready: the reaper in
  the kernel's address space, then the shell in its own. No task is current until the first tick.
\<close>

lemma boot_tasks:
  assumes id: "knext_id k = 1" and stack: "\<And>k'. \<exists>start. pf_stack P k' = Some start \<and> start + STACK_SIZE < 2 ^ 64"
    and shell: "find_file SHELL_NAME (kvfs k) = Inr (Some elf)"
    and pml4: "create_isolated_pml4 (pf_hhdm P) (cr3 (ksched k)) (kphys k) = Inr (Some pml4, s1)"
    and load: "load_elf (pf_mapper P) (pf_hhdm P) elf pml4 s1 = Inr (Inr entry, s2)"
    and page: "allocate_and_map_user_page (pf_mapper P) (pf_hhdm P) pml4 0x800000 s2 = Inr (x, s3)"
  shows "\<exists>k' t1 t2. init_multitasking P reaper k = Inr k' \<and> tm_inv (sman (ksched k'))
    \<and> ready_queue (sman (ksched k')) = [1, 2] \<and> current_task (sman (ksched k')) = None
    \<and> task_of (sman (ksched k')) = [1 \<mapsto> t1, 2 \<mapsto> t2]
    \<and> privilege t1 = KernelMode \<and> pml4_frame t1 = cr3 (ksched k) \<and> privilege t2 = UserMode \<and> pml4_frame t2 = pml4
    \<and> kphys k' = s3"
proof -
  define k1 where "k1 = put_manager TaskManager_empty k"
  have w0: "tw_inv (task_world_of k1)" "next_id (task_world_of k1) \<noteq> - 1"
    using tm_inv_empty id by (simp_all add: task_world_of_def k1_def put_manager_def tw_inv_def TaskManager_empty_def)
  obtain start where st: "pf_stack P k1 = Some start" "start + STACK_SIZE < 2 ^ 64" using stack by blast
  obtain w1 t1 where w1: "spawn_task (pf_env P) (Some start) reaper (cr3 (ksched k1)) KernelMode 0 (task_world_of k1) = Inr (Inr 1, w1)"
      "tw_inv w1" "next_id w1 = 2" "task_of (manager w1) = [1 \<mapsto> t1]" "privilege t1 = KernelMode" "pml4_frame t1 = cr3 (ksched k1)"
      "ready_queue (manager w1) = [1]" "current_task (manager w1) = None"
    using spawn_task_ok [OF w0(1) st(2) w0(2), of "pf_env P" reaper "cr3 (ksched k1)" KernelMode 0] id
    by (auto simp: task_world_of_def k1_def put_manager_def TaskManager_empty_def)
  define k2 where "k2 = (put_world w1 k1)\<lparr>kphys := s3\<rparr>"
  have k2: "task_world_of k2 = w1" by (simp add: task_world_of_def k2_def put_world_def)
  obtain start2 where st2: "pf_stack P k2 = Some start2" "start2 + STACK_SIZE < 2 ^ 64" using stack by blast
  have n2: "next_id w1 \<noteq> - 1" by (simp add: w1(3))
  obtain w2 t2 where w2: "spawn_task (pf_env P) (Some start2) entry pml4 UserMode 0x801000 w1 = Inr (Inr 2, w2)"
      "tw_inv w2" "task_of (manager w2) = [1 \<mapsto> t1, 2 \<mapsto> t2]" "privilege t2 = UserMode" "pml4_frame t2 = pml4"
      "ready_queue (manager w2) = [1, 2]" "current_task (manager w2) = None"
    using spawn_task_ok [OF w1(2) st2(2) n2, of "pf_env P" entry pml4 UserMode "0x801000"] w1(3,4,7,8) by auto
  have f: "kvfs (put_world w1 k1) = kvfs k" "cr3 (ksched (put_world w1 k1)) = cr3 (ksched k)" "kphys (put_world w1 k1) = kphys k"
    by (simp_all add: put_world_def k1_def put_manager_def)
  have "start_shell P (put_world w1 k1) = Inr (put_world w2 k2)"
    unfolding start_shell_def f shell using pml4 load page w2(1) st2(1)
    by (simp add: spawn_dynamic_def k2_def [symmetric] k2)
  then have "init_multitasking P reaper k = Inr (put_world w2 k2)"
    using w1(1) st(1) by (simp add: init_multitasking_def spawn_def k1_def [symmetric])
  then show ?thesis
    using w1(5,6) w2 by (intro exI [of _ "put_world w2 k2"] exI [of _ t1] exI [of _ t2])
      (simp add: put_world_def tw_inv_def k1_def put_manager_def k2_def)
qed

section \<open>Properties\<close>

text \<open>The address spaces of the dead programs, in the order they are purged.\<close>

definition dead_spaces :: "'v task_manager \<Rightarrow> nat list" where
  "dead_spaces tm = map pml4_frame (filter (\<lambda>t. privilege t = UserMode) (map (\<lambda>i. the (task_of tm i)) (dead_tasks tm)))"

text \<open>C11: A pass of the reaper thread gives back all memory of the dead programs and removes
  exactly the dead tasks. Every frame's count drops by the number of references the dead address
  spaces hold to it, page tables included, memory outside their page tables is untouched, blocked
  parents of reaped children become ready, and every other task stays. It does not panic when
  the address spaces lie in different frames and the counts cover their references.\<close>

theorem reaper_returns_all_memory:
  assumes tm: "tm_inv tm" and hh: "canonical hhdm" and inv: "allocator_inv (falloc s)"
    and tables: "tables_ok hhdm (concat (map (tables4 (ram s)) (dead_spaces tm)))"
    and cov: "covers (falloc s) (concat (map (owned4 (ram s)) (dead_spaces tm)))"
  shows "\<exists>tm' s'. reaper_pass (Some hhdm) (tm, s) = Inr (tm', s') \<and> tm_inv tm' \<and> allocator_inv (falloc s')
    \<and> (\<forall>f. refs (falloc s') f
         = map_option (\<lambda>n. n - uses (concat (map (owned4 (ram s)) (dead_spaces tm))) f) (refs (falloc s) f))
    \<and> (\<forall>x. x \<notin> area (concat (map (tables4 (ram s)) (dead_spaces tm))) \<longrightarrow> ram s' x = ram s x)
    \<and> (\<forall>i. task_of tm' i = (if state_of tm i = Some Dead then None else task_of tm i))
    \<and> (\<forall>i. state_of tm' i =
         (if state_of tm i = Some Dead then None
          else if state_of tm i = Some Blocked
                  \<and> (\<exists>d t. state_of tm d = Some Dead \<and> task_of tm d = Some t \<and> parent_id t = Some i)
          then Some Ready else state_of tm i))"
proof -
  note round = reaper_removes_exactly_the_dead [OF tm]
  from round have "map Some (fst (reaper_round tm)) = map (task_of tm) (dead_tasks tm)" by blast
  then have "map the (map Some (fst (reaper_round tm))) = map the (map (task_of tm) (dead_tasks tm))" by simp
  then have fst: "fst (reaper_round tm) = map (\<lambda>i. the (task_of tm i)) (dead_tasks tm)" by (simp add: comp_def)
  obtain s' where "foldR (destroy_user_address_space (Some hhdm)) (dead_spaces tm) s = Inr s'" "allocator_inv (falloc s')"
      "\<forall>f. refs (falloc s') f = map_option (\<lambda>n. n - uses (concat (map (owned4 (ram s)) (dead_spaces tm))) f) (refs (falloc s) f)"
      "\<forall>x. x \<notin> area (concat (map (tables4 (ram s)) (dead_spaces tm))) \<longrightarrow> ram s' x = ram s x"
    using destroy_all_ok [OF tables hh inv cov] by blast
  moreover from this(1) have "reaper_pass (Some hhdm) (tm, s) = Inr (snd (reaper_round tm), s')"
    using fst by (simp add: reaper_pass_def reap_eq reaper_round_def dead_spaces_def)
  ultimately show ?thesis using round by blast
qed

text \<open>A dead program whose PML4 is frame 1 and whose only table is frame 2.\<close>

definition graveyard :: "vnode task_manager" where
  "graveyard = \<lparr>ready_queue = [], task_registry = [(1, reader_task)], task_states = [(1, Dead)], current_task = None, ticks = 0\<rparr>"

theorem reaper_returns_all_memory_witness:
  "\<exists>tm' s'. reaper_pass (Some 0) (graveyard, \<lparr>falloc = demo_alloc [1, 1, 1] 7, ram = demo_tables\<rparr>) = Inr (tm', s')
     \<and> task_of tm' 1 = None \<and> refs (falloc s') 0 = Some 1 \<and> refs (falloc s') 1 = Some 0 \<and> refs (falloc s') 2 = Some 0"
proof -
  let ?s = "\<lparr>falloc = demo_alloc [1, 1, 1] 7, ram = demo_tables\<rparr>"
  have spaces: "dead_spaces graveyard = [0x1000]"
    by (simp add: dead_spaces_def graveyard_def dead_tasks_def reader_task_def)
  have dead: "state_of graveyard 1 = Some Dead" by (simp add: graveyard_def)
  have "tm_inv graveyard" by (auto simp: tm_inv_def graveyard_def reader_task_def split: if_splits)
  moreover have "canonical 0" "allocator_inv (falloc ?s)" "tables_ok 0 (concat (map (tables4 (ram ?s)) (dead_spaces graveyard)))"
      "covers (falloc ?s) (concat (map (owned4 (ram ?s)) (dead_spaces graveyard)))"
    by (auto simp: canonical_def demo_alloc_inv spaces demo_owned tables_ok_def covers_def uses_def demo_alloc_refs FRAME_SIZE_def)
  ultimately show ?thesis
    using reaper_returns_all_memory [of graveyard 0 ?s]
    by (auto simp: spaces dead demo_owned uses_def demo_alloc_refs FRAME_SIZE_def)
qed

end
